(* ===== verification/Prelude.thy ===== *)
theory Prelude
  imports Complex_Main "HOL-Library.Word" "HOL-Library.AList" "HOL-Library.Multiset"
begin

text \<open>
  Shared vocabulary of the development: the fixed-width integer types of Go, byte strings,
  Go maps as association lists, results of fallible functions, and the generic lemmas on
  big-endian byte strings, association lists and sorting that the component theories use.

  \<^item> \<open>uint8\<close>, \<open>uint16\<close>, \<open>uint32\<close>, \<open>uint64\<close> are words: additions wrap around, and a conversion
    such as \<open>uint32(x)\<close> is \<open>ucast\<close>, which truncates.
  \<^item> A fallible Go function \<open>(T, error)\<close> is a sum: \<open>Inl e\<close> is the error (or the panic, where a
    panic is possible) and \<open>Inr x\<close> the result. \<open>res_bind\<close> is the \<open>if err != nil { return err }\<close> step.
  \<^item> A Go map is an association list with distinct keys. Its order is the order in which a
    \<open>range\<close> loop visits it, which Go leaves open; no property depends on it.
\<close>

unbundle bit_operations_syntax

type_synonym u8 = "8 word"
type_synonym u16 = "16 word"
type_synonym u32 = "32 word"
type_synonym u64 = "64 word"
type_synonym bytes = "u8 list"
type_synonym ('k, 'v) gomap = "('k \<times> 'v) list"

named_theorems codec_simps \<open>round trips of the primitive encoders\<close>
named_theorems wf_intros \<open>preservation of the well-formedness invariants\<close>

section \<open>Results\<close>

definition res_bind :: "'e + 'a \<Rightarrow> ('a \<Rightarrow> 'e + 'b) \<Rightarrow> 'e + 'b" where
  "res_bind m f = (case m of Inl e \<Rightarrow> Inl e | Inr x \<Rightarrow> f x)"

lemma res_bind_simps [simp]:
  "res_bind (Inl e) f = Inl e"
  "res_bind (Inr x) f = f x"
  by (simp_all add: res_bind_def)

lemma res_bind_eq_Inr [simp]:
  "res_bind m f = Inr y \<longleftrightarrow> (\<exists>x. m = Inr x \<and> f x = Inr y)"
  by (cases m) simp_all

lemma Inr_eq_res_bind [simp]:
  "Inr y = res_bind m f \<longleftrightarrow> (\<exists>x. m = Inr x \<and> f x = Inr y)"
  by (cases m) auto

section \<open>Big-endian and little-endian byte strings\<close>

text \<open>
  \<open>put_be k w\<close> writes the low \<open>k\<close> bytes of \<open>w\<close>, the most significant first, as
  \<open>binary.BigEndian.PutUint16/32/64\<close> do for \<open>k = 2, 4, 8\<close>; \<open>get_be\<close> is
  \<open>binary.BigEndian.Uint16/32/64\<close>. The little-endian pair is the reversal.
\<close>

primrec put_be :: "nat \<Rightarrow> 'a::len word \<Rightarrow> bytes" where
  "put_be 0 w = []"
| "put_be (Suc k) w = ucast (drop_bit (8 * k) w) # put_be k w"

definition get_be :: "bytes \<Rightarrow> 'a::len word" where
  "get_be bs = foldl (\<lambda>acc b. push_bit 8 acc OR ucast b) 0 bs"

definition put_le :: "nat \<Rightarrow> 'a::len word \<Rightarrow> bytes" where
  "put_le k w = rev (put_be k w)"

definition get_le :: "bytes \<Rightarrow> 'a::len word" where
  "get_le bs = get_be (rev bs)"

lemma length_put_be [simp]: "length (put_be k w) = k"
  by (induction k) simp_all

lemma length_put_le [simp]: "length (put_le k w) = k"
  by (simp add: put_le_def)

lemma put_be_neq_Nil [simp]: "put_be (Suc k) w \<noteq> []"
  by simp

lemma foldl_get_be:
  "foldl (\<lambda>acc b. push_bit 8 acc OR ucast b) acc (put_be k (w :: 'a::len word))
     = push_bit (8 * k) acc OR take_bit (8 * k) w"
proof (induction k arbitrary: acc)
  case 0
  show ?case by simp
next
  case (Suc k)
  have "push_bit (8 * k) (push_bit 8 acc OR ucast (ucast (drop_bit (8 * k) w) :: u8))
          OR take_bit (8 * k) w
        = push_bit (8 * Suc k) acc OR take_bit (8 * Suc k) w"
    by (rule bit_word_eqI) (auto simp: bit_simps add.commute [of 8])
  then show ?case by (simp add: Suc.IH)
qed

lemma get_put_be: "get_be (put_be k (w :: 'a::len word)) = take_bit (8 * k) w"
  by (simp add: get_be_def foldl_get_be)

lemma get_put_be_full [codec_simps]:
  "LENGTH('a) \<le> 8 * k \<Longrightarrow> get_be (put_be k (w :: 'a::len word)) = w"
  by (simp add: get_put_be take_bit_word_eq_self)

lemma get_put_le_full [codec_simps]:
  "LENGTH('a) \<le> 8 * k \<Longrightarrow> get_le (put_le k (w :: 'a::len word)) = w"
  by (simp add: get_le_def put_le_def get_put_be_full)

section \<open>Bits of bounded words\<close>

lemma bit_less_exp:
  fixes w :: "'a::len word"
  assumes "w < 2 ^ k" and "bit w n"
  shows "n < k"
proof -
  have "take_bit k w = w"
    using less_mask_eq [OF assms(1)] by (simp add: take_bit_eq_mask)
  then show ?thesis using assms(2) by (metis bit_take_bit_iff)
qed

lemma less_exp_unat:
  fixes w :: "'a::len word"
  assumes "m < LENGTH('a)"
  shows "w < 2 ^ m \<longleftrightarrow> unat w < 2 ^ m"
proof -
  have "w < 2 ^ m \<longleftrightarrow> int (unat w) < int (2 ^ m)"
    using assms by (simp add: word_2p_lem word_size)
  then show ?thesis by (simp only: of_nat_less_iff)
qed

lemma unat_inc:
  fixes w :: "'a::len word"
  assumes "w < x"
  shows "unat (w + 1) = unat w + 1"
proof -
  have "unat x < 2 ^ LENGTH('a)" by (rule unsigned_less)
  then have "unat w + 1 < 2 ^ LENGTH('a)"
    using assms unfolding word_less_nat_alt by linarith
  then show ?thesis by (simp add: unat_word_ariths)
qed

lemma unat_ucast_less:
  fixes v :: "'a::len word"
  assumes "unat v < 2 ^ LENGTH('b)"
  shows "unat (ucast v :: 'b::len word) = unat v"
  using assms by (simp add: unsigned_ucast_eq take_bit_nat_eq_self)

text \<open>The conversions \<open>uint64(x)\<close> and \<open>uint32(x)\<close> between path IDs and the fields of a frame.\<close>

lemma unat_widen [simp]: "unat (ucast (a :: u32) :: u64) = unat a"
  using unsigned_less [of a, where 'a = nat] by (intro unat_ucast_less) simp

lemma narrow_widen [simp]: "ucast (ucast (a :: u32) :: u64) = a"
  using unsigned_less [of a, where 'a = nat] by (simp add: word_unat_eq_iff unat_ucast_less)

lemma widen_less [simp]: "(ucast a :: u64) < ucast b \<longleftrightarrow> a < b" for a b :: u32
  by (simp add: word_less_nat_alt)

section \<open>Go maps\<close>

text \<open>
  \<open>m[k] = v\<close> is \<open>AList.update\<close>, \<open>delete(m, k)\<close> is \<open>AList.delete\<close>, \<open>v, ok := m[k]\<close> is \<open>map_of\<close>. Every
  map the code builds has distinct keys.
\<close>

abbreviation wf_map :: "('k, 'v) gomap \<Rightarrow> bool" where
  "wf_map m \<equiv> distinct (map fst m)"

lemma map_of_update [simp]: "map_of (AList.update k v m) k' = (if k' = k then Some v else map_of m k')"
  by (simp add: update_conv')

lemma map_of_delete [simp]: "map_of (AList.delete k m) k' = (if k' = k then None else map_of m k')"
  by (simp add: delete_conv')

lemma wf_map_update [simp, wf_intros]: "wf_map m \<Longrightarrow> wf_map (AList.update k v m)"
  by (rule distinct_update)

lemma wf_map_delete [simp, wf_intros]: "wf_map m \<Longrightarrow> wf_map (AList.delete k m)"
  by (rule distinct_delete)

lemma set_update_iff:
  "wf_map m \<Longrightarrow> (k', v') \<in> set (AList.update k v m) \<longleftrightarrow> (if k' = k then v' = v else (k', v') \<in> set m)"
  by (metis map_of_eq_Some_iff map_of_update option.inject wf_map_update)

section \<open>Sorting a slice by a key\<close>

text \<open>
  What the code relies on of \<open>sort.Slice(xs, func(i, j) { key(xs[i]) < key(xs[j]) })\<close>: the result has the
  same elements and is ordered by the key. The order among equal keys is not part of the contract.
\<close>

locale slice_sort =
  fixes srt :: "'a list \<Rightarrow> 'a list" and key :: "'a \<Rightarrow> 'k::linorder"
  assumes srt_mset: "mset (srt xs) = mset xs"
    and srt_sorted: "sorted (map key (srt xs))"
begin

lemma srt_set [simp]: "set (srt xs) = set xs"
  using srt_mset by (metis set_mset_mset)

lemma srt_length [simp]: "length (srt xs) = length xs"
  using srt_mset by (metis size_mset)

lemma srt_distinct: "distinct (map key xs) \<Longrightarrow> distinct (map key (srt xs))"
  using srt_mset by (metis mset_map distinct_count_atmost_1 set_mset_mset set_map srt_set)

lemma srt_filter_mset: "mset (filter P (srt xs)) = mset (filter P xs)"
  using srt_mset by simp

lemma srt_unique:
  assumes "distinct (map key xs)" and "mset ys = mset xs" and "sorted (map key ys)"
  shows "srt xs = ys"
proof (rule map_sorted_distinct_set_unique [where f = key])
  show "inj_on key (set (srt xs) \<union> set ys)"
    using assms(1,2) by (metis distinct_map set_mset_mset srt_set sup.idem)
  show "distinct (map key (srt xs))" using assms(1) by (rule srt_distinct)
  show "distinct (map key ys)"
    using assms(1,2) by (metis mset_map distinct_count_atmost_1 set_mset_mset)
  show "set (srt xs) = set ys" using assms(2) by (metis set_mset_mset srt_set)
qed (use srt_sorted assms(3) in auto)

end

interpretation sort_by: slice_sort "sort_key key" key for key
  by unfold_locales simp_all

section \<open>Reachable states and invariants\<close>

inductive reach :: "('s \<Rightarrow> bool) \<Rightarrow> ('s \<Rightarrow> 's \<Rightarrow> bool) \<Rightarrow> 's \<Rightarrow> bool" for init step where
  reach_init: "init s \<Longrightarrow> reach init step s"
| reach_step: "reach init step s \<Longrightarrow> step s s' \<Longrightarrow> reach init step s'"

text \<open>An invariant of a transition system: the initial states have it and every step keeps it.\<close>

locale invariant_system =
  fixes init :: "'s \<Rightarrow> bool" and step :: "'s \<Rightarrow> 's \<Rightarrow> bool" and inv :: "'s \<Rightarrow> bool"
  assumes inv_init: "init s \<Longrightarrow> inv s"
    and inv_step: "inv s \<Longrightarrow> step s s' \<Longrightarrow> inv s'"
begin

lemma reach_inv: "reach init step s \<Longrightarrow> inv s"
  by (induction rule: reach.induct) (blast intro: inv_init inv_step)+

lemma steps_inv: "step\<^sup>*\<^sup>* s s' \<Longrightarrow> inv s \<Longrightarrow> inv s'"
  by (induction rule: rtranclp_induct) (blast intro: inv_step)+

end

end
