(* ===== verification/Varint.thy ===== *)
theory Varint
  imports Prelude
begin

text \<open>
  The variable-length integers of \<^verbatim>\<open>internal/mpquic/frame/varint.go\<close>: \<open>writeVarint\<close>,
  \<open>writeVarints\<close> and \<open>readVarint\<close>. A \<open>*bytes.Buffer\<close> is the byte string written so far, a
  \<open>*bytes.Reader\<close> the byte string still to be read. The locale \<open>varint_codec\<close> is the contract the
  frame codecs rely on; \<open>readVarint\<close> and \<open>writeVarint\<close> are shown to satisfy it here.
\<close>

section \<open>Definitions\<close>

datatype frame_error =
    EOF
  | UnexpectedEOF
  | VarintOverflow u64
  | UnsupportedVarintLength nat
  | MissingECNCounts
  | BadConnectionIDLength nat
  | UnknownFrameType u64
  | PanicMakeSlice

definition writeVarint :: "bytes \<Rightarrow> u64 \<Rightarrow> frame_error + bytes" where
  "writeVarint buf value =
     (if value \<le> 63 then Inr (buf @ [ucast value])
      else if value \<le> 16383 then Inr (buf @ put_be 2 (ucast value OR 0x4000 :: u16))
      else if value \<le> 1073741823 then Inr (buf @ put_be 4 (ucast value OR 0x80000000 :: u32))
      else if value \<le> 4611686018427387903 then Inr (buf @ put_be 8 (value OR 0xc000000000000000))
      else Inl (VarintOverflow value))"

text \<open>\<open>writeVarints\<close> discards the error of each \<open>writeVarint\<close>: a value that does not fit is skipped.\<close>

fun writeVarints :: "bytes \<Rightarrow> u64 list \<Rightarrow> bytes" where
  "writeVarints buf [] = buf"
| "writeVarints buf (value # values) =
     writeVarints (case writeVarint buf value of Inl _ \<Rightarrow> buf | Inr buf' \<Rightarrow> buf') values"

definition ReadByte :: "bytes \<Rightarrow> frame_error + (u8 \<times> bytes)" where
  "ReadByte r = (case r of [] \<Rightarrow> Inl EOF | b # r' \<Rightarrow> Inr (b, r'))"

text \<open>\<open>io.ReadFull\<close>: \<open>EOF\<close> only when nothing could be read, \<open>ErrUnexpectedEOF\<close> after a short read.\<close>

definition ReadFull :: "nat \<Rightarrow> bytes \<Rightarrow> frame_error + (bytes \<times> bytes)" where
  "ReadFull n r =
     (if n \<le> length r then Inr (take n r, drop n r)
      else if r = [] then Inl EOF else Inl UnexpectedEOF)"

definition readVarint :: "bytes \<Rightarrow> frame_error + (u64 \<times> bytes)" where
  "readVarint r =
     res_bind (ReadByte r) (\<lambda>(first, r1).
       let len = push_bit (unat (drop_bit 6 (first AND 0xc0))) (1::nat) in
       res_bind (ReadFull (len - 1) r1) (\<lambda>(tail, r2).
         let buf = first # tail in
         if len = 1 then Inr (ucast (first AND 0x3f), r2)
         else if len = 2 then Inr (ucast (get_be buf AND 0x3fff :: u16), r2)
         else if len = 4 then Inr (ucast (get_be buf AND 0x3fffffff :: u32), r2)
         else if len = 8 then Inr (get_be buf AND 0x3fffffffffffffff, r2)
         else Inl (UnsupportedVarintLength len)))"

abbreviation maxVarint :: u64 where
  "maxVarint \<equiv> 4611686018427387903"

section \<open>Length and prefix of an encoded value\<close>

lemma two_bit_prefix:
  fixes b :: u8
  shows "drop_bit 6 (b AND 0xc0) = drop_bit 6 b"
proof -
  have "(0xc0 :: u8) = push_bit 6 (mask 2)" by (simp add: mask_eq_exp_minus_1)
  then have "drop_bit 6 (b AND 0xc0) = drop_bit 6 (b AND push_bit 6 (mask 2))" by (simp only:)
  also have "\<dots> = drop_bit 6 b"
    by (rule bit_word_eqI) (auto simp: bit_simps dest: bit_imp_le_length)
  finally show ?thesis .
qed

lemma tag_prefix:
  fixes v t :: "'a::len word"
  assumes "LENGTH('a) = 8 * Suc k" and "v < 2 ^ (8 * k + 6)" and "t < 2 ^ 2"
  shows "drop_bit 6 (ucast (drop_bit (8 * k) (v OR push_bit (8 * k + 6) t)) :: u8) = ucast t"
proof (rule bit_word_eqI)
  fix n
  have "bit t n \<Longrightarrow> n < 2" using bit_less_exp [OF assms(3)] .
  moreover have "\<not> bit v (8 * k + (6 + n))" using bit_less_exp [OF assms(2), of "8 * k + (6 + n)"] by auto
  ultimately show "bit (drop_bit 6 (ucast (drop_bit (8 * k) (v OR push_bit (8 * k + 6) t)) :: u8)) n
      = bit (ucast t :: u8) n"
    using assms(1) by (auto simp: bit_simps)
qed

lemma tag_masked:
  fixes v t :: "'a::len word"
  assumes "v < 2 ^ m"
  shows "(v OR push_bit m t) AND mask m = v"
  using assms by (intro bit_word_eqI) (auto simp: bit_simps dest: bit_less_exp)

lemma varint_tags:
  "(0x4000 :: u16) = push_bit 14 1" "(0x80000000 :: u32) = push_bit 30 2"
  "(0xc000000000000000 :: u64) = push_bit 62 3"
  by simp_all

lemma varint_masks:
  "(0x3f :: u8) = mask 6" "(0x3fff :: u16) = mask 14" "(0x3fffffff :: u32) = mask 30"
  "(0x3fffffffffffffff :: u64) = mask 62"
  by (simp_all add: mask_eq_exp_minus_1)

lemma le_63: "(v :: u64) \<le> 63 \<longleftrightarrow> v < 2 ^ 6"
  and le_16383: "(v :: u64) \<le> 16383 \<longleftrightarrow> v < 2 ^ 14"
  and le_1073741823: "(v :: u64) \<le> 1073741823 \<longleftrightarrow> v < 2 ^ 30"
  and le_maxVarint: "(v :: u64) \<le> maxVarint \<longleftrightarrow> v < 2 ^ 62"
  by (simp_all add: word_le_nat_alt word_less_nat_alt less_Suc_eq_le flip: less_Suc_eq_le)

lemmas varint_bounds = le_63 le_16383 le_1073741823 le_maxVarint

lemma ucast_less_exp:
  fixes v :: u64
  assumes "v < 2 ^ m" and "m < LENGTH('b)" and "LENGTH('b) \<le> 64"
  shows "(ucast v :: 'b::len word) < 2 ^ m" and "ucast (ucast v :: 'b word) = v"
proof -
  have v: "unat v < 2 ^ m" using assms by (simp add: less_exp_unat)
  moreover have "(2::nat) ^ m < 2 ^ LENGTH('b)" using assms(2) by simp
  ultimately have u: "unat (ucast v :: 'b word) = unat v"
    by (intro unat_ucast_less) (rule less_trans)
  then show "(ucast v :: 'b::len word) < 2 ^ m" using v assms(2) by (simp add: less_exp_unat)
  have "unat (ucast (ucast v :: 'b word) :: u64) = unat v"
    using u unsigned_less [of v, where ?'a = nat] by (simp add: unat_ucast_less)
  then show "ucast (ucast v :: 'b word) = v" by (simp add: word_unat_eq_iff)
qed

section \<open>Round trip\<close>

text \<open>
  One lemma covers the four encodings: a first byte with tag \<open>t\<close>, followed by the rest of the
  big-endian string, is read back with the length the tag selects.
\<close>

lemma readVarint_tagged:
  assumes "drop_bit 6 b = (of_nat t :: u8)" and "t < 4" and "length bs = 2 ^ t - 1"
  shows "readVarint (b # bs @ rest) =
    Inr (if t = 0 then ucast (b AND 0x3f)
         else if t = 1 then ucast (get_be (b # bs) AND 0x3fff :: u16)
         else if t = 2 then ucast (get_be (b # bs) AND 0x3fffffff :: u32)
         else get_be (b # bs) AND 0x3fffffffffffffff, rest)"
proof -
  have u: "unat (of_nat t :: u8) = t" using assms(2) by (simp add: unat_of_nat)
  have "t = 0 \<or> t = 1 \<or> t = 2 \<or> t = 3" using assms(2) by auto
  then show ?thesis
    unfolding readVarint_def ReadByte_def ReadFull_def two_bit_prefix
    using assms(1,3) u by (elim disjE) (simp_all add: push_bit_eq_mult)
qed

lemma put_be_tagged:
  fixes v :: u64 and t :: nat
  assumes w: "w = (ucast v :: 'a::len word) OR push_bit (8 * k + 6) (of_nat t)"
    and len: "LENGTH('a) = 8 * Suc k" "8 * Suc k \<le> 64" and v: "v < 2 ^ (8 * k + 6)" and t: "t < 4"
  shows "\<exists>b bs. put_be (Suc k) w = b # bs \<and> drop_bit 6 b = (of_nat t :: u8) \<and> length bs = k
           \<and> ucast (get_be (b # bs) AND mask (8 * k + 6) :: 'a word) = v"
proof -
  have uv: "(ucast v :: 'a word) < 2 ^ (8 * k + 6)" "ucast (ucast v :: 'a word) = v"
    using ucast_less_exp [OF v, where 'b = 'a] len by simp_all
  have t': "unat (of_nat t :: 'a word) = t"
  proof -
    have "(4::nat) \<le> 2 ^ LENGTH('a)" using power_increasing [of 2 "LENGTH('a)" "2::nat"] len by simp
    then show ?thesis using t by (simp add: unat_of_nat)
  qed
  have "(of_nat t :: 'a word) < 2 ^ 2" using t t' len by (subst less_exp_unat) simp_all
  moreover have "ucast (of_nat t :: 'a word) = (of_nat t :: u8)"
    using t t' by (simp add: word_unat_eq_iff unat_ucast_less unat_of_nat)
  ultimately have "drop_bit 6 (ucast (drop_bit (8 * k) w) :: u8) = of_nat t"
    using tag_prefix [OF len(1) uv(1)] unfolding w by simp
  moreover have "get_be (put_be (Suc k) w) AND mask (8 * k + 6) = (ucast v :: 'a word)"
    using tag_masked [OF uv(1)] len by (subst get_put_be_full) (simp_all add: w)
  ultimately show ?thesis using uv(2) by simp
qed

theorem readVarint_writeVarint:
  assumes "writeVarint [] v = Inr bs"
  shows "readVarint (bs @ rest) = Inr (v, rest)"
proof -
  consider (one) "v < 2 ^ 6" | (two) "\<not> v < 2 ^ 6" "v < 2 ^ 14"
    | (four) "\<not> v < 2 ^ 6" "\<not> v < 2 ^ 14" "v < 2 ^ 30"
    | (eight) "\<not> v < 2 ^ 6" "\<not> v < 2 ^ 14" "\<not> v < 2 ^ 30" "v < 2 ^ 62"
    | (over) "\<not> v < 2 ^ 6" "\<not> v < 2 ^ 14" "\<not> v < 2 ^ 30" "\<not> v < 2 ^ 62"
    by blast
  then show ?thesis
  proof cases
    case one
    then have v: "(ucast v :: u8) < 2 ^ 6" "ucast (ucast v :: u8) = v" "bs = [ucast v]"
      using ucast_less_exp [OF one, where 'b = 8] assms unfolding writeVarint_def varint_bounds by simp_all
    moreover have "drop_bit 6 (ucast v :: u8) = of_nat 0"
    proof (rule bit_word_eqI)
      fix n
      show "bit (drop_bit 6 (ucast v :: u8)) n = bit (of_nat 0 :: u8) n"
        using bit_less_exp [OF v(1), of "6 + n"] by (auto simp: bit_simps)
    qed
    moreover have "(ucast v :: u8) AND mask 6 = ucast v"
      using less_mask_eq [OF v(1)] .
    ultimately show ?thesis
      using readVarint_tagged [of "ucast v" 0 "[]" rest] v unfolding varint_masks by simp
  next
    case two
    then have "put_be (Suc 1) (ucast v OR push_bit 14 1 :: u16) = bs"
      using assms unfolding writeVarint_def varint_bounds varint_tags by (simp add: eval_nat_numeral)
    moreover obtain b bs' where "put_be (Suc 1) (ucast v OR push_bit 14 1 :: u16) = b # bs'" "drop_bit 6 b = (of_nat 1 :: u8)"
      "length bs' = 1" "ucast (get_be (b # bs') AND mask (8 * 1 + 6) :: u16) = v"
      using put_be_tagged [of "ucast v OR push_bit 14 1 :: u16" v 1 1] two by auto
    ultimately show ?thesis
      using readVarint_tagged [of b 1 bs' rest] unfolding varint_masks by simp
  next
    case four
    then have "put_be (Suc 3) (ucast v OR push_bit 30 2 :: u32) = bs"
      using assms unfolding writeVarint_def varint_bounds varint_tags by (simp add: eval_nat_numeral)
    moreover obtain b bs' where "put_be (Suc 3) (ucast v OR push_bit 30 2 :: u32) = b # bs'" "drop_bit 6 b = (of_nat 2 :: u8)"
      "length bs' = 3" "ucast (get_be (b # bs') AND mask (8 * 3 + 6) :: u32) = v"
      using put_be_tagged [of "ucast v OR push_bit 30 2 :: u32" v 3 2] four by auto
    ultimately show ?thesis
      using readVarint_tagged [of b 2 bs' rest] unfolding varint_masks by simp
  next
    case eight
    then have "put_be (Suc 7) (v OR push_bit 62 3 :: u64) = bs"
      using assms unfolding writeVarint_def varint_bounds varint_tags by (simp add: eval_nat_numeral)
    moreover obtain b bs' where "put_be (Suc 7) (v OR push_bit 62 3 :: u64) = b # bs'" "drop_bit 6 b = (of_nat 3 :: u8)"
      "length bs' = 7" "ucast (get_be (b # bs') AND mask (8 * 7 + 6) :: u64) = v"
      using put_be_tagged [of "v OR push_bit 62 3 :: u64" v 7 3] eight by auto
    ultimately show ?thesis
      using readVarint_tagged [of b 3 bs' rest] unfolding varint_masks by simp
  next
    case over
    then show ?thesis using assms unfolding writeVarint_def varint_bounds by simp
  qed
qed

section \<open>The contract of a variable-length integer codec\<close>

text \<open>
  \<open>enc v\<close> is the encoding of \<open>v\<close>, if it has one; \<open>dec\<close> reads one value off the front of a byte
  string and returns what is left. The frame codecs only use these laws.
\<close>

locale varint_codec =
  fixes enc :: "u64 \<Rightarrow> bytes option"
    and dec :: "bytes \<Rightarrow> 'e + (u64 \<times> bytes)"
  assumes dec_enc: "enc v = Some bs \<Longrightarrow> dec (bs @ rest) = Inr (v, rest)"
    and enc_defined: "enc v \<noteq> None \<longleftrightarrow> v \<le> maxVarint"
    and dec_bound: "dec bs = Inr (v, rest) \<Longrightarrow> v \<le> maxVarint"
    and dec_suffix: "dec bs = Inr (v, rest) \<Longrightarrow> \<exists>pre. pre \<noteq> [] \<and> bs = pre @ rest"
begin

lemma enc_Some: "v \<le> maxVarint \<Longrightarrow> \<exists>bs. enc v = Some bs"
  using enc_defined by blast

lemma enc_nonempty: "enc v = Some bs \<Longrightarrow> bs \<noteq> []"
  using dec_enc [of v bs "[]"] dec_suffix [of "bs @ []" v "[]"] by auto

lemma enc_inj: "enc v = Some bs \<Longrightarrow> enc v' = Some bs \<Longrightarrow> v = v'"
  using dec_enc [of v bs "[]"] dec_enc [of v' bs "[]"] by simp

lemma enc_prefix_free:
  assumes "enc v = Some bs" and "enc v' = Some (bs @ cs)"
  shows "v = v' \<and> cs = []"
  using dec_enc [OF assms(1), of cs] dec_enc [OF assms(2), of "[]"] by simp

lemma dec_shorter: "dec bs = Inr (v, rest) \<Longrightarrow> length rest < length bs"
  using dec_suffix by fastforce

text \<open>A sequence of values, encoded one after the other, is read back by reading as many values.\<close>

primrec dec_list :: "nat \<Rightarrow> bytes \<Rightarrow> 'e + (u64 list \<times> bytes)" where
  "dec_list 0 bs = Inr ([], bs)"
| "dec_list (Suc n) bs = res_bind (dec bs) (\<lambda>(v, r). res_bind (dec_list n r) (\<lambda>(vs, r'). Inr (v # vs, r')))"

lemma dec_list_enc:
  "list_all (\<lambda>v. v \<le> maxVarint) vs \<Longrightarrow>
     dec_list (length vs) (concat (map (\<lambda>v. the (enc v)) vs) @ rest) = Inr (vs, rest)"
proof (induction vs)
  case Nil
  show ?case by simp
next
  case (Cons v vs)
  then obtain bs where "enc v = Some bs" using enc_Some [of v] by auto
  then show ?case using Cons by (simp add: dec_enc)
qed

end

lemma writeVarint_append:
  "writeVarint buf v = (case writeVarint [] v of Inl e \<Rightarrow> Inl e | Inr bs \<Rightarrow> Inr (buf @ bs))"
  by (simp add: writeVarint_def)

lemma writeVarint_defined: "(\<exists>bs. writeVarint [] v = Inr bs) \<longleftrightarrow> v \<le> maxVarint"
  by (auto simp: writeVarint_def word_le_nat_alt)

lemma ucast_masked_bound:
  assumes "m \<le> 62"
  shows "(ucast (w AND mask m :: 'a::len word) :: u64) \<le> maxVarint"
proof -
  have "(ucast (w AND mask m) :: u64) = ucast (w AND mask m) AND mask 62"
    using assms by (intro bit_word_eqI) (auto simp: bit_simps)
  also have "\<dots> < 2 ^ 62" by (rule and_mask_less') simp
  finally show ?thesis by (simp add: le_maxVarint)
qed

definition varint_enc :: "u64 \<Rightarrow> bytes option" where
  "varint_enc v = (case writeVarint [] v of Inl _ \<Rightarrow> None | Inr bs \<Rightarrow> Some bs)"

lemma ReadFull_suffix: "ReadFull n r = Inr (bs, r') \<Longrightarrow> r = bs @ r' \<and> length bs = n"
  by (auto simp: ReadFull_def split: if_splits)

lemma readVarint_suffix:
  "readVarint r = Inr (v, r') \<Longrightarrow> \<exists>pre. pre \<noteq> [] \<and> r = pre @ r'"
  by (auto simp: readVarint_def ReadByte_def Let_def split: list.splits if_splits dest!: ReadFull_suffix)

lemma varint_masked_bounds:
  "(ucast (a AND 0x3f :: u8) :: u64) \<le> maxVarint" "(ucast (b AND 0x3fff :: u16) :: u64) \<le> maxVarint"
  "(ucast (c AND 0x3fffffff :: u32) :: u64) \<le> maxVarint" "(d AND 0x3fffffffffffffff :: u64) \<le> maxVarint"
  using ucast_masked_bound [of 6 a] ucast_masked_bound [of 14 b] ucast_masked_bound [of 30 c]
  by (simp_all only: varint_masks(1-3) word_and_le1)

lemma readVarint_bound: "readVarint r = Inr (v, r') \<Longrightarrow> v \<le> maxVarint"
  unfolding readVarint_def
  by (auto simp: Let_def varint_masked_bounds split: if_splits)

interpretation fv: varint_codec varint_enc readVarint
proof
  show "readVarint (bs @ rest) = Inr (v, rest)" if "varint_enc v = Some bs" for v bs rest
    using that by (auto simp: varint_enc_def intro: readVarint_writeVarint split: sum.splits)
  show "varint_enc v \<noteq> None \<longleftrightarrow> v \<le> maxVarint" for v
    using writeVarint_defined [of v] by (auto simp: varint_enc_def split: sum.splits)
qed (blast dest: readVarint_bound readVarint_suffix)+

section \<open>Writing several values\<close>

lemma writeVarints_enc:
  "list_all (\<lambda>v. v \<le> maxVarint) vs \<Longrightarrow>
     writeVarints buf vs = buf @ concat (map (\<lambda>v. the (varint_enc v)) vs)"
proof (induction vs arbitrary: buf)
  case Nil
  show ?case by simp
next
  case (Cons v vs)
  then obtain bs where "writeVarint [] v = Inr bs" using writeVarint_defined [of v] by auto
  moreover from this have "writeVarint buf v = Inr (buf @ bs)" by (subst writeVarint_append) simp
  ultimately show ?case using Cons by (simp add: varint_enc_def)
qed

lemma writeVarints_skips_overflow:
  "\<not> v \<le> maxVarint \<Longrightarrow> writeVarints buf (v # vs) = writeVarints buf vs"
  using writeVarint_defined [of v] writeVarint_append [of buf v] by (auto split: sum.splits)

end
