(* ===== verification/Frames.thy ===== *)
theory Frames
  imports Varint
begin

text \<open>
  The multipath frames of \<^verbatim>\<open>internal/mpquic/frame\<close> (\<^verbatim>\<open>types.go\<close>, \<^verbatim>\<open>codec.go\<close>): the frame
  structs as records and one datatype, the type codes, \<open>Marshal\<close> and \<open>Unmarshal\<close> with all their
  error branches. \<open>[16]byte\<close> tokens and connection IDs are byte strings; \<open>wf_frame\<close> says which
  frames fit their wire format. The round trip is proved from the laws of \<open>varint_codec\<close>.
\<close>

section \<open>Frame types\<close>

definition PathACKNoECNType :: u64 where "PathACKNoECNType = 0x3e"
definition PathACKECNType :: u64 where "PathACKECNType = 0x3f"
definition PathAbandonType :: u64 where "PathAbandonType = 0x3e75"
definition PathStatusBackupType :: u64 where "PathStatusBackupType = 0x3e76"
definition PathStatusAvailableType :: u64 where "PathStatusAvailableType = 0x3e77"
definition PathNewConnectionIDType :: u64 where "PathNewConnectionIDType = 0x3e78"
definition PathRetireConnectionIDType :: u64 where "PathRetireConnectionIDType = 0x3e79"
definition MaxPathIDType :: u64 where "MaxPathIDType = 0x3e7a"
definition PathsBlockedType :: u64 where "PathsBlockedType = 0x3e7b"
definition PathCIDsBlockedType :: u64 where "PathCIDsBlockedType = 0x3e7c"

lemmas frame_type_defs =
  PathACKNoECNType_def PathACKECNType_def PathAbandonType_def PathStatusBackupType_def
  PathStatusAvailableType_def PathNewConnectionIDType_def PathRetireConnectionIDType_def
  MaxPathIDType_def PathsBlockedType_def PathCIDsBlockedType_def

record ack_range =
  Gap :: u64
  ACKRange :: u64

record ecn_counts =
  ECT0 :: u64
  ECT1 :: u64
  CE :: u64

record path_ack =
  UseECN :: bool
  ack_PathID :: u64
  LargestAcknowledged :: u64
  ACKDelay :: u64
  FirstACKRange :: u64
  ACKRanges :: "ack_range list"
  ECNCounts :: "ecn_counts option"

record path_new_cid =
  ncid_PathID :: u64
  ncid_SequenceNumber :: u64
  ncid_RetirePriorTo :: u64
  ncid_ConnectionID :: bytes
  ncid_StatelessResetToken :: bytes
  ncid_Retired :: bool

text \<open>
  The \<open>Frame\<close> interface. Constructor arguments are the struct's fields in source order; \<open>OtherFrame t\<close>
  is a foreign implementation of the interface with \<open>Type() = t\<close>, the \<open>default\<close> of the type switches.
\<close>

datatype frame =
    PathACKFrame path_ack
  | PathAbandonFrame u64 u64
  | PathStatusAvailableFrame u64 u64
  | PathStatusBackupFrame u64 u64
  | PathNewConnectionIDFrame path_new_cid
  | PathRetireConnectionIDFrame u64 u64
  | MaxPathIDFrame u64
  | PathsBlockedFrame u64
  | PathCIDsBlockedFrame u64 u64
  | OtherFrame u64

fun Type :: "frame \<Rightarrow> u64" where
  "Type (PathACKFrame f) = (if UseECN f then PathACKECNType else PathACKNoECNType)"
| "Type (PathAbandonFrame _ _) = PathAbandonType"
| "Type (PathStatusAvailableFrame _ _) = PathStatusAvailableType"
| "Type (PathStatusBackupFrame _ _) = PathStatusBackupType"
| "Type (PathNewConnectionIDFrame _) = PathNewConnectionIDType"
| "Type (PathRetireConnectionIDFrame _ _) = PathRetireConnectionIDType"
| "Type (MaxPathIDFrame _) = MaxPathIDType"
| "Type (PathsBlockedFrame _) = PathsBlockedType"
| "Type (PathCIDsBlockedFrame _ _) = PathCIDsBlockedType"
| "Type (OtherFrame t) = t"

definition frame_All :: "u64 list" where
  "frame_All = [PathACKNoECNType, PathACKECNType, PathAbandonType, PathStatusBackupType,
     PathStatusAvailableType, PathNewConnectionIDType, PathRetireConnectionIDType,
     MaxPathIDType, PathsBlockedType, PathCIDsBlockedType]"

text \<open>\<open>fmt.Sprintf("%x", n)\<close>: lower-case hexadecimal without leading zeros.\<close>

definition hex_digit :: "nat \<Rightarrow> char" where
  "hex_digit d = (if d < 10 then char_of (48 + d) else char_of (87 + d))"

fun hex_string :: "nat \<Rightarrow> string" where
  "hex_string n = (if n < 16 then [hex_digit n] else hex_string (n div 16) @ [hex_digit (n mod 16)])"

declare hex_string.simps [simp del]

definition Name :: "u64 \<Rightarrow> string" where
  "Name t =
     (if t = PathACKNoECNType \<or> t = PathACKECNType then ''PATH_ACK''
      else if t = PathAbandonType then ''PATH_ABANDON''
      else if t = PathStatusBackupType then ''PATH_STATUS_BACKUP''
      else if t = PathStatusAvailableType then ''PATH_STATUS_AVAILABLE''
      else if t = PathNewConnectionIDType then ''PATH_NEW_CONNECTION_ID''
      else if t = PathRetireConnectionIDType then ''PATH_RETIRE_CONNECTION_ID''
      else if t = MaxPathIDType then ''MAX_PATH_ID''
      else if t = PathsBlockedType then ''PATHS_BLOCKED''
      else if t = PathCIDsBlockedType then ''PATH_CIDS_BLOCKED''
      else ''UNKNOWN(0x'' @ hex_string (unat t) @ '')'')"

section \<open>Marshal\<close>

definition marshalPathACK :: "bytes \<Rightarrow> path_ack \<Rightarrow> frame_error + bytes" where
  "marshalPathACK buf f =
     (let buf1 = writeVarints buf [ack_PathID f, LargestAcknowledged f, ACKDelay f,
                                   of_nat (length (ACKRanges f)), FirstACKRange f];
          buf2 = foldl (\<lambda>b r. writeVarints b [Gap r, ACKRange r]) buf1 (ACKRanges f)
      in if UseECN f then
           (case ECNCounts f of
              None \<Rightarrow> Inl MissingECNCounts
            | Some c \<Rightarrow> Inr (writeVarints buf2 [ECT0 c, ECT1 c, CE c]))
         else Inr buf2)"

definition marshalPathNewConnectionID :: "bytes \<Rightarrow> path_new_cid \<Rightarrow> frame_error + bytes" where
  "marshalPathNewConnectionID buf f =
     (let n = length (ncid_ConnectionID f)
      in if n = 0 \<or> 20 < n then Inl (BadConnectionIDLength n)
         else Inr (writeVarints buf [ncid_PathID f, ncid_SequenceNumber f, ncid_RetirePriorTo f]
                     @ [of_nat n] @ ncid_ConnectionID f @ ncid_StatelessResetToken f))"

definition Marshal :: "frame \<Rightarrow> frame_error + bytes" where
  "Marshal f =
     res_bind (writeVarint [] (Type f)) (\<lambda>buf.
       case f of
         PathACKFrame a \<Rightarrow> marshalPathACK buf a
       | PathAbandonFrame pathID errorCode \<Rightarrow> Inr (writeVarints buf [pathID, errorCode])
       | PathStatusAvailableFrame pathID seq \<Rightarrow> Inr (writeVarints buf [pathID, seq])
       | PathStatusBackupFrame pathID seq \<Rightarrow> Inr (writeVarints buf [pathID, seq])
       | PathNewConnectionIDFrame c \<Rightarrow> marshalPathNewConnectionID buf c
       | PathRetireConnectionIDFrame pathID seq \<Rightarrow> Inr (writeVarints buf [pathID, seq])
       | MaxPathIDFrame m \<Rightarrow> Inr (writeVarints buf [m])
       | PathsBlockedFrame m \<Rightarrow> Inr (writeVarints buf [m])
       | PathCIDsBlockedFrame pathID nxt \<Rightarrow> Inr (writeVarints buf [pathID, nxt])
       | OtherFrame t \<Rightarrow> Inl (UnknownFrameType t))"

section \<open>Unmarshal\<close>

text \<open>
  \<open>bytes.Reader.Read\<close> into a buffer of \<open>n\<close> bytes: \<open>EOF\<close> at the end of the input, otherwise it copies
  what there is, and the rest of the buffer keeps the zeros it was made with.
\<close>

definition Read :: "nat \<Rightarrow> bytes \<Rightarrow> frame_error + (bytes \<times> bytes)" where
  "Read n r = (if r = [] then Inl EOF else Inr (take n r @ replicate (n - length r) 0, drop n r))"

text \<open>
  \<open>make([]ACKRange, 0, n)\<close> panics when \<open>n\<close> elements of 16 bytes exceed the address space the runtime
  manages (\<open>2 ^ 48\<close> bytes on the 64-bit Linux targets).
\<close>

definition makeACKRanges :: "u64 \<Rightarrow> frame_error + ack_range list" where
  "makeACKRanges n = (if 2 ^ 48 < unat n * 16 then Inl PanicMakeSlice else Inr [])"

primrec readACKRanges :: "nat \<Rightarrow> ack_range list \<Rightarrow> bytes \<Rightarrow> frame_error + (ack_range list \<times> bytes)" where
  "readACKRanges 0 acc r = Inr (acc, r)"
| "readACKRanges (Suc n) acc r =
     res_bind (readVarint r) (\<lambda>(gap, r1).
     res_bind (readVarint r1) (\<lambda>(rng, r2).
       readACKRanges n (acc @ [\<lparr>Gap = gap, ACKRange = rng\<rparr>]) r2))"

definition unmarshalPathACK :: "bytes \<Rightarrow> bool \<Rightarrow> frame_error + frame" where
  "unmarshalPathACK r useECN =
     res_bind (readVarint r) (\<lambda>(pathID, r).
     res_bind (readVarint r) (\<lambda>(largestAcked, r).
     res_bind (readVarint r) (\<lambda>(ackDelay, r).
     res_bind (readVarint r) (\<lambda>(ackRangeCount, r).
     res_bind (readVarint r) (\<lambda>(firstAckRange, r).
     res_bind (makeACKRanges ackRangeCount) (\<lambda>ackRanges0.
     res_bind (readACKRanges (unat ackRangeCount) ackRanges0 r) (\<lambda>(ackRanges, r).
       let f = \<lparr>UseECN = useECN, ack_PathID = pathID, LargestAcknowledged = largestAcked,
                ACKDelay = ackDelay, FirstACKRange = firstAckRange, ACKRanges = ackRanges,
                ECNCounts = None\<rparr>
       in if useECN then
            res_bind (readVarint r) (\<lambda>(ect0, r).
            res_bind (readVarint r) (\<lambda>(ect1, r).
            res_bind (readVarint r) (\<lambda>(ce, r).
              Inr (PathACKFrame (f\<lparr>ECNCounts := Some \<lparr>ECT0 = ect0, ECT1 = ect1, CE = ce\<rparr>\<rparr>)))))
          else Inr (PathACKFrame f))))))))"

definition unmarshalPathStatusAvailable :: "bytes \<Rightarrow> frame_error + frame" where
  "unmarshalPathStatusAvailable r =
     res_bind (readVarint r) (\<lambda>(pathID, r).
     res_bind (readVarint r) (\<lambda>(seq, r). Inr (PathStatusAvailableFrame pathID seq)))"

definition unmarshalPathStatusBackup :: "bytes \<Rightarrow> frame_error + frame" where
  "unmarshalPathStatusBackup r =
     res_bind (readVarint r) (\<lambda>(pathID, r).
     res_bind (readVarint r) (\<lambda>(seq, r). Inr (PathStatusBackupFrame pathID seq)))"

definition unmarshalPathNewConnectionID :: "bytes \<Rightarrow> frame_error + frame" where
  "unmarshalPathNewConnectionID r =
     res_bind (readVarint r) (\<lambda>(pathID, r).
     res_bind (readVarint r) (\<lambda>(seq, r).
     res_bind (readVarint r) (\<lambda>(retirePriorTo, r).
     res_bind (ReadByte r) (\<lambda>(cidLen, r).
       if cidLen = 0 \<or> 20 < cidLen then Inl (BadConnectionIDLength (unat cidLen))
       else
         res_bind (Read (unat cidLen) r) (\<lambda>(connectionID, r).
         res_bind (Read 16 r) (\<lambda>(token, r).
           Inr (PathNewConnectionIDFrame
             \<lparr>ncid_PathID = pathID, ncid_SequenceNumber = seq, ncid_RetirePriorTo = retirePriorTo,
              ncid_ConnectionID = connectionID, ncid_StatelessResetToken = token,
              ncid_Retired = False\<rparr>)))))))"

definition Unmarshal :: "bytes \<Rightarrow> frame_error + frame" where
  "Unmarshal data =
     res_bind (readVarint data) (\<lambda>(typeValue, r).
       if typeValue = PathACKNoECNType \<or> typeValue = PathACKECNType then
         unmarshalPathACK r (typeValue = PathACKECNType)
       else if typeValue = PathAbandonType then
         res_bind (readVarint r) (\<lambda>(pathID, r).
         res_bind (readVarint r) (\<lambda>(errorCode, r). Inr (PathAbandonFrame pathID errorCode)))
       else if typeValue = PathStatusAvailableType then unmarshalPathStatusAvailable r
       else if typeValue = PathStatusBackupType then unmarshalPathStatusBackup r
       else if typeValue = PathNewConnectionIDType then unmarshalPathNewConnectionID r
       else if typeValue = PathRetireConnectionIDType then
         res_bind (readVarint r) (\<lambda>(pathID, r).
         res_bind (readVarint r) (\<lambda>(seq, r). Inr (PathRetireConnectionIDFrame pathID seq)))
       else if typeValue = MaxPathIDType then
         res_bind (readVarint r) (\<lambda>(maxPathID, r). Inr (MaxPathIDFrame maxPathID))
       else if typeValue = PathsBlockedType then
         res_bind (readVarint r) (\<lambda>(maxPathID, r). Inr (PathsBlockedFrame maxPathID))
       else if typeValue = PathCIDsBlockedType then
         res_bind (readVarint r) (\<lambda>(pathID, r).
         res_bind (readVarint r) (\<lambda>(nxt, r). Inr (PathCIDsBlockedFrame pathID nxt)))
       else Inl (UnknownFrameType typeValue))"

section \<open>Frames that fit the wire format\<close>

abbreviation fits :: "u64 \<Rightarrow> bool" where
  "fits v \<equiv> v \<le> maxVarint"

definition wf_path_ack :: "path_ack \<Rightarrow> bool" where
  "wf_path_ack f \<longleftrightarrow>
     fits (ack_PathID f) \<and> fits (LargestAcknowledged f) \<and> fits (ACKDelay f) \<and> fits (FirstACKRange f) \<and>
     length (ACKRanges f) \<le> 2 ^ 44 \<and> list_all (\<lambda>r. fits (Gap r) \<and> fits (ACKRange r)) (ACKRanges f) \<and>
     (UseECN f \<longrightarrow> (case ECNCounts f of None \<Rightarrow> False | Some c \<Rightarrow> fits (ECT0 c) \<and> fits (ECT1 c) \<and> fits (CE c)))"

definition wf_path_new_cid :: "path_new_cid \<Rightarrow> bool" where
  "wf_path_new_cid f \<longleftrightarrow>
     fits (ncid_PathID f) \<and> fits (ncid_SequenceNumber f) \<and> fits (ncid_RetirePriorTo f) \<and>
     ncid_ConnectionID f \<noteq> [] \<and> length (ncid_ConnectionID f) \<le> 20 \<and> length (ncid_StatelessResetToken f) = 16"

fun wf_frame :: "frame \<Rightarrow> bool" where
  "wf_frame (PathACKFrame f) = wf_path_ack f"
| "wf_frame (PathNewConnectionIDFrame f) = wf_path_new_cid f"
| "wf_frame (PathAbandonFrame a b) = (fits a \<and> fits b)"
| "wf_frame (PathStatusAvailableFrame a b) = (fits a \<and> fits b)"
| "wf_frame (PathStatusBackupFrame a b) = (fits a \<and> fits b)"
| "wf_frame (PathRetireConnectionIDFrame a b) = (fits a \<and> fits b)"
| "wf_frame (PathCIDsBlockedFrame a b) = (fits a \<and> fits b)"
| "wf_frame (MaxPathIDFrame a) = fits a"
| "wf_frame (PathsBlockedFrame a) = fits a"
| "wf_frame (OtherFrame _) = False"

text \<open>
  What the wire keeps of a frame: ECN counts only travel when \<open>UseECN\<close> is set, and the local
  \<open>Retired\<close> mark of a connection ID does not travel at all.
\<close>

fun wire_frame :: "frame \<Rightarrow> frame" where
  "wire_frame (PathACKFrame f) = PathACKFrame (if UseECN f then f else f\<lparr>ECNCounts := None\<rparr>)"
| "wire_frame (PathNewConnectionIDFrame f) = PathNewConnectionIDFrame (f\<lparr>ncid_Retired := False\<rparr>)"
| "wire_frame f = f"

section \<open>Round trip\<close>

lemma readVarint_enc [codec_simps]:
  "fits v \<Longrightarrow> readVarint (the (varint_enc v) @ rest) = Inr (v, rest)"
  using fv.enc_Some [of v] fv.dec_enc by auto

lemma writeVarint_type: "fits v \<Longrightarrow> writeVarint [] v = Inr (the (varint_enc v))"
  using writeVarint_defined [of v] by (auto simp: varint_enc_def)

lemma Type_fits: "wf_frame f \<Longrightarrow> fits (Type f)"
  by (cases f) (simp_all add: frame_type_defs)

lemma marshal_ranges:
  "list_all (\<lambda>r. fits (Gap r) \<and> fits (ACKRange r)) rs \<Longrightarrow>
     foldl (\<lambda>b r. writeVarints b [Gap r, ACKRange r]) buf rs
       = buf @ concat (map (\<lambda>r. the (varint_enc (Gap r)) @ the (varint_enc (ACKRange r))) rs)"
  by (induction rs arbitrary: buf) (simp_all add: writeVarints_enc del: writeVarints.simps)

lemma readACKRanges_enc:
  "list_all (\<lambda>r. fits (Gap r) \<and> fits (ACKRange r)) rs \<Longrightarrow>
     readACKRanges (length rs) acc
       (concat (map (\<lambda>r. the (varint_enc (Gap r)) @ the (varint_enc (ACKRange r))) rs) @ rest)
     = Inr (acc @ rs, rest)"
  by (induction rs arbitrary: acc) (simp_all add: readVarint_enc)

lemma Read_exact: "length bs = n \<Longrightarrow> 0 < n \<Longrightarrow> Read n (bs @ rest) = Inr (bs, rest)"
  by (auto simp: Read_def)

lemma range_count:
  assumes "n \<le> 2 ^ 44"
  shows "unat (of_nat n :: u64) = n" and "fits (of_nat n)"
proof -
  show "unat (of_nat n :: u64) = n" using assms by (simp add: unat_of_nat)
  then show "fits (of_nat n)" using assms by (simp add: word_le_nat_alt)
qed

lemma PathACK_roundtrip:
  assumes "wf_path_ack f"
  shows "\<exists>bs. marshalPathACK buf f = Inr (buf @ bs) \<and>
           unmarshalPathACK (bs @ rest) (UseECN f) = Inr (wire_frame (PathACKFrame f))"
  using assms range_count [of "length (ACKRanges f)"]
  by (cases "ECNCounts f"; cases "UseECN f")
     (auto simp: wf_path_ack_def marshalPathACK_def unmarshalPathACK_def writeVarints_enc marshal_ranges
        makeACKRanges_def readVarint_enc readACKRanges_enc simp del: writeVarints.simps)

definition ncid_head :: "path_new_cid \<Rightarrow> bytes" where
  "ncid_head f = concat (map (\<lambda>v. the (varint_enc v)) [ncid_PathID f, ncid_SequenceNumber f, ncid_RetirePriorTo f])
     @ [of_nat (length (ncid_ConnectionID f))] @ ncid_ConnectionID f"

lemma marshal_ncid_head:
  "wf_path_new_cid f \<Longrightarrow>
     marshalPathNewConnectionID buf f = Inr (buf @ ncid_head f @ ncid_StatelessResetToken f)"
  by (simp add: wf_path_new_cid_def marshalPathNewConnectionID_def ncid_head_def writeVarints_enc
      del: writeVarints.simps)

lemma unmarshal_ncid_head:
  assumes "wf_path_new_cid f"
  shows "unmarshalPathNewConnectionID (ncid_head f @ t) =
           res_bind (Read 16 t) (\<lambda>(token, r). Inr (PathNewConnectionIDFrame
             (f\<lparr>ncid_StatelessResetToken := token, ncid_Retired := False\<rparr>)))"
proof -
  let ?n = "length (ncid_ConnectionID f)"
  have n: "unat (of_nat ?n :: u8) = ?n" using assms by (simp add: wf_path_new_cid_def unat_of_nat)
  then have "(of_nat ?n :: u8) \<noteq> 0" "\<not> 20 < (of_nat ?n :: u8)"
    using assms by (auto simp: wf_path_new_cid_def word_less_nat_alt)
  then show ?thesis
    using assms n by (cases f) (simp add: wf_path_new_cid_def unmarshalPathNewConnectionID_def ncid_head_def
        readVarint_enc ReadByte_def Read_exact)
qed

lemma PathNewConnectionID_roundtrip:
  assumes "wf_path_new_cid f"
  shows "\<exists>bs. marshalPathNewConnectionID buf f = Inr (buf @ bs) \<and>
           unmarshalPathNewConnectionID (bs @ rest) = Inr (wire_frame (PathNewConnectionIDFrame f))"
  using assms by (simp add: marshal_ncid_head unmarshal_ncid_head Read_exact wf_path_new_cid_def)

lemma Unmarshal_enc:
  "Unmarshal (the (varint_enc (Type (PathACKFrame a))) @ r) = unmarshalPathACK r (UseECN a)"
  "Unmarshal (the (varint_enc (Type (PathNewConnectionIDFrame c))) @ r) = unmarshalPathNewConnectionID r"
  by (simp_all add: Unmarshal_def readVarint_enc frame_type_defs)

lemma Unmarshal_Marshal_aux:
  assumes "wf_frame f"
  shows "\<exists>bs. Marshal f = Inr bs \<and> Unmarshal (bs @ rest) = Inr (wire_frame f)"
proof (cases f)
  case (PathACKFrame a)
  then show ?thesis
    using assms PathACK_roundtrip [of a "the (varint_enc (Type f))" rest] Type_fits [OF assms]
    by (auto simp: Marshal_def writeVarint_type Unmarshal_enc simp del: Type.simps)
next
  case (PathNewConnectionIDFrame c)
  then show ?thesis
    using assms PathNewConnectionID_roundtrip [of c "the (varint_enc (Type f))" rest] Type_fits [OF assms]
    by (auto simp: Marshal_def writeVarint_type Unmarshal_enc simp del: Type.simps)
qed (use assms Type_fits [OF assms] in \<open>auto simp: Marshal_def Unmarshal_def writeVarint_type
       readVarint_enc writeVarints_enc unmarshalPathStatusAvailable_def unmarshalPathStatusBackup_def
       frame_type_defs simp del: writeVarints.simps\<close>)

text \<open>
  C8: every frame that fits the wire format is marshalled, and unmarshalling its bytes (whatever
  follows them) gives back the frame, up to the two fields the wire does not carry.
\<close>

theorem Unmarshal_Marshal:
  "wf_frame f \<Longrightarrow> \<exists>bs. Marshal f = Inr bs \<and> Unmarshal (bs @ rest) = Inr (wire_frame f)"
  by (rule Unmarshal_Marshal_aux)

abbreviation sample_ack :: path_ack where
  "sample_ack \<equiv> \<lparr>UseECN = True, ack_PathID = 1, LargestAcknowledged = 70000, ACKDelay = 5, FirstACKRange = 2,
     ACKRanges = [\<lparr>Gap = 1, ACKRange = 300\<rparr>], ECNCounts = Some \<lparr>ECT0 = 1, ECT1 = 0, CE = 2\<rparr>\<rparr>"

theorem Unmarshal_Marshal_witness:
  "\<exists>bs. Marshal (PathACKFrame sample_ack) = Inr bs \<and> Unmarshal (bs @ [7]) = Inr (wire_frame (PathACKFrame sample_ack))"
  by (rule Unmarshal_Marshal) (simp add: wf_path_ack_def)

section \<open>What Unmarshal accepts\<close>

lemma readACKRanges_wf:
  "readACKRanges n acc r = Inr (rs, r') \<Longrightarrow> list_all (\<lambda>r. fits (Gap r) \<and> fits (ACKRange r)) acc \<Longrightarrow>
     length rs = length acc + n \<and> list_all (\<lambda>r. fits (Gap r) \<and> fits (ACKRange r)) rs"
proof (induction n arbitrary: acc r)
  case 0
  then show ?case by simp
next
  case (Suc n)
  then obtain gap r1 rng r2 where "readVarint r = Inr (gap, r1)" "readVarint r1 = Inr (rng, r2)"
    "readACKRanges n (acc @ [\<lparr>Gap = gap, ACKRange = rng\<rparr>]) r2 = Inr (rs, r')"
    by auto
  then show ?case using Suc.IH [of "acc @ [\<lparr>Gap = gap, ACKRange = rng\<rparr>]"] Suc.prems(2)
    by (fastforce dest: readVarint_bound)
qed

lemma Read_length: "Read n r = Inr (bs, r') \<Longrightarrow> length bs = n"
  by (auto simp: Read_def split: if_splits)

lemma unmarshalPathACK_wf:
  "unmarshalPathACK r e = Inr f \<Longrightarrow> wf_frame f \<and> wire_frame f = f"
  by (auto simp: unmarshalPathACK_def wf_path_ack_def makeACKRanges_def Let_def
      split: if_splits dest!: readACKRanges_wf intro: readVarint_bound)

lemma unmarshalPathNewConnectionID_wf:
  "unmarshalPathNewConnectionID r = Inr f \<Longrightarrow> wf_frame f \<and> wire_frame f = f"
  by (auto simp: unmarshalPathNewConnectionID_def wf_path_new_cid_def word_less_nat_alt unat_eq_0
      split: if_splits dest!: Read_length intro: readVarint_bound)

lemma Unmarshal_wf:
  assumes "Unmarshal bs = Inr f"
  shows "wf_frame f \<and> wire_frame f = f"
  using assms unfolding Unmarshal_def
  by (auto simp: unmarshalPathStatusAvailable_def unmarshalPathStatusBackup_def
      split: if_splits intro: readVarint_bound dest: unmarshalPathACK_wf unmarshalPathNewConnectionID_wf)

text \<open>
  C9: whatever byte string \<open>Unmarshal\<close> accepts, the frame it returns is well formed, and marshalling
  that frame gives a byte string that is unmarshalled to the same frame (so decoding followed by
  re-encoding loses nothing, even for inputs with non-minimal integers or trailing bytes).
\<close>

theorem Unmarshal_canonical:
  assumes "Unmarshal bs = Inr f"
  shows "wf_frame f \<and> (\<exists>bs'. Marshal f = Inr bs' \<and> Unmarshal bs' = Inr f)"
  using Unmarshal_wf [OF assms] Unmarshal_Marshal_aux [of f "[]"] by auto

theorem Unmarshal_canonical_witness:
  "wf_frame (MaxPathIDFrame 5) \<and> (\<exists>bs'. Marshal (MaxPathIDFrame 5) = Inr bs' \<and> Unmarshal bs' = Inr (MaxPathIDFrame 5))"
  by (rule Unmarshal_canonical [of "[0x7e, 0x7a, 0x40, 5, 9]"]) code_simp

section \<open>Errors\<close>

text \<open>
  \<open>Marshal\<close> fails in exactly three situations: a PATH_ACK that asks for ECN without counts, a
  connection ID whose length is not between 1 and 20, and a foreign frame implementation. In
  particular a field that does not fit a variable-length integer is not reported.
\<close>

theorem Marshal_error_iff:
  "(\<exists>e. Marshal f = Inl e) \<longleftrightarrow>
     (case f of
        PathACKFrame a \<Rightarrow> UseECN a \<and> ECNCounts a = None
      | PathNewConnectionIDFrame c \<Rightarrow> ncid_ConnectionID c = [] \<or> 20 < length (ncid_ConnectionID c)
      | OtherFrame _ \<Rightarrow> True
      | _ \<Rightarrow> False)"
proof -
  have t: "writeVarint [] t = Inr (the (varint_enc t))" if "t \<in> set frame_All" for t
    using that by (intro writeVarint_type) (auto simp: frame_All_def frame_type_defs)
  have "writeVarint [] t = Inl e \<or> writeVarint [] t = Inr bs \<Longrightarrow>
          \<exists>e. Marshal (OtherFrame t) = Inl e" for t e bs
    by (auto simp: Marshal_def)
  then have "\<exists>e. Marshal (OtherFrame t) = Inl e" for t
    by (cases "writeVarint [] t") auto
  moreover have "Type f \<in> set frame_All" if "\<nexists>t. f = OtherFrame t"
    using that by (cases f) (auto simp: frame_All_def)
  ultimately show ?thesis
    by (cases f) (auto simp: Marshal_def marshalPathACK_def marshalPathNewConnectionID_def t Let_def
        simp del: Type.simps split: option.splits)
qed

text \<open>
  The connection ID and the reset token are read with \<open>Read\<close>, which does not report short
  input. So a PATH_NEW_CONNECTION_ID frame cut off anywhere inside the token (but for its first
  byte) is accepted, with the missing bytes of the token replaced by zeros.
\<close>

theorem Unmarshal_accepts_truncated_token:
  assumes "wf_path_new_cid c" and "0 < k" and "k \<le> 16"
  shows "\<exists>pre. Marshal (PathNewConnectionIDFrame c) = Inr (pre @ ncid_StatelessResetToken c) \<and>
           Unmarshal (pre @ take k (ncid_StatelessResetToken c)) =
             Inr (PathNewConnectionIDFrame
               (c\<lparr>ncid_StatelessResetToken := take k (ncid_StatelessResetToken c) @ replicate (16 - k) 0,
                  ncid_Retired := False\<rparr>))"
proof (intro exI conjI)
  let ?pre = "the (varint_enc (Type (PathNewConnectionIDFrame c))) @ ncid_head c"
  have len: "length (ncid_StatelessResetToken c) = 16" using assms(1) by (simp add: wf_path_new_cid_def)
  show "Marshal (PathNewConnectionIDFrame c) = Inr (?pre @ ncid_StatelessResetToken c)"
    using assms(1) by (simp add: Marshal_def writeVarint_type Type_fits marshal_ncid_head del: Type.simps)
  have "Read 16 (take k (ncid_StatelessResetToken c)) =
      Inr (take k (ncid_StatelessResetToken c) @ replicate (16 - k) 0, [])"
    using assms(2,3) len by (auto simp: Read_def)
  then show "Unmarshal (?pre @ take k (ncid_StatelessResetToken c)) =
      Inr (PathNewConnectionIDFrame
        (c\<lparr>ncid_StatelessResetToken := take k (ncid_StatelessResetToken c) @ replicate (16 - k) 0,
           ncid_Retired := False\<rparr>))"
    using assms(1) by (simp add: Unmarshal_enc unmarshal_ncid_head del: Type.simps)
qed

abbreviation sample_ncid :: path_new_cid where
  "sample_ncid \<equiv> \<lparr>ncid_PathID = 1, ncid_SequenceNumber = 2, ncid_RetirePriorTo = 0, ncid_ConnectionID = [1, 2, 3, 4],
     ncid_StatelessResetToken = replicate 16 9, ncid_Retired = False\<rparr>"

theorem Unmarshal_accepts_truncated_token_witness:
  "\<exists>pre. Marshal (PathNewConnectionIDFrame sample_ncid) = Inr (pre @ ncid_StatelessResetToken sample_ncid) \<and>
     Unmarshal (pre @ take 1 (ncid_StatelessResetToken sample_ncid)) =
       Inr (PathNewConnectionIDFrame
         (sample_ncid\<lparr>ncid_StatelessResetToken := take 1 (ncid_StatelessResetToken sample_ncid) @ replicate (16 - 1) 0,
            ncid_Retired := False\<rparr>))"
  by (rule Unmarshal_accepts_truncated_token) (simp_all add: wf_path_new_cid_def)

text \<open>
  A PATH_ACK frame of a few bytes can make the decoder panic: the range count read from the
  wire is passed to \<open>make\<close> before a single range has been read, so any count above \<open>2 ^ 44\<close> exceeds
  what the runtime can allocate, whatever follows.
\<close>

theorem Unmarshal_ack_count_panics:
  assumes "fits path" and "fits largest" and "fits delay" and "fits first"
    and "fits cnt" and "2 ^ 44 < cnt"
  shows "Unmarshal (writeVarints [] [PathACKNoECNType, path, largest, delay, cnt, first] @ rest)
           = Inl PanicMakeSlice"
proof -
  have "2 ^ 48 < unat cnt * 16" using assms(6) by (simp add: word_less_nat_alt)
  then show ?thesis
    using assms(1-5)
    by (simp add: writeVarints_enc Unmarshal_def unmarshalPathACK_def makeACKRanges_def readVarint_enc
        frame_type_defs del: writeVarints.simps)
qed

theorem Unmarshal_ack_count_panics_witness:
  "Unmarshal (writeVarints [] [PathACKNoECNType, 0, 1, 0, 2 ^ 50, 0] @ []) = Inl PanicMakeSlice"
  by (rule Unmarshal_ack_count_panics) simp_all

text \<open>
  \<open>writeVarints\<close> drops a value that does not fit. A frame whose first field is too large is
  marshalled without an error to the bytes of a shorter frame, and these bytes are not a frame.
\<close>

theorem Marshal_overflow_loses_field:
  assumes "\<not> fits pathID" and "fits errorCode"
  shows "\<exists>bs. Marshal (PathAbandonFrame pathID errorCode) = Inr bs \<and> Unmarshal bs = Inl EOF"
proof -
  have "readVarint [] = Inl EOF" by (simp add: readVarint_def ReadByte_def)
  then have "Unmarshal (the (varint_enc PathAbandonType) @ the (varint_enc errorCode)) = Inl EOF"
    using assms(2) readVarint_enc [of errorCode "[]"]
    by (simp add: Unmarshal_def readVarint_enc frame_type_defs)
  moreover have "Marshal (PathAbandonFrame pathID errorCode) =
      Inr (the (varint_enc PathAbandonType) @ the (varint_enc errorCode))"
    using assms by (simp add: Marshal_def writeVarint_type frame_type_defs writeVarints_skips_overflow
        writeVarints_enc del: writeVarints.simps)
  ultimately show ?thesis by blast
qed

theorem Marshal_overflow_loses_field_witness:
  "\<exists>bs. Marshal (PathAbandonFrame (2 ^ 62) 3) = Inr bs \<and> Unmarshal bs = Inl EOF"
  by (rule Marshal_overflow_loses_field) simp_all

end
