(* ===== verification/Path_Manager.thy ===== *)
theory Path_Manager
  imports Prelude
begin

text \<open>
  \<^verbatim>\<open>internal/mpquic/path\<close>: the state of a path (\<^verbatim>\<open>path.go\<close>) and the path manager (\<^verbatim>\<open>manager.go\<close>)
  with all its operations. Every operation runs under the manager's lock, so each is one atomic
  function on the manager; \<open>now\<close> is the result of the \<open>time.Now()\<close> call it makes. Operations return
  the new manager and the Go results.
\<close>

section \<open>Path state\<close>

type_synonym path_id = u32

text \<open>\<open>Status\<close> is a Go string; \<open>OtherStatus s\<close> is any string but the four constants, such as the empty one.\<close>

datatype status = StatusAvailable | StatusActive | StatusBackup | StatusAbandoned | OtherStatus string

record packet_number_space =
  NextSendPacketNumber :: u64
  LargestRecvPacketNum :: u64

record path_state =
  ID :: path_id
  RemoteAddr :: string
  Validated :: bool
  Status :: status
  RSSI :: int
  HasRSSI :: bool
  RTT :: int
  LossRate :: real
  Bandwidth :: real
  HasMetrics :: bool
  LocalStatusSeq :: u64
  PeerStatusSeq :: u64
  PacketNumberSpace :: packet_number_space
  CreatedAt :: int
  UpdatedAt :: int

definition zero_state :: path_state where
  "zero_state = \<lparr>ID = 0, RemoteAddr = [], Validated = False, Status = OtherStatus [], RSSI = 0,
     HasRSSI = False, RTT = 0, LossRate = 0, Bandwidth = 0, HasMetrics = False, LocalStatusSeq = 0,
     PeerStatusSeq = 0,
     PacketNumberSpace = \<lparr>NextSendPacketNumber = 0, LargestRecvPacketNum = 0\<rparr>,
     CreatedAt = 0, UpdatedAt = 0\<rparr>"

datatype path_error =
    PathIDExceedsMax path_id u32
  | PathAlreadyRegistered path_id
  | PathNotRegistered path_id

record manager =
  maxPathID :: u32
  paths :: "(path_id, path_state) gomap"

section \<open>Operations\<close>

definition NewManager :: "u32 \<Rightarrow> manager" where
  "NewManager m = \<lparr>maxPathID = m, paths = []\<rparr>"

definition ensureInitialPathLocked :: "int \<Rightarrow> string \<Rightarrow> manager \<Rightarrow> manager \<times> path_state" where
  "ensureInitialPathLocked now remoteAddr m =
     (case map_of (paths m) 0 of
        Some state \<Rightarrow> (m, state)
      | None \<Rightarrow>
          let state = zero_state\<lparr>ID := 0, RemoteAddr := remoteAddr, Validated := True,
                Status := StatusActive, CreatedAt := now, UpdatedAt := now\<rparr>
          in (m\<lparr>paths := AList.update 0 state (paths m)\<rparr>, state))"

definition EnsureInitialPath :: "int \<Rightarrow> string \<Rightarrow> manager \<Rightarrow> manager \<times> path_state" where
  "EnsureInitialPath now remoteAddr m = ensureInitialPathLocked now remoteAddr m"

definition RegisterPath :: "int \<Rightarrow> path_id \<Rightarrow> string \<Rightarrow> manager \<Rightarrow> manager \<times> (path_error + path_state)" where
  "RegisterPath now pid remoteAddr m =
     (if pid = 0 then
        (let (m', state) = ensureInitialPathLocked now remoteAddr m in (m', Inr state))
      else if maxPathID m < pid then (m, Inl (PathIDExceedsMax pid (maxPathID m)))
      else if map_of (paths m) pid \<noteq> None then (m, Inl (PathAlreadyRegistered pid))
      else
        let state = zero_state\<lparr>ID := pid, RemoteAddr := remoteAddr, Status := StatusAvailable,
              CreatedAt := now, UpdatedAt := now\<rparr>
        in (m\<lparr>paths := AList.update pid state (paths m)\<rparr>, Inr state))"

definition UpdateStatus :: "int \<Rightarrow> path_id \<Rightarrow> status \<Rightarrow> bool \<Rightarrow> manager \<Rightarrow> manager \<times> (path_error + path_state)" where
  "UpdateStatus now pid st validated m =
     (case map_of (paths m) pid of
        None \<Rightarrow> (m, Inl (PathNotRegistered pid))
      | Some state \<Rightarrow>
          let state' = state\<lparr>Status := st, Validated := validated, UpdatedAt := now\<rparr>
          in (m\<lparr>paths := AList.update pid state' (paths m)\<rparr>, Inr state'))"

definition UpdateRSSI :: "int \<Rightarrow> path_id \<Rightarrow> int \<Rightarrow> manager \<Rightarrow> manager \<times> (path_error + path_state)" where
  "UpdateRSSI now pid rssi m =
     (case map_of (paths m) pid of
        None \<Rightarrow> (m, Inl (PathNotRegistered pid))
      | Some state \<Rightarrow>
          let state' = state\<lparr>RSSI := rssi, HasRSSI := True, UpdatedAt := now\<rparr>
          in (m\<lparr>paths := AList.update pid state' (paths m)\<rparr>, Inr state'))"

definition UpdateMaxPathID :: "u32 \<Rightarrow> manager \<Rightarrow> manager" where
  "UpdateMaxPathID mx m = (if maxPathID m < mx then m\<lparr>maxPathID := mx\<rparr> else m)"

definition MaxPathID :: "manager \<Rightarrow> u32" where
  "MaxPathID m = maxPathID m"

definition Get :: "path_id \<Rightarrow> manager \<Rightarrow> path_state option" where
  "Get pid m = map_of (paths m) pid"

text \<open>
  The search loop of \<open>NextUnusedPathID\<close>. \<open>candidate++\<close> wraps around, so with
  \<open>maxPathID = 2 ^ 32 - 1\<close> the loop condition never fails: not returning is \<open>None\<close>.
\<close>

partial_function (option) nextUnusedFrom :: "(path_id, path_state) gomap \<Rightarrow> u32 \<Rightarrow> path_id \<Rightarrow> path_id option option" where
  "nextUnusedFrom ps mx candidate =
     (if candidate \<le> mx then
        (if map_of ps candidate = None then Some (Some candidate) else nextUnusedFrom ps mx (candidate + 1))
      else Some None)"

definition NextUnusedPathID :: "manager \<Rightarrow> path_id option option" where
  "NextUnusedPathID m = nextUnusedFrom (paths m) (maxPathID m) 1"

definition SetLocalStatus :: "int \<Rightarrow> path_id \<Rightarrow> status \<Rightarrow> manager \<Rightarrow> manager \<times> (path_error + path_state)" where
  "SetLocalStatus now pid st m =
     (case map_of (paths m) pid of
        None \<Rightarrow> (m, Inl (PathNotRegistered pid))
      | Some state \<Rightarrow>
          let state' = state\<lparr>LocalStatusSeq := LocalStatusSeq state + 1, Status := st, UpdatedAt := now\<rparr>
          in (m\<lparr>paths := AList.update pid state' (paths m)\<rparr>, Inr state'))"

definition ApplyPeerStatus :: "int \<Rightarrow> path_id \<Rightarrow> status \<Rightarrow> u64 \<Rightarrow> manager \<Rightarrow> manager \<times> (path_error + path_state \<times> bool)" where
  "ApplyPeerStatus now pid st sequence m =
     (case map_of (paths m) pid of
        None \<Rightarrow> (m, Inl (PathNotRegistered pid))
      | Some state \<Rightarrow>
          if sequence \<le> PeerStatusSeq state then (m, Inr (state, False))
          else
            let state' = state\<lparr>PeerStatusSeq := sequence, Status := st, UpdatedAt := now\<rparr>
            in (m\<lparr>paths := AList.update pid state' (paths m)\<rparr>, Inr (state', True)))"

definition Abandon :: "int \<Rightarrow> path_id \<Rightarrow> manager \<Rightarrow> manager \<times> path_error option" where
  "Abandon now pid m =
     (let (m', res) = UpdateStatus now pid StatusAbandoned False m
      in (m', case res of Inl e \<Rightarrow> Some e | Inr _ \<Rightarrow> None))"

definition Snapshot :: "manager \<Rightarrow> path_state list" where
  "Snapshot m = sort_key ID (map snd (paths m))"

section \<open>The invariant\<close>

text \<open>
  The map has one entry per path ID, stored under its own ID, and no ID beyond the limit (the
  initial path 0 is always allowed).
\<close>

definition wf_manager :: "manager \<Rightarrow> bool" where
  "wf_manager m \<longleftrightarrow> wf_map (paths m) \<and> (\<forall>k s. map_of (paths m) k = Some s \<longrightarrow> ID s = k \<and> k \<le> maxPathID m)"

lemma wf_managerI:
  assumes "wf_map (paths m)" and "\<And>k s. map_of (paths m) k = Some s \<Longrightarrow> ID s = k \<and> k \<le> maxPathID m"
  shows "wf_manager m"
  using assms by (simp add: wf_manager_def)

lemma wf_managerD:
  "wf_manager m \<Longrightarrow> map_of (paths m) k = Some s \<Longrightarrow> ID s = k"
  "wf_manager m \<Longrightarrow> map_of (paths m) k = Some s \<Longrightarrow> k \<le> maxPathID m"
  by (simp_all add: wf_manager_def)

lemma wf_manager_update [wf_intros]:
  "wf_manager m \<Longrightarrow> ID s = k \<Longrightarrow> k \<le> maxPathID m \<Longrightarrow> wf_manager (m\<lparr>paths := AList.update k s (paths m)\<rparr>)"
  by (auto simp: wf_manager_def)

lemma wf_NewManager [wf_intros]: "wf_manager (NewManager mx)"
  by (simp add: wf_manager_def NewManager_def)

lemma wf_EnsureInitialPath [wf_intros]: "wf_manager m \<Longrightarrow> wf_manager (fst (EnsureInitialPath now a m))"
  by (auto simp: EnsureInitialPath_def ensureInitialPathLocked_def Let_def split: option.splits
      intro!: wf_manager_update)

lemma wf_RegisterPath [wf_intros]: "wf_manager m \<Longrightarrow> wf_manager (fst (RegisterPath now pid a m))"
  using wf_EnsureInitialPath [of m now a]
  by (auto simp: RegisterPath_def EnsureInitialPath_def Let_def zero_state_def split: prod.splits
      intro!: wf_manager_update)

lemma wf_UpdateStatus [wf_intros]: "wf_manager m \<Longrightarrow> wf_manager (fst (UpdateStatus now pid st v m))"
  by (auto simp: UpdateStatus_def Let_def split: option.splits intro!: wf_manager_update dest: wf_managerD)

lemma wf_UpdateRSSI [wf_intros]: "wf_manager m \<Longrightarrow> wf_manager (fst (UpdateRSSI now pid rssi m))"
  by (auto simp: UpdateRSSI_def Let_def split: option.splits intro!: wf_manager_update dest: wf_managerD)

lemma wf_UpdateMaxPathID [wf_intros]: "wf_manager m \<Longrightarrow> wf_manager (UpdateMaxPathID mx m)"
  unfolding UpdateMaxPathID_def wf_manager_def by (auto simp del: map_of_eq_Some_iff) (meson less_imp_le order.trans)

lemma wf_SetLocalStatus [wf_intros]: "wf_manager m \<Longrightarrow> wf_manager (fst (SetLocalStatus now pid st m))"
  by (auto simp: SetLocalStatus_def Let_def split: option.splits intro!: wf_manager_update dest: wf_managerD)

lemma wf_ApplyPeerStatus [wf_intros]: "wf_manager m \<Longrightarrow> wf_manager (fst (ApplyPeerStatus now pid st seq m))"
  by (auto simp: ApplyPeerStatus_def Let_def split: option.splits intro!: wf_manager_update dest: wf_managerD)

lemma wf_Abandon [wf_intros]: "wf_manager m \<Longrightarrow> wf_manager (fst (Abandon now pid m))"
  using wf_UpdateStatus [of m now pid StatusAbandoned False] by (auto simp: Abandon_def split: prod.splits)

section \<open>Lookups after each operation\<close>

lemma paths_EnsureInitialPath:
  "map_of (paths (fst (EnsureInitialPath now a m))) k =
     (if k = 0 then Some (snd (EnsureInitialPath now a m)) else map_of (paths m) k)"
  by (auto simp: EnsureInitialPath_def ensureInitialPathLocked_def Let_def split: option.splits)

lemma paths_other:
  "k \<noteq> pid \<Longrightarrow> map_of (paths (fst (RegisterPath now pid a m))) k = map_of (paths m) k"
  "k \<noteq> pid \<Longrightarrow> map_of (paths (fst (UpdateStatus now pid st v m))) k = map_of (paths m) k"
  "k \<noteq> pid \<Longrightarrow> map_of (paths (fst (UpdateRSSI now pid rssi m))) k = map_of (paths m) k"
  "k \<noteq> pid \<Longrightarrow> map_of (paths (fst (SetLocalStatus now pid st m))) k = map_of (paths m) k"
  "k \<noteq> pid \<Longrightarrow> map_of (paths (fst (ApplyPeerStatus now pid st seq m))) k = map_of (paths m) k"
  "k \<noteq> pid \<Longrightarrow> map_of (paths (fst (Abandon now pid m))) k = map_of (paths m) k"
  by (auto simp: RegisterPath_def ensureInitialPathLocked_def UpdateStatus_def UpdateRSSI_def
      SetLocalStatus_def ApplyPeerStatus_def Abandon_def Let_def split: option.splits)

lemma RegisterPath_fresh:
  assumes "pid \<noteq> 0" and "pid \<le> maxPathID m" and "map_of (paths m) pid = None"
  shows "RegisterPath now pid a m =
    (m\<lparr>paths := AList.update pid (zero_state\<lparr>ID := pid, RemoteAddr := a, Status := StatusAvailable,
        CreatedAt := now, UpdatedAt := now\<rparr>) (paths m)\<rparr>,
     Inr (zero_state\<lparr>ID := pid, RemoteAddr := a, Status := StatusAvailable, CreatedAt := now, UpdatedAt := now\<rparr>))"
  using assms by (simp add: RegisterPath_def Let_def)

section \<open>Finding an unused path ID\<close>

lemma nextUnusedFrom_least:
  "c \<le> k \<Longrightarrow> k \<le> mx \<Longrightarrow> map_of ps k = None \<Longrightarrow> (\<forall>j. c \<le> j \<and> j < k \<longrightarrow> map_of ps j \<noteq> None) \<Longrightarrow>
     nextUnusedFrom ps mx c = Some (Some k)"
proof (induction "unat k - unat c" arbitrary: c)
  case 0
  then have "c = k" by (simp add: word_le_nat_alt word_unat_eq_iff)
  then show ?case using 0 by (simp add: nextUnusedFrom.simps)
next
  case (Suc n)
  then have "c < k" by (simp add: word_less_nat_alt)
  then have nxt: "unat (c + 1) = unat c + 1" by (rule unat_inc)
  have "nextUnusedFrom ps mx (c + 1) = Some (Some k)"
  proof (rule Suc.hyps(1))
    show "n = unat k - unat (c + 1)" using Suc.hyps(2) nxt by simp
    show "c + 1 \<le> k" using \<open>c < k\<close> nxt by (simp add: word_le_nat_alt word_less_nat_alt)
    show "\<forall>j. c + 1 \<le> j \<and> j < k \<longrightarrow> map_of ps j \<noteq> None"
      using Suc.prems(4) nxt by (auto simp: word_le_nat_alt)
  qed (use Suc.prems in auto)
  moreover have "map_of ps c \<noteq> None" "c \<le> mx"
    using Suc.prems \<open>c < k\<close> by auto
  ultimately show ?case by (auto simp: nextUnusedFrom.simps [of ps mx c])
qed

lemma nextUnusedFrom_none:
  "mx \<noteq> - 1 \<Longrightarrow> unat c \<le> unat mx + 1 \<Longrightarrow> (\<forall>j. c \<le> j \<and> j \<le> mx \<longrightarrow> map_of ps j \<noteq> None) \<Longrightarrow>
     nextUnusedFrom ps mx c = Some None"
proof (induction "unat mx + 1 - unat c" arbitrary: c)
  case 0
  then show ?case by (simp add: nextUnusedFrom.simps word_le_nat_alt)
next
  case (Suc n)
  then have "c \<le> mx" by (simp add: word_le_nat_alt)
  then have nxt: "unat (c + 1) = unat c + 1"
    using Suc.prems(1) by (intro unat_inc [of c "- 1"]) (metis max_word_max order.antisym order.not_eq_order_implies_strict)
  have "nextUnusedFrom ps mx (c + 1) = Some None"
  proof (rule Suc.hyps(1))
    show "n = unat mx + 1 - unat (c + 1)" using Suc.hyps(2) nxt by simp
    show "unat (c + 1) \<le> unat mx + 1" using \<open>c \<le> mx\<close> nxt by (simp add: word_le_nat_alt)
    show "\<forall>j. c + 1 \<le> j \<and> j \<le> mx \<longrightarrow> map_of ps j \<noteq> None"
      using Suc.prems(3) nxt by (auto simp: word_le_nat_alt)
  qed (use Suc.prems in auto)
  then show ?case using \<open>c \<le> mx\<close> Suc.prems(3) by (simp add: nextUnusedFrom.simps [of ps mx c])
qed

lemma nextUnusedFrom_Some:
  assumes "c \<le> k" and "k \<le> mx" and "map_of ps k = None"
  shows "\<exists>k0. nextUnusedFrom ps mx c = Some (Some k0) \<and> c \<le> k0 \<and> k0 \<le> mx \<and> map_of ps k0 = None \<and>
           (\<forall>j. c \<le> j \<and> j < k0 \<longrightarrow> map_of ps j \<noteq> None)"
proof -
  let ?P = "\<lambda>n. \<exists>j. unat j = n \<and> c \<le> j \<and> map_of ps j = None"
  have P: "?P (unat k)" using assms by auto
  obtain k0 where k0: "unat k0 = Least ?P" "c \<le> k0" "map_of ps k0 = None"
    using LeastI [of ?P, OF P] by auto
  have "k0 \<le> k" using Least_le [of ?P, OF P] k0(1) by (simp add: word_le_nat_alt)
  moreover have "\<forall>j. c \<le> j \<and> j < k0 \<longrightarrow> map_of ps j \<noteq> None"
    using not_less_Least [of _ ?P] k0(1) by (auto simp: word_less_nat_alt)
  moreover from \<open>k0 \<le> k\<close> assms(2) have "k0 \<le> mx" by (rule order.trans)
  ultimately show ?thesis
    using nextUnusedFrom_least [of c k0 mx ps] k0(2,3) by (intro exI [of _ k0]) simp
qed

lemma unused_exists:
  fixes ps :: "(path_id, path_state) gomap"
  assumes "length ps < 2 ^ 32 - 1"
  shows "\<exists>k. 1 \<le> k \<and> map_of ps k = None"
proof (rule ccontr)
  assume "\<not> ?thesis"
  then have "UNIV - {0} \<subseteq> dom (map_of ps)" by (auto simp: word_le_nat_alt Suc_le_eq unat_gt_0)
  then have "card (UNIV - {0 :: path_id}) \<le> card (dom (map_of ps))" by (rule card_mono [OF finite_dom_map_of])
  also have "\<dots> \<le> length ps" using card_length [of "map fst ps"] by (simp add: dom_map_of_conv_image_fst)
  finally show False using assms by (simp add: card_Diff_singleton card_word)
qed

lemma NextUnusedPathID_total:
  assumes "length (paths m) < 2 ^ 32 - 1"
  shows "\<exists>r. NextUnusedPathID m = Some r \<and>
    (case r of
       Some k \<Rightarrow> 1 \<le> k \<and> k \<le> maxPathID m \<and> Get k m = None \<and> (\<forall>j. 1 \<le> j \<and> j < k \<longrightarrow> Get j m \<noteq> None)
     | None \<Rightarrow> \<forall>j. 1 \<le> j \<and> j \<le> maxPathID m \<longrightarrow> Get j m \<noteq> None)"
proof (cases "\<exists>k. 1 \<le> k \<and> k \<le> maxPathID m \<and> map_of (paths m) k = None")
  case True
  then obtain k0 where "nextUnusedFrom (paths m) (maxPathID m) 1 = Some (Some k0)" "1 \<le> k0" "k0 \<le> maxPathID m"
    "map_of (paths m) k0 = None" "\<forall>j. 1 \<le> j \<and> j < k0 \<longrightarrow> map_of (paths m) j \<noteq> None"
    using nextUnusedFrom_Some by blast
  then show ?thesis by (simp add: NextUnusedPathID_def Get_def)
next
  case False
  then have "maxPathID m \<noteq> - 1" using unused_exists [OF assms] by auto
  then have "nextUnusedFrom (paths m) (maxPathID m) 1 = Some None"
    using False by (intro nextUnusedFrom_none) auto
  then show ?thesis using False by (auto simp: NextUnusedPathID_def Get_def)
qed

text \<open>
  C26: \<open>NextUnusedPathID\<close> returns (it does not run around the 32-bit counter for ever), and its
  result is the smallest non-zero path ID within the limit that is not registered, or no ID when
  every ID within the limit is taken. The loop could only spin with \<open>2 ^ 32 - 1\<close> registered paths.
\<close>

theorem NextUnusedPathID_correct:
  assumes "length (paths m) < 2 ^ 32 - 1"
  shows "\<exists>r. NextUnusedPathID m = Some r \<and>
    (case r of
       Some k \<Rightarrow> 1 \<le> k \<and> k \<le> maxPathID m \<and> Get k m = None \<and> (\<forall>j. 1 \<le> j \<and> j < k \<longrightarrow> Get j m \<noteq> None)
     | None \<Rightarrow> \<forall>j. 1 \<le> j \<and> j \<le> maxPathID m \<longrightarrow> Get j m \<noteq> None)"
  using assms by (rule NextUnusedPathID_total)

theorem NextUnusedPathID_correct_witness:
  "\<exists>r. NextUnusedPathID (NewManager 3) = Some r \<and>
    (case r of
       Some k \<Rightarrow> 1 \<le> k \<and> k \<le> maxPathID (NewManager 3) \<and> Get k (NewManager 3) = None \<and>
         (\<forall>j. 1 \<le> j \<and> j < k \<longrightarrow> Get j (NewManager 3) \<noteq> None)
     | None \<Rightarrow> \<forall>j. 1 \<le> j \<and> j \<le> maxPathID (NewManager 3) \<longrightarrow> Get j (NewManager 3) \<noteq> None)"
  by (rule NextUnusedPathID_correct) (simp add: NewManager_def)

section \<open>Peer status updates\<close>

text \<open>A run of PATH_STATUS frames for one path: time of arrival, status and sequence number.\<close>

type_synonym peer_update = "int \<times> status \<times> u64"

primrec applyPeerStatuses :: "path_id \<Rightarrow> peer_update list \<Rightarrow> manager \<Rightarrow> manager" where
  "applyPeerStatuses pid [] m = m"
| "applyPeerStatuses pid (u # us) m =
     applyPeerStatuses pid us (fst (ApplyPeerStatus (fst u) pid (fst (snd u)) (snd (snd u)) m))"

abbreviation update_seq :: "peer_update \<Rightarrow> u64" where
  "update_seq u \<equiv> snd (snd u)"

lemma ApplyPeerStatus_lookup:
  assumes "map_of (paths m) pid = Some s"
  shows "map_of (paths (fst (ApplyPeerStatus now pid st seq m))) pid =
    Some (if seq \<le> PeerStatusSeq s then s else s\<lparr>PeerStatusSeq := seq, Status := st, UpdatedAt := now\<rparr>)"
  using assms by (simp add: ApplyPeerStatus_def Let_def)

definition latest_of :: "(status \<times> u64) set \<Rightarrow> path_state \<Rightarrow> path_state \<Rightarrow> bool" where
  "latest_of U s s' \<longleftrightarrow> PeerStatusSeq s \<le> PeerStatusSeq s' \<and> (\<forall>u \<in> U. snd u \<le> PeerStatusSeq s') \<and>
     (if PeerStatusSeq s' = PeerStatusSeq s then Status s' = Status s else (Status s', PeerStatusSeq s') \<in> U)"

lemma applyPeerStatuses_latest:
  assumes "map_of (paths m) pid = Some s"
  shows "\<exists>s'. map_of (paths (applyPeerStatuses pid us m)) pid = Some s' \<and> latest_of (snd ` set us) s s'"
  using assms
proof (induction us arbitrary: m s)
  case Nil
  then show ?case by (simp add: latest_of_def)
next
  case (Cons u us)
  let ?m = "fst (ApplyPeerStatus (fst u) pid (fst (snd u)) (update_seq u) m)"
  let ?s = "if update_seq u \<le> PeerStatusSeq s then s
     else s\<lparr>PeerStatusSeq := update_seq u, Status := fst (snd u), UpdatedAt := fst u\<rparr>"
  have "map_of (paths ?m) pid = Some ?s"
    using ApplyPeerStatus_lookup [OF Cons.prems] by simp
  from Cons.IH [OF this] obtain s' where s': "map_of (paths (applyPeerStatuses pid us ?m)) pid = Some s'"
      "latest_of (snd ` set us) ?s s'"
    by blast
  from this(2) have "latest_of (snd ` set (u # us)) s s'"
    by (cases u; cases "update_seq u \<le> PeerStatusSeq s"; cases "PeerStatusSeq s' = update_seq u") (auto simp: latest_of_def split: if_splits)
  then show ?case using s'(1) by auto
qed

text \<open>
  C27: PATH_STATUS frames may be delayed, repeated and reordered by the network. Let two receivers start alike and get
  the same status updates for a path, each update any number of times, in any order and at any time. If every
  sequence number stands for one status, as a sender that counts its updates guarantees, the path ends with the
  same status and the same sequence number at both. (Two different statuses under one number would be decided by
  which arrives first.)
\<close>

theorem peer_status_order_independent:
  assumes "snd ` set us = snd ` set vs" and "inj_on snd (snd ` set us)"
  shows "map_option (\<lambda>s. (Status s, PeerStatusSeq s)) (Get pid (applyPeerStatuses pid us m)) =
         map_option (\<lambda>s. (Status s, PeerStatusSeq s)) (Get pid (applyPeerStatuses pid vs m))"
proof (cases "map_of (paths m) pid")
  case None
  have "map_of (paths (applyPeerStatuses pid ws m)) pid = None" for ws
    using None by (induction ws arbitrary: m) (simp_all add: ApplyPeerStatus_def)
  then show ?thesis by (simp add: Get_def)
next
  case (Some s)
  obtain s1 where s1: "map_of (paths (applyPeerStatuses pid us m)) pid = Some s1" "latest_of (snd ` set us) s s1"
    using applyPeerStatuses_latest [OF Some] by blast
  obtain s2 where s2: "map_of (paths (applyPeerStatuses pid vs m)) pid = Some s2" "latest_of (snd ` set us) s s2"
    using applyPeerStatuses_latest [OF Some, of vs] unfolding assms(1) by blast
  have "PeerStatusSeq s1 = PeerStatusSeq s2"
    using s1(2) s2(2) unfolding latest_of_def by (metis order.antisym snd_conv)
  moreover from this have "Status s1 = Status s2"
    using s1(2) s2(2) inj_onD [OF assms(2), of "(Status s1, PeerStatusSeq s1)" "(Status s2, PeerStatusSeq s2)"]
    by (auto simp: latest_of_def split: if_splits)
  ultimately show ?thesis using s1(1) s2(1) by (simp add: Get_def)
qed

theorem peer_status_order_independent_witness:
  "map_option (\<lambda>s. (Status s, PeerStatusSeq s))
     (Get 0 (applyPeerStatuses 0 [(1, StatusBackup, 2), (2, StatusAvailable, 1), (4, StatusBackup, 2)]
        (fst (EnsureInitialPath 0 ''a'' (NewManager 1))))) =
   map_option (\<lambda>s. (Status s, PeerStatusSeq s))
     (Get 0 (applyPeerStatuses 0 [(5, StatusAvailable, 1), (6, StatusBackup, 2), (7, StatusAvailable, 1)]
        (fst (EnsureInitialPath 0 ''a'' (NewManager 1)))))"
  by (rule peer_status_order_independent) auto

section \<open>Snapshots\<close>

lemma wf_manager_values:
  assumes "wf_manager m"
  shows "distinct (map ID (map snd (paths m)))" and "set (map snd (paths m)) = {s. \<exists>k. Get k m = Some s}"
proof -
  have wf: "wf_map (paths m)" using assms by (simp add: wf_manager_def)
  have "map ID (map snd (paths m)) = map fst (paths m)"
    using wf_managerD(1) [OF assms] wf by (auto simp: map_of_eq_Some_iff)
  then show "distinct (map ID (map snd (paths m)))" using wf by metis
  show "set (map snd (paths m)) = {s. \<exists>k. Get k m = Some s}"
    using wf by (force simp: Get_def)
qed

text \<open>
  A snapshot of a well-formed manager lists exactly the registered paths, in strictly
  increasing order of their IDs, and does not depend on the iteration order of the Go map.
\<close>

theorem Snapshot_correct:
  assumes "wf_manager m"
  shows "set (Snapshot m) = {s. \<exists>k. Get k m = Some s} \<and>
    sorted_wrt (\<lambda>s t. ID s < ID t) (Snapshot m) \<and>
    (\<forall>m'. wf_manager m' \<and> (\<forall>k. Get k m' = Get k m) \<longrightarrow> Snapshot m' = Snapshot m)"
proof (intro conjI allI impI)
  note vals = wf_manager_values [OF assms]
  show "set (Snapshot m) = {s. \<exists>k. Get k m = Some s}"
    unfolding Snapshot_def sort_by.srt_set by (rule vals(2))
  have "sorted (map ID (Snapshot m))" "distinct (map ID (Snapshot m))"
    unfolding Snapshot_def using sort_by.srt_sorted sort_by.srt_distinct vals(1) by blast+
  then show "sorted_wrt (\<lambda>s t. ID s < ID t) (Snapshot m)"
    by (simp add: strict_sorted_iff flip: sorted_wrt_map)
  fix m' assume m': "wf_manager m' \<and> (\<forall>k. Get k m' = Get k m)"
  have "mset (map snd (paths m')) = mset (map snd (paths m))"
    using wf_manager_values [of m'] vals m'
    by (subst set_eq_iff_mset_eq_distinct [symmetric]) (auto simp: distinct_map intro: inj_on_imageI2 [of ID])
  then show "Snapshot m' = Snapshot m"
    unfolding Snapshot_def by (intro sort_by.srt_unique [OF vals(1), symmetric]) (simp_all add: sort_by.srt_mset)
qed

theorem Snapshot_correct_witness:
  "set (Snapshot (fst (EnsureInitialPath 0 ''a'' (NewManager 1)))) =
      {s. \<exists>k. Get k (fst (EnsureInitialPath 0 ''a'' (NewManager 1))) = Some s} \<and>
    sorted_wrt (\<lambda>s t. ID s < ID t) (Snapshot (fst (EnsureInitialPath 0 ''a'' (NewManager 1))))"
  using Snapshot_correct [OF wf_EnsureInitialPath [OF wf_NewManager]] by blast

end
