(* ===== verification/Cid_Registry.thy ===== *)
theory Cid_Registry
  imports Path_Manager
begin

text \<open>
  \<^verbatim>\<open>internal/mpquic/cid\<close>: the connection IDs issued locally and received from the peer, per path
  (\<^verbatim>\<open>registry.go\<close>), and their resolution (\<^verbatim>\<open>resolve.go\<close>). Retiring rewrites the \<open>Retired\<close> flag in the
  slice the registry owns. Its accessors copy the slice on the way out, so no caller shares those
  flags, and passing the new slice around is exact; connection ID bytes are never written to.
\<close>

section \<open>State\<close>

record entry =
  SequenceNumber :: u64
  ConnectionID :: bytes
  StatelessResetToken :: bytes
  Retired :: bool

record registry =
  local :: "(path_id, entry list) gomap"
  remote :: "(path_id, entry list) gomap"

datatype cid_error =
    RetirePriorToExceeds u64 u64
  | LocalPathNotRegistered path_id
  | RemotePathNotRegistered path_id

text \<open>\<open>m[k]\<close> of a map of slices: the nil slice when there is no entry.\<close>

definition slice_at :: "(path_id, entry list) gomap \<Rightarrow> path_id \<Rightarrow> entry list" where
  "slice_at m k = (case map_of m k of None \<Rightarrow> [] | Some es \<Rightarrow> es)"

section \<open>Operations\<close>

definition NewRegistry :: registry where
  "NewRegistry = \<lparr>local = [], remote = []\<rparr>"

text \<open>The loop of \<open>nextSequence\<close>: \<open>i == 0\<close> on the first entry, then the running maximum plus one.\<close>

primrec nextSequenceLoop :: "bool \<Rightarrow> u64 \<Rightarrow> entry list \<Rightarrow> u64" where
  "nextSequenceLoop isFirst mx [] = mx"
| "nextSequenceLoop isFirst mx (e # es) =
     nextSequenceLoop False (if isFirst \<or> mx \<le> SequenceNumber e then SequenceNumber e + 1 else mx) es"

definition nextSequence :: "entry list \<Rightarrow> u64" where
  "nextSequence es = nextSequenceLoop True 0 es"

definition retire :: "entry list \<Rightarrow> u64 \<Rightarrow> entry list" where
  "retire es seq = map (\<lambda>e. if SequenceNumber e = seq then e\<lparr>Retired := True\<rparr> else e) es"

definition retirePriorToLocal :: "entry list \<Rightarrow> u64 \<Rightarrow> entry list" where
  "retirePriorToLocal es prior = map (\<lambda>e. if SequenceNumber e < prior then e\<lparr>Retired := True\<rparr> else e) es"

definition sortEntries :: "entry list \<Rightarrow> entry list" where
  "sortEntries es = sort_key SequenceNumber es"

definition NextLocalSequence :: "registry \<Rightarrow> path_id \<Rightarrow> u64" where
  "NextLocalSequence r pid = nextSequence (slice_at (local r) pid)"

definition NextRemoteSequence :: "registry \<Rightarrow> path_id \<Rightarrow> u64" where
  "NextRemoteSequence r pid = nextSequence (slice_at (remote r) pid)"

definition IssueLocal :: "path_id \<Rightarrow> bytes \<Rightarrow> bytes \<Rightarrow> u64 \<Rightarrow> registry \<Rightarrow> registry \<times> entry" where
  "IssueLocal pid cid token prior r =
     (let nxt = NextLocalSequence r pid;
          e = \<lparr>SequenceNumber = nxt, ConnectionID = cid, StatelessResetToken = token, Retired = False\<rparr>;
          es = sortEntries (retirePriorToLocal (slice_at (local r) pid) prior @ [e])
      in (r\<lparr>local := AList.update pid es (local r)\<rparr>, e))"

definition RegisterRemote :: "path_id \<Rightarrow> u64 \<Rightarrow> u64 \<Rightarrow> bytes \<Rightarrow> bytes \<Rightarrow> registry \<Rightarrow> registry \<times> cid_error option" where
  "RegisterRemote pid seq prior cid token r =
     (if seq < prior then (r, Some (RetirePriorToExceeds prior seq))
      else
        let es = retirePriorToLocal (slice_at (remote r) pid) prior
                   @ [\<lparr>SequenceNumber = seq, ConnectionID = cid, StatelessResetToken = token, Retired = False\<rparr>]
        in (r\<lparr>remote := AList.update pid (sortEntries es) (remote r)\<rparr>, None))"

definition RetireLocal :: "path_id \<Rightarrow> u64 \<Rightarrow> registry \<Rightarrow> registry \<times> cid_error option" where
  "RetireLocal pid seq r =
     (case map_of (local r) pid of
        None \<Rightarrow> (r, Some (LocalPathNotRegistered pid))
      | Some es \<Rightarrow> (r\<lparr>local := AList.update pid (retire es seq) (local r)\<rparr>, None))"

definition RetireRemote :: "path_id \<Rightarrow> u64 \<Rightarrow> registry \<Rightarrow> registry \<times> cid_error option" where
  "RetireRemote pid seq r =
     (case map_of (remote r) pid of
        None \<Rightarrow> (r, Some (RemotePathNotRegistered pid))
      | Some es \<Rightarrow> (r\<lparr>remote := AList.update pid (retire es seq) (remote r)\<rparr>, None))"

definition Remote :: "registry \<Rightarrow> path_id \<Rightarrow> entry list" where
  "Remote r pid = slice_at (remote r) pid"

definition Local :: "registry \<Rightarrow> path_id \<Rightarrow> entry list" where
  "Local r pid = slice_at (local r) pid"

definition HasUsableRemote :: "registry \<Rightarrow> path_id \<Rightarrow> bool" where
  "HasUsableRemote r pid = list_ex (\<lambda>e. \<not> Retired e) (slice_at (remote r) pid)"

text \<open>\<open>RetirePath\<close> writes through the slices of existing map entries only; a missing path stays missing.\<close>

definition retireAll :: "(path_id, entry list) gomap \<Rightarrow> path_id \<Rightarrow> (path_id, entry list) gomap" where
  "retireAll m pid =
     (case map_of m pid of
        None \<Rightarrow> m
      | Some es \<Rightarrow> AList.update pid (map (\<lambda>e. e\<lparr>Retired := True\<rparr>) es) m)"

definition RetirePath :: "path_id \<Rightarrow> registry \<Rightarrow> registry" where
  "RetirePath pid r = r\<lparr>local := retireAll (local r) pid, remote := retireAll (remote r) pid\<rparr>"

text \<open>\<open>PathForLocalConnectionID\<close> ranges over the map: the first match in the order of the list.\<close>

primrec pathForCID :: "bytes \<Rightarrow> (path_id, entry list) gomap \<Rightarrow> path_id option" where
  "pathForCID cid [] = None"
| "pathForCID cid (kv # m) =
     (if list_ex (\<lambda>e. ConnectionID e = cid) (snd kv) then Some (fst kv) else pathForCID cid m)"

definition PathForLocalConnectionID :: "registry \<Rightarrow> bytes \<Rightarrow> path_id option" where
  "PathForLocalConnectionID r cid = pathForCID cid (local r)"

definition UsableRemote :: "registry \<Rightarrow> path_id \<Rightarrow> entry option" where
  "UsableRemote r pid = find (\<lambda>e. \<not> Retired e) (slice_at (remote r) pid)"

section \<open>Invariant\<close>

text \<open>
  Every slice is ordered by sequence number, and the locally issued connection IDs of a path carry
  the sequence numbers \<open>0, 1, 2, \<dots>\<close> without a gap.
\<close>

definition numbered :: "entry list \<Rightarrow> bool" where
  "numbered es \<longleftrightarrow> map SequenceNumber es = map of_nat [0..<length es] \<and> length es < 2 ^ 64"

definition wf_registry :: "registry \<Rightarrow> bool" where
  "wf_registry r \<longleftrightarrow> wf_map (local r) \<and> wf_map (remote r) \<and> (\<forall>pid. numbered (Local r pid)) \<and>
     (\<forall>pid. sorted (map SequenceNumber (Remote r pid)))"

lemma slice_at_update [simp]: "slice_at (AList.update k es m) k' = (if k' = k then es else slice_at m k')"
  by (simp add: slice_at_def)

lemma map_seq_retire [simp]:
  "map SequenceNumber (retire es seq) = map SequenceNumber es"
  "map SequenceNumber (retirePriorToLocal es prior) = map SequenceNumber es"
  by (simp_all add: retire_def retirePriorToLocal_def)

lemma length_retire [simp]: "length (retire es seq) = length es" "length (retirePriorToLocal es prior) = length es"
  by (simp_all add: retire_def retirePriorToLocal_def)

lemma numbered_cong: "map SequenceNumber es = map SequenceNumber es' \<Longrightarrow> numbered es \<longleftrightarrow> numbered es'"
  by (metis numbered_def length_map)

lemma slice_retireAll:
  "slice_at (retireAll m pid) k = (if k = pid then map (\<lambda>e. e\<lparr>Retired := True\<rparr>) (slice_at m k) else slice_at m k)"
  by (auto simp: retireAll_def slice_at_def split: option.splits)

lemma wf_map_retireAll [simp]: "wf_map m \<Longrightarrow> wf_map (retireAll m pid)"
  by (simp add: retireAll_def split: option.splits)

lemma nextSequenceLoop_numbered:
  "k + length es < 2 ^ 64 \<Longrightarrow> map SequenceNumber es = map of_nat [k..<k + length es] \<Longrightarrow> isFirst \<or> mx = of_nat k \<Longrightarrow>
     nextSequenceLoop isFirst mx es = (if es = [] then mx else of_nat (k + length es))"
proof (induction es arbitrary: k isFirst mx)
  case Nil
  then show ?case by simp
next
  case (Cons e es)
  have "map SequenceNumber (e # es) = of_nat k # map of_nat [Suc k..<Suc k + length es]"
    using Cons.prems(2) by (simp add: upt_conv_Cons del: upt_Suc)
  then have "SequenceNumber e = of_nat k" "map SequenceNumber es = map of_nat [Suc k..<Suc k + length es]"
    by simp_all
  then show ?case
    using Cons.IH [of "Suc k" False "of_nat (Suc k)"] Cons.prems(1,3) by (auto simp: add.commute)
qed

lemma nextSequence_numbered: "numbered es \<Longrightarrow> nextSequence es = of_nat (length es)"
  using nextSequenceLoop_numbered [of 0 es True 0] by (simp add: numbered_def nextSequence_def)

lemma sorted_numbered:
  assumes "numbered es"
  shows "sorted (map SequenceNumber es)"
proof -
  have "i < 2 ^ 64 \<Longrightarrow> j < 2 ^ 64 \<Longrightarrow> i \<le> j \<Longrightarrow> (of_nat i :: u64) \<le> of_nat j" for i j :: nat
    by (simp add: word_le_nat_alt unat_of_nat)
  then show ?thesis using assms by (auto simp: numbered_def sorted_iff_nth_mono)
qed

lemma numbered_snoc:
  "numbered es \<Longrightarrow> length es < 2 ^ 64 - 1 \<Longrightarrow> SequenceNumber e = of_nat (length es) \<Longrightarrow> numbered (es @ [e])"
  by (simp add: numbered_def)

lemma sortEntries_sorted: "sorted (map SequenceNumber es) \<Longrightarrow> sortEntries es = es"
  by (simp add: sortEntries_def sort_key_id_if_sorted)

lemma IssueLocal_Local:
  assumes "wf_registry r" and "length (Local r pid) < 2 ^ 64 - 1" and "IssueLocal pid cid token prior r = (r', e)"
  shows "Local r' k = (if k = pid then retirePriorToLocal (Local r pid) prior @ [e] else Local r k)"
    and "e = \<lparr>SequenceNumber = of_nat (length (Local r pid)), ConnectionID = cid, StatelessResetToken = token, Retired = False\<rparr>"
    and "remote r' = remote r" and "numbered (Local r' k)"
proof -
  let ?es = "retirePriorToLocal (Local r pid) prior"
  have n: "numbered (Local r pid)" using assms(1) by (simp add: wf_registry_def)
  then have n': "numbered ?es" by (simp add: numbered_cong [of ?es "Local r pid"])
  show e: "e = \<lparr>SequenceNumber = of_nat (length (Local r pid)), ConnectionID = cid,
      StatelessResetToken = token, Retired = False\<rparr>"
    using assms(3) nextSequence_numbered [OF n] by (auto simp: IssueLocal_def NextLocalSequence_def Local_def Let_def)
  then have snoc: "numbered (?es @ [e])" using n' assms(2) by (intro numbered_snoc) simp_all
  then show l: "Local r' k = (if k = pid then ?es @ [e] else Local r k)"
    using assms(3) sortEntries_sorted [OF sorted_numbered]
    by (auto simp: IssueLocal_def NextLocalSequence_def Local_def Let_def)
  show "remote r' = remote r" using assms(3) by (auto simp: IssueLocal_def Let_def)
  show "numbered (Local r' k)" using snoc l assms(1) by (simp add: wf_registry_def)
qed

lemma wf_NewRegistry [wf_intros]: "wf_registry NewRegistry"
  by (simp add: wf_registry_def NewRegistry_def Local_def Remote_def slice_at_def numbered_def)

lemma wf_IssueLocal [wf_intros]:
  assumes "wf_registry r" and "length (Local r pid) < 2 ^ 64 - 1"
  shows "wf_registry (fst (IssueLocal pid cid token prior r))"
proof -
  obtain r' e where r': "IssueLocal pid cid token prior r = (r', e)" by (cases "IssueLocal pid cid token prior r")
  moreover have "wf_map (local r')" using r' assms(1) by (auto simp: IssueLocal_def Let_def wf_registry_def)
  ultimately show ?thesis
    using IssueLocal_Local(3,4) [OF assms r'] assms(1) by (simp add: wf_registry_def Remote_def)
qed

lemma Remote_RegisterRemote:
  assumes "\<not> seq < prior"
  shows "Remote (fst (RegisterRemote pid seq prior cid token r)) k =
    (if k = pid then sortEntries (retirePriorToLocal (Remote r pid) prior
        @ [\<lparr>SequenceNumber = seq, ConnectionID = cid, StatelessResetToken = token, Retired = False\<rparr>])
     else Remote r k)"
  using assms by (simp add: RegisterRemote_def Remote_def Let_def)

lemma wf_RegisterRemote [wf_intros]:
  "wf_registry r \<Longrightarrow> wf_registry (fst (RegisterRemote pid seq prior cid token r))"
  by (cases "seq < prior")
     (auto simp: wf_registry_def Remote_RegisterRemote sortEntries_def,
      auto simp: RegisterRemote_def Local_def Let_def)

lemma wf_RetireLocal [wf_intros]: "wf_registry r \<Longrightarrow> wf_registry (fst (RetireLocal pid seq r))"
  using numbered_cong [OF map_seq_retire(1)]
  by (auto simp: RetireLocal_def wf_registry_def Local_def Remote_def slice_at_def split: option.splits)

lemma wf_RetireRemote [wf_intros]: "wf_registry r \<Longrightarrow> wf_registry (fst (RetireRemote pid seq r))"
  by (auto simp: RetireRemote_def wf_registry_def Local_def Remote_def slice_at_def split: option.splits)

lemma wf_RetirePath [wf_intros]: "wf_registry r \<Longrightarrow> wf_registry (RetirePath pid r)"
proof -
  have "numbered (map (\<lambda>e. e\<lparr>Retired := True\<rparr>) es) = numbered es" for es
    by (rule numbered_cong) simp
  then show "wf_registry r \<Longrightarrow> wf_registry (RetirePath pid r)"
    by (simp add: RetirePath_def wf_registry_def Local_def Remote_def slice_retireAll comp_def)
qed

section \<open>Correctness of the registry\<close>

text \<open>
  C29: issuing a connection ID for a path numbers it with the count of connection IDs issued for that
  path so far, appends it at the end without reordering, retires exactly the entries before
  \<open>retirePriorTo\<close>, keeps all other paths, and keeps the invariant.
\<close>

theorem IssueLocal_consecutive:
  assumes "wf_registry r" and "length (Local r pid) < 2 ^ 64 - 1" and "IssueLocal pid cid token prior r = (r', e)"
  shows "unat (SequenceNumber e) = length (Local r pid) \<and>
         Local r' pid = retirePriorToLocal (Local r pid) prior @ [e] \<and>
         (\<forall>k. k \<noteq> pid \<longrightarrow> Local r' k = Local r k) \<and> wf_registry r'"
  using IssueLocal_Local(1,2) [OF assms] wf_IssueLocal [OF assms(1,2), of cid token prior] assms
  by (auto simp: unat_of_nat)

theorem IssueLocal_consecutive_witness:
  "unat (SequenceNumber (snd (IssueLocal 1 [7] [] 0 NewRegistry))) = length (Local NewRegistry 1) \<and>
   Local (fst (IssueLocal 1 [7] [] 0 NewRegistry)) 1 =
     retirePriorToLocal (Local NewRegistry 1) 0 @ [snd (IssueLocal 1 [7] [] 0 NewRegistry)] \<and>
   wf_registry (fst (IssueLocal 1 [7] [] 0 NewRegistry))"
  using IssueLocal_consecutive [OF wf_NewRegistry _ prod.collapse [symmetric], of 1 "[7]" "[]" 0]
  by (simp add: Local_def NewRegistry_def slice_at_def)

text \<open>
  The connection ID chosen for sending on a path is one the peer issued for that path and has
  not been retired, and it is the one with the lowest sequence number; there is one exactly when
  \<open>HasUsableRemote\<close> says so.
\<close>

theorem UsableRemote_lowest:
  assumes "wf_registry r"
  shows "(HasUsableRemote r pid \<longleftrightarrow> UsableRemote r pid \<noteq> None) \<and>
    (\<forall>e. UsableRemote r pid = Some e \<longrightarrow>
       e \<in> set (Remote r pid) \<and> \<not> Retired e \<and>
       (\<forall>e' \<in> set (Remote r pid). \<not> Retired e' \<longrightarrow> SequenceNumber e \<le> SequenceNumber e'))"
proof (intro conjI allI impI)
  show "HasUsableRemote r pid \<longleftrightarrow> UsableRemote r pid \<noteq> None"
    by (auto simp: HasUsableRemote_def UsableRemote_def list_ex_iff find_None_iff)
next
  fix e assume "UsableRemote r pid = Some e"
  then obtain i where i: "i < length (Remote r pid)" "e = Remote r pid ! i" "\<not> Retired e"
      "\<forall>j < i. Retired (Remote r pid ! j)"
    by (auto simp: UsableRemote_def Remote_def find_Some_iff)
  then show "e \<in> set (Remote r pid)" "\<not> Retired e" by auto
  show "\<forall>e' \<in> set (Remote r pid). \<not> Retired e' \<longrightarrow> SequenceNumber e \<le> SequenceNumber e'"
  proof (intro ballI impI)
    fix e' assume "e' \<in> set (Remote r pid)" "\<not> Retired e'"
    then obtain j where "j < length (Remote r pid)" "e' = Remote r pid ! j" "i \<le> j"
      using i(4) by (metis in_set_conv_nth not_le)
    then show "SequenceNumber e \<le> SequenceNumber e'"
      using assms i(1,2) by (auto simp: wf_registry_def sorted_iff_nth_mono)
  qed
qed

theorem UsableRemote_lowest_witness:
  "\<exists>e. UsableRemote (fst (RegisterRemote 1 4 2 [7] [9] (fst (RegisterRemote 1 1 0 [6] [8] NewRegistry)))) 1 = Some e \<and>
     e \<in> set (Remote (fst (RegisterRemote 1 4 2 [7] [9] (fst (RegisterRemote 1 1 0 [6] [8] NewRegistry)))) 1) \<and> \<not> Retired e"
proof -
  let ?r = "fst (RegisterRemote 1 4 2 [7] [9] (fst (RegisterRemote 1 1 0 [6] [8] NewRegistry)))"
  have "wf_registry ?r" by (intro wf_RegisterRemote wf_NewRegistry)
  moreover have "HasUsableRemote ?r 1" by code_simp
  ultimately show ?thesis using UsableRemote_lowest [of ?r 1] by blast
qed

lemma pathForCID_Some:
  "pathForCID cid m = Some k \<Longrightarrow> \<exists>es. (k, es) \<in> set m \<and> (\<exists>e \<in> set es. ConnectionID e = cid)"
  by (induction m) (force simp: list_ex_iff split: if_splits)+

lemma pathForCID_None: "pathForCID cid m = None \<longleftrightarrow> (\<forall>(k, es) \<in> set m. \<forall>e \<in> set es. ConnectionID e \<noteq> cid)"
  by (induction m) (auto simp: list_ex_iff)

lemma PathForLocal_lookup:
  assumes "wf_registry r"
    and "\<And>k e. e \<in> set (Local r k) \<Longrightarrow> ConnectionID e = cid \<Longrightarrow> k = pid"
  shows "PathForLocalConnectionID r cid =
    (if \<exists>e \<in> set (Local r pid). ConnectionID e = cid then Some pid else None)"
proof -
  have loc: "Local r k = es" if "(k, es) \<in> set (local r)" for k es
    using assms(1) that by (simp add: Local_def slice_at_def wf_registry_def)
  have ent: "\<exists>es. (pid, es) \<in> set (local r) \<and> Local r pid = es" if "Local r pid \<noteq> []"
    using that by (auto simp: Local_def slice_at_def split: option.splits dest: map_of_SomeD)
  show ?thesis
  proof (cases "PathForLocalConnectionID r cid")
    case None
    then have "\<forall>e \<in> set (Local r pid). ConnectionID e \<noteq> cid"
      using ent by (fastforce simp: PathForLocalConnectionID_def pathForCID_None)
    then show ?thesis using None by auto
  next
    case (Some k)
    then obtain es e where "(k, es) \<in> set (local r)" "e \<in> set es" "ConnectionID e = cid"
      unfolding PathForLocalConnectionID_def by (blast dest: pathForCID_Some)
    then show ?thesis using Some loc assms(2) by metis
  qed
qed

text \<open>
  Demultiplexing. A connection ID that was issued for one path only resolves to that path,
  retired or not, and a connection ID that was never issued resolves to no path. The result does
  not depend on the order in which the map is visited.
\<close>

theorem PathForLocalConnectionID_resolves:
  assumes "wf_registry r"
    and "\<And>k e. e \<in> set (Local r k) \<Longrightarrow> ConnectionID e = cid \<Longrightarrow> k = pid"
  shows "PathForLocalConnectionID r cid =
    (if \<exists>e \<in> set (Local r pid). ConnectionID e = cid then Some pid else None)"
  using assms by (rule PathForLocal_lookup)

theorem PathForLocalConnectionID_resolves_witness:
  "PathForLocalConnectionID (fst (IssueLocal 1 [7] [] 0 NewRegistry)) [7] =
    (if \<exists>e \<in> set (Local (fst (IssueLocal 1 [7] [] 0 NewRegistry)) 1). ConnectionID e = [7] then Some 1 else None)"
proof (rule PathForLocalConnectionID_resolves)
  show "wf_registry (fst (IssueLocal 1 [7] [] 0 NewRegistry))"
    by (rule wf_IssueLocal [OF wf_NewRegistry]) (simp add: Local_def NewRegistry_def slice_at_def)
qed (auto simp: IssueLocal_def Local_def NewRegistry_def slice_at_def sortEntries_def
       retirePriorToLocal_def Let_def split: if_splits)

lemma retirePriorToLocal_flags:
  "retirePriorToLocal es prior = map (\<lambda>e. e\<lparr>Retired := Retired e \<or> SequenceNumber e < prior\<rparr>) es"
  by (simp add: retirePriorToLocal_def)

text \<open>
  A frame that announces a connection ID with \<open>retirePriorTo\<close> above its own sequence number is
  refused and changes nothing; any other makes the connection ID usable, retires every earlier entry
  of the path below \<open>retirePriorTo\<close>, keeps the flags of the others, and keeps all other paths.
\<close>

theorem RegisterRemote_effect:
  "RegisterRemote pid seq prior cid token r =
     (if seq < prior then (r, Some (RetirePriorToExceeds prior seq))
      else (fst (RegisterRemote pid seq prior cid token r), None)) \<and>
   (prior \<le> seq \<longrightarrow>
      mset (Remote (fst (RegisterRemote pid seq prior cid token r)) pid) =
        {#\<lparr>SequenceNumber = seq, ConnectionID = cid, StatelessResetToken = token, Retired = False\<rparr>#} +
        image_mset (\<lambda>e. e\<lparr>Retired := Retired e \<or> SequenceNumber e < prior\<rparr>) (mset (Remote r pid)) \<and>
      HasUsableRemote (fst (RegisterRemote pid seq prior cid token r)) pid \<and>
      (\<forall>k. k \<noteq> pid \<longrightarrow> Remote (fst (RegisterRemote pid seq prior cid token r)) k = Remote r k))"
proof (cases "seq < prior")
  case True
  then show ?thesis by (auto simp: RegisterRemote_def)
next
  case False
  let ?e = "\<lparr>SequenceNumber = seq, ConnectionID = cid, StatelessResetToken = token, Retired = False\<rparr>"
  let ?r = "fst (RegisterRemote pid seq prior cid token r)"
  have rem: "Remote ?r pid = sortEntries (retirePriorToLocal (Remote r pid) prior @ [?e])"
    using False by (simp add: Remote_RegisterRemote)
  then have "mset (Remote ?r pid) = {#?e#} +
      image_mset (\<lambda>e. e\<lparr>Retired := Retired e \<or> SequenceNumber e < prior\<rparr>) (mset (Remote r pid))"
    by (simp add: sortEntries_def retirePriorToLocal_flags)
  moreover have "HasUsableRemote ?r pid"
    using rem by (auto simp: HasUsableRemote_def list_ex_iff sortEntries_def simp flip: Remote_def)
  ultimately show ?thesis
    using False by (auto simp: Remote_RegisterRemote) (simp add: RegisterRemote_def Let_def)
qed

theorem RegisterRemote_effect_witness:
  "HasUsableRemote (fst (RegisterRemote 1 4 2 [7] [9] NewRegistry)) 1"
  using RegisterRemote_effect [of 1 4 2 "[7]" "[9]" NewRegistry] by simp

text \<open>
  Retiring a path retires every connection ID of it on both sides, so nothing can be sent on it
  any more, and touches no other path.
\<close>

theorem RetirePath_effect:
  "\<not> HasUsableRemote (RetirePath pid r) pid \<and>
   (\<forall>e \<in> set (Local (RetirePath pid r) pid) \<union> set (Remote (RetirePath pid r) pid). Retired e) \<and>
   map ConnectionID (Local (RetirePath pid r) pid) = map ConnectionID (Local r pid) \<and>
   (\<forall>k. k \<noteq> pid \<longrightarrow> Local (RetirePath pid r) k = Local r k \<and> Remote (RetirePath pid r) k = Remote r k)"
  by (auto simp: RetirePath_def HasUsableRemote_def Local_def Remote_def slice_retireAll list_ex_iff)

theorem RetirePath_effect_witness:
  "\<not> HasUsableRemote (RetirePath 1 (fst (RegisterRemote 1 0 0 [7] [9] NewRegistry))) 1"
  using RetirePath_effect [of 1 "fst (RegisterRemote 1 0 0 [7] [9] NewRegistry)"] by simp

text \<open>
  The registry does not remember a \<open>retirePriorTo\<close> it has acted on: an announcement delayed by
  the network, with a sequence number below a limit that was already announced, is stored as usable.
\<close>

theorem RegisterRemote_forgets_retirePriorTo:
  assumes "prior \<le> seq" and "old < prior"
  shows "\<exists>e \<in> set (Remote (fst (RegisterRemote pid old 0 cid' token'
             (fst (RegisterRemote pid seq prior cid token r)))) pid).
           SequenceNumber e = old \<and> old < prior \<and> \<not> Retired e"
  using assms by (auto simp: Remote_RegisterRemote sortEntries_def)

theorem RegisterRemote_forgets_retirePriorTo_witness:
  "\<exists>e \<in> set (Remote (fst (RegisterRemote 1 0 0 [1] []
       (fst (RegisterRemote 1 2 2 [3] [] NewRegistry)))) 1).
     SequenceNumber e = 0 \<and> (0::u64) < 2 \<and> \<not> Retired e"
  by (rule RegisterRemote_forgets_retirePriorTo) simp_all

end
