(* ===== verification/Float64.thy ===== *)
theory Float64
  imports Prelude
begin

text \<open>
  Go's \<open>float64\<close> arithmetic. Every operation returns the exact result rounded to the nearest number with
  a 53-bit significand, ties to the even one. \<open>fl64\<close> is that rounding with an unbounded exponent:
  overflow to infinity, subnormal numbers and NaN are outside the model. The locale
  \<open>float_rounding\<close> lists the facts of rounding the development relies on; \<open>fl64\<close> has them.
\<close>

section \<open>The contract of rounding\<close>

locale float_rounding =
  fixes fl :: "real \<Rightarrow> real"
  assumes fl_mono: "x \<le> y \<Longrightarrow> fl x \<le> fl y"
    and fl_int: "\<bar>n\<bar> \<le> 2 ^ 53 \<Longrightarrow> fl (of_int n) = of_int n"
begin

lemma fl_0 [simp]: "fl 0 = 0" and fl_1 [simp]: "fl 1 = 1" and fl_100 [simp]: "fl 100 = 100"
  using fl_int [of 0] fl_int [of 1] fl_int [of 100] by simp_all

lemma fl_nonneg: "0 \<le> x \<Longrightarrow> 0 \<le> fl x"
  using fl_mono [of 0 x] by simp

lemma fl_le_1: "x \<le> 1 \<Longrightarrow> fl x \<le> 1"
  using fl_mono [of x 1] by simp

lemma fl_unit: "0 \<le> x \<Longrightarrow> x \<le> 1 \<Longrightarrow> 0 \<le> fl x \<and> fl x \<le> 1"
  by (simp add: fl_nonneg fl_le_1)

lemma fl_mult_mono: "0 \<le> a \<Longrightarrow> x \<le> y \<Longrightarrow> fl (a * x) \<le> fl (a * y)"
  by (intro fl_mono mult_left_mono)

lemma fl_add_mono: "x \<le> x' \<Longrightarrow> y \<le> y' \<Longrightarrow> fl (x + y) \<le> fl (x' + y')"
  by (intro fl_mono add_mono)

end

section \<open>Rounding to nearest, ties to even\<close>

definition round_even :: "real \<Rightarrow> int" where
  "round_even x =
     (let d = x - of_int \<lfloor>x\<rfloor>
      in if d < 1 / 2 then \<lfloor>x\<rfloor> else if 1 / 2 < d then \<lfloor>x\<rfloor> + 1 else if even \<lfloor>x\<rfloor> then \<lfloor>x\<rfloor> else \<lfloor>x\<rfloor> + 1)"

definition exponent :: "real \<Rightarrow> int" where
  "exponent x = \<lfloor>log 2 \<bar>x\<bar>\<rfloor> - 52"

definition fl64 :: "real \<Rightarrow> real" where
  "fl64 x = (if x = 0 then 0 else of_int (round_even (x * 2 powr - of_int (exponent x))) * 2 powr of_int (exponent x))"

lemma round_even_int [simp]: "round_even (of_int n) = n"
  by (simp add: round_even_def)

lemma round_even_bounds: "\<lfloor>x\<rfloor> \<le> round_even x" "round_even x \<le> \<lfloor>x\<rfloor> + 1"
  by (auto simp: round_even_def Let_def)

lemma round_even_mono: "x \<le> y \<Longrightarrow> round_even x \<le> round_even y"
proof -
  assume le: "x \<le> y"
  then have fl: "\<lfloor>x\<rfloor> \<le> \<lfloor>y\<rfloor>" by (rule floor_mono)
  show ?thesis
  proof (cases "\<lfloor>x\<rfloor> = \<lfloor>y\<rfloor>")
    case True
    then show ?thesis using le by (auto simp: round_even_def Let_def)
  next
    case False
    then have "\<lfloor>x\<rfloor> + 1 \<le> \<lfloor>y\<rfloor>" using fl by simp
    then show ?thesis using round_even_bounds [of x] round_even_bounds [of y] by linarith
  qed
qed

lemma round_even_minus: "round_even (- x) = - round_even x"
proof (cases "x \<in> \<int>")
  case True
  then show ?thesis by (auto elim!: Ints_cases simp flip: of_int_minus)
next
  case False
  then have "x \<noteq> of_int \<lfloor>x\<rfloor>" by (metis Ints_of_int)
  then have "\<lfloor>- x\<rfloor> = - \<lfloor>x\<rfloor> - 1" by (simp add: floor_minus ceiling_altdef)
  then show ?thesis by (auto simp: round_even_def Let_def)
qed

lemma fl64_minus: "fl64 (- x) = - fl64 x"
  by (simp add: fl64_def exponent_def round_even_minus)

lemma scaled_bounds:
  assumes "0 < x"
  shows "2 ^ 52 \<le> x * 2 powr - of_int (exponent x)" and "x * 2 powr - of_int (exponent x) < 2 ^ 53"
proof -
  let ?k = "\<lfloor>log 2 x\<rfloor>"
  have "2 powr of_int ?k \<le> x" "x < 2 powr of_int (?k + 1)"
    using assms by (simp_all add: powr_le_iff less_powr_iff)
  moreover have "- real_of_int (exponent x) = of_int (- ?k) + 52"
    using assms by (simp add: exponent_def)
  then have "2 powr - real_of_int (exponent x) = 2 powr of_int (- ?k) * 2 powr (52 :: real)"
    by (simp only: powr_add)
  moreover have "(2 :: real) powr 52 = 2 ^ 52" using powr_realpow [of 2 52] by simp
  ultimately show "2 ^ 52 \<le> x * 2 powr - of_int (exponent x)" "x * 2 powr - of_int (exponent x) < 2 ^ 53"
    by (simp_all add: powr_minus powr_add field_simps)
qed

lemma fl64_pos_bounds:
  assumes "0 < x"
  shows "2 powr of_int (exponent x + 52) \<le> fl64 x" and "fl64 x \<le> 2 powr of_int (exponent x + 53)"
proof -
  let ?y = "x * 2 powr - of_int (exponent x)"
  have "(2 ^ 52 :: int) = round_even (2 ^ 52)" "(2 ^ 53 :: int) = round_even (2 ^ 53)"
    using round_even_int [of "2 ^ 52"] round_even_int [of "2 ^ 53"] by simp_all
  then have "2 ^ 52 \<le> round_even ?y" "round_even ?y \<le> 2 ^ 53"
    using scaled_bounds [OF assms] round_even_mono [of "2 ^ 52" ?y] round_even_mono [of ?y "2 ^ 53"] by simp_all
  then have "(2 ^ 52 :: real) \<le> of_int (round_even ?y)" "of_int (round_even ?y) \<le> (2 ^ 53 :: real)"
    by (metis of_int_le_iff of_int_numeral of_int_power)+
  then have "2 ^ 52 * 2 powr of_int (exponent x) \<le> fl64 x" "fl64 x \<le> 2 ^ 53 * 2 powr of_int (exponent x)"
    using assms by (simp_all add: fl64_def mult_right_mono)
  moreover have "(2 :: real) powr of_int (exponent x + 52) = 2 ^ 52 * 2 powr of_int (exponent x)"
    and "(2 :: real) powr of_int (exponent x + 53) = 2 ^ 53 * 2 powr of_int (exponent x)"
    using powr_realpow [of 2 52] powr_realpow [of 2 53] by (simp_all add: powr_add)
  ultimately show "2 powr of_int (exponent x + 52) \<le> fl64 x" "fl64 x \<le> 2 powr of_int (exponent x + 53)"
    by simp_all
qed

lemma fl64_mono_pos:
  assumes "0 < x" and "x \<le> y"
  shows "fl64 x \<le> fl64 y"
proof -
  have le: "exponent x \<le> exponent y"
    using assms by (simp add: exponent_def floor_mono)
  show ?thesis
  proof (cases "exponent x = exponent y")
    case True
    then show ?thesis using assms
      by (auto simp: fl64_def intro!: mult_right_mono round_even_mono)
  next
    case False
    then have "fl64 x \<le> 2 powr of_int (exponent x + 53)" "(2 :: real) powr of_int (exponent x + 53) \<le> 2 powr of_int (exponent y + 52)"
      using fl64_pos_bounds [OF assms(1)] le by (auto simp del: of_int_add)
    then show ?thesis using fl64_pos_bounds(1) [of y] assms by linarith
  qed
qed

lemma fl64_mono: "x \<le> y \<Longrightarrow> fl64 x \<le> fl64 y"
proof -
  assume le: "x \<le> y"
  have nn: "0 \<le> z \<Longrightarrow> 0 \<le> fl64 z" for z
    using order.trans [OF powr_ge_zero fl64_pos_bounds(1), of z]
    by (cases "z = 0") (simp add: fl64_def, simp)
  consider "0 < x" | "x \<le> 0" "0 \<le> y" | "y < 0" by linarith
  then show ?thesis
  proof cases
    case 1
    then show ?thesis using le by (rule fl64_mono_pos)
  next
    case 2
    then show ?thesis using nn [of y] nn [of "- x"] by (simp add: fl64_minus)
  next
    case 3
    then show ?thesis using fl64_mono_pos [of "- y" "- x"] le by (simp add: fl64_minus)
  qed
qed

lemma fl64_exact:
  assumes "x * 2 powr - of_int (exponent x) = of_int m"
  shows "fl64 x = x"
proof (cases "x = 0")
  case False
  then have "fl64 x = of_int m * 2 powr of_int (exponent x)" by (simp add: fl64_def assms)
  also have "\<dots> = x" using assms by (simp add: powr_minus field_simps)
  finally show ?thesis .
qed (simp add: fl64_def)

lemma log_2_53: "log 2 (2 ^ 53 :: real) = 53"
  using log_pow_cancel [of 2 53] by simp

lemma fl64_pos_int:
  assumes "0 < n" and "n \<le> 2 ^ 53"
  shows "fl64 (of_int n) = of_int n"
proof (cases "n = 2 ^ 53")
  case True
  then have "exponent (of_int n) = 1" using log_2_53 by (simp add: exponent_def)
  then show ?thesis using True by (intro fl64_exact [of _ "2 ^ 52"]) (simp add: powr_minus)
next
  case False
  let ?e = "exponent (of_int n)"
  have "real_of_int n < 2 ^ 53" using False assms(2)
    by (metis of_int_less_iff of_int_numeral of_int_power order.not_eq_order_implies_strict)
  then have "log 2 (of_int n) < log 2 (2 ^ 53)" using assms(1) by simp
  then have "log 2 (of_int n) < 53" by (simp only: log_2_53)
  then have "?e \<le> 0" using assms(1) by (simp add: exponent_def floor_less_iff flip: less_iff_diff_less_0)
  then have "2 powr - real_of_int ?e = 2 ^ nat (- ?e)" by (simp flip: powr_realpow)
  then show ?thesis by (intro fl64_exact [of _ "n * 2 ^ nat (- ?e)"]) simp
qed

text \<open>Evaluation: the exponent is found by bounding the number between two powers of two.\<close>

lemma fl64_eval:
  assumes "2 powr of_int k \<le> x" and "x < 2 powr of_int (k + 1)"
  shows "fl64 x = of_int (round_even (x * 2 powr of_int (52 - k))) * 2 powr of_int (k - 52)"
proof -
  have "0 < x" using assms(1) powr_gt_zero [of 2 "of_int k"] by linarith
  then have "of_int k \<le> log 2 x" "log 2 x < of_int (k + 1)"
    using assms by (simp_all only: powr_le_iff less_powr_iff one_less_numeral_iff semiring_norm)
  then have "\<lfloor>log 2 x\<rfloor> = k" by linarith
  then show ?thesis using \<open>0 < x\<close> by (simp add: fl64_def exponent_def)
qed

lemma powr_two_numerals:
  "(2::real) powr 52 = 2 ^ 52" "(2::real) powr 53 = 2 ^ 53" "(2::real) powr 54 = 2 ^ 54" "(2::real) powr 55 = 2 ^ 55"
  using powr_realpow [of 2 52] powr_realpow [of 2 53] powr_realpow [of 2 54] powr_realpow [of 2 55] by simp_all

lemma fl64_03: "fl64 (3 / 10) = 5404319552844595 / 2 ^ 54"
  using fl64_eval [of "- 2" "3 / 10"]
  by (simp add: powr_minus powr_two_numerals round_even_def)

lemma fl64_02: "fl64 (1 / 5) = 3602879701896397 / 2 ^ 54"
  using fl64_eval [of "- 3" "1 / 5"]
  by (simp add: powr_minus powr_two_numerals round_even_def)

interpretation fl64: float_rounding fl64
proof
  fix n :: int assume "\<bar>n\<bar> \<le> 2 ^ 53"
  then show "fl64 (of_int n) = of_int n"
    using fl64_pos_int [of n] fl64_pos_int [of "- n"] fl64_minus [of "of_int n"]
    by (cases n "0 :: int" rule: linorder_cases) (auto simp: fl64_def)
qed (rule fl64_mono)

end
