(* ===== verification/Pqi.thy ===== *)
theory Pqi
  imports Float64
begin

text \<open>
  \<^verbatim>\<open>internal/mpquic/pqi\<close>: min-max normalization (\<^verbatim>\<open>normalization.go\<close>), the Path Quality Index and its
  EWMA estimator (\<^verbatim>\<open>estimator.go\<close>), and the hysteresis of the handover decision (\<^verbatim>\<open>recovery.go\<close>).

  A \<open>float64\<close> is a real number, and every floating-point operation of the source is followed by the
  rounding function \<open>fl\<close>, an argument of the definitions; the locale \<open>float_rounding\<close> of theory
  \<open>Float64\<close> states what is needed of it. Times and durations are integers in nanoseconds.
\<close>

section \<open>Normalization\<close>

definition MinMaxNormalize :: "(real \<Rightarrow> real) \<Rightarrow> real list \<Rightarrow> real list" where
  "MinMaxNormalize fl values =
     (case values of
        [] \<Rightarrow> []
      | v0 # _ \<Rightarrow>
          let mn = foldl (\<lambda>mn v. if v < mn then v else mn) v0 values;
              mx = foldl (\<lambda>mx v. if mx < v then v else mx) v0 values;
              rng = fl (mx - mn)
          in if rng = 0 then replicate (length values) 0
             else map (\<lambda>v. fl (fl (v - mn) / rng)) values)"

section \<open>Metrics, weights and the raw PQI\<close>

record metrics =
  met_RTT :: int
  met_LossRate :: real
  met_Bandwidth :: real

record weights =
  Alpha :: real
  Beta :: real
  Gamma :: real

definition DefaultWeights :: "(real \<Rightarrow> real) \<Rightarrow> weights" where
  "DefaultWeights fl = \<lparr>Alpha = fl 0.5, Beta = fl 0.3, Gamma = fl 0.2\<rparr>"

definition pqi_of :: "(real \<Rightarrow> real) \<Rightarrow> weights \<Rightarrow> real \<Rightarrow> real \<Rightarrow> real \<Rightarrow> real" where
  "pqi_of fl w rn losn bn =
     (let cost = fl (fl (fl (Alpha w * rn) + fl (Beta w * losn)) + fl (Gamma w * fl (1 - bn)))
      in fl (100 * fl (1 - cost)))"

definition ComputePQI :: "(real \<Rightarrow> real) \<Rightarrow> metrics list \<Rightarrow> weights \<Rightarrow> real list" where
  "ComputePQI fl m w =
     (let rn = MinMaxNormalize fl (map (\<lambda>x. fl (of_int (met_RTT x))) m);
          losn = MinMaxNormalize fl (map met_LossRate m);
          bn = MinMaxNormalize fl (map met_Bandwidth m)
      in map (\<lambda>i. pqi_of fl w (rn ! i) (losn ! i) (bn ! i)) [0..<length m])"

section \<open>Estimator\<close>

record estimator =
  lambda :: real
  window :: int
  est_value :: real
  est_init :: bool
  hist :: "real list"

definition NewEstimator :: "(real \<Rightarrow> real) \<Rightarrow> real \<Rightarrow> int \<Rightarrow> estimator" where
  "NewEstimator fl l w =
     \<lparr>lambda = (if l \<le> 0 \<or> 1 < l then fl 0.3 else l), window = (if w < 2 then 2 else w),
      est_value = 0, est_init = False, hist = []\<rparr>"

definition Update :: "(real \<Rightarrow> real) \<Rightarrow> real \<Rightarrow> estimator \<Rightarrow> estimator \<times> real" where
  "Update fl raw e =
     (let v = (if \<not> est_init e then raw
               else fl (fl (lambda e * raw) + fl (fl (1 - lambda e) * est_value e)));
          h = hist e @ [v];
          h' = (if int (length h) > window e then drop (nat (int (length h) - window e)) h else h)
      in (e\<lparr>est_value := v, est_init := True, hist := h'\<rparr>, v))"

definition Value :: "estimator \<Rightarrow> real" where
  "Value e = est_value e"

definition Trend :: "(real \<Rightarrow> real) \<Rightarrow> estimator \<Rightarrow> real" where
  "Trend fl e =
     (if length (hist e) < 2 then 0
      else fl (fl (hist e ! (length (hist e) - 1) - hist e ! 0) / of_nat (length (hist e) - 1)))"

section \<open>Handover hysteresis\<close>

record hysteresis_params =
  DegradationThreshold :: real
  SafetyMargin :: real
  StabilityInterval :: int

definition DefaultHysteresis :: hysteresis_params where
  "DefaultHysteresis = \<lparr>DegradationThreshold = 40, SafetyMargin = 10, StabilityInterval = 500 * 1000000\<rparr>"

record handover_controller =
  params :: hysteresis_params
  hasPending :: bool
  pendingTarget :: int
  pendingSince :: int

definition NewHandoverController :: "hysteresis_params \<Rightarrow> handover_controller" where
  "NewHandoverController p = \<lparr>params = p, hasPending = False, pendingTarget = 0, pendingSince = 0\<rparr>"

text \<open>The scan for the best index, started at \<open>active\<close>: the first index with the largest value, unless
  the active path already has it.\<close>

definition bestIndex :: "real list \<Rightarrow> nat \<Rightarrow> nat" where
  "bestIndex pqis start = foldl (\<lambda>best i. if pqis ! best < pqis ! i then i else best) start [0..<length pqis]"

definition handoverCond :: "(real \<Rightarrow> real) \<Rightarrow> hysteresis_params \<Rightarrow> nat \<Rightarrow> real list \<Rightarrow> bool" where
  "handoverCond fl p active pqis \<longleftrightarrow>
     (let best = bestIndex pqis active
      in pqis ! active < DegradationThreshold p \<and> best \<noteq> active \<and> SafetyMargin p < fl (pqis ! best - pqis ! active))"

definition Decide :: "(real \<Rightarrow> real) \<Rightarrow> int \<Rightarrow> real list \<Rightarrow> int \<Rightarrow> handover_controller \<Rightarrow> handover_controller \<times> int" where
  "Decide fl active pqis now c =
     (if active < 0 \<or> int (length pqis) \<le> active \<or> length pqis = 0 then (c, active)
      else
        let best = int (bestIndex pqis (nat active)) in
        if \<not> handoverCond fl (params c) (nat active) pqis then (c\<lparr>hasPending := False\<rparr>, active)
        else if \<not> hasPending c \<or> pendingTarget c \<noteq> best then
          (c\<lparr>hasPending := True, pendingTarget := best, pendingSince := now\<rparr>, active)
        else if StabilityInterval (params c) \<le> now - pendingSince c then (c\<lparr>hasPending := False\<rparr>, best)
        else (c, active))"

section \<open>Normalization is an increasing map into the unit interval\<close>

lemma foldl_min_Min: "foldl (\<lambda>mn v. if v < mn then v else mn) (a :: real) vs = Min (insert a (set vs))"
proof -
  have "(\<lambda>mn v. if v < mn then v else mn) = (\<lambda>mn v. min v (mn :: real))" by (auto simp: fun_eq_iff)
  then show ?thesis using Min.set_eq_fold [of a vs] by (simp add: foldl_conv_fold)
qed

lemma foldl_max_Max: "foldl (\<lambda>mx v. if mx < v then v else mx) (a :: real) vs = Max (insert a (set vs))"
proof -
  have "(\<lambda>mx v. if mx < v then v else mx) = (\<lambda>mx v. max v (mx :: real))" by (auto simp: fun_eq_iff max_def)
  then show ?thesis using Max.set_eq_fold [of a vs] by (simp add: foldl_conv_fold)
qed

text \<open>Normalization as a function of the value: one increasing map into the unit interval.\<close>

lemma length_MinMaxNormalize [simp]: "length (MinMaxNormalize fl vs) = length vs"
  by (simp add: MinMaxNormalize_def Let_def split: list.splits)

context float_rounding
begin

lemma normalize_map:
  "\<exists>g. MinMaxNormalize fl vs = map g vs \<and> (\<forall>v \<in> set vs. 0 \<le> g v \<and> g v \<le> 1) \<and>
     (\<forall>v \<in> set vs. \<forall>w \<in> set vs. v \<le> w \<longrightarrow> g v \<le> g w)"
proof (cases vs)
  case Nil
  then show ?thesis by (simp add: MinMaxNormalize_def)
next
  case (Cons v0 vs')
  define mn where "mn = foldl (\<lambda>mn v. if v < mn then v else mn) v0 vs"
  define mx where "mx = foldl (\<lambda>mx v. if mx < v then v else mx) v0 vs"
  have bounds: "\<forall>v \<in> set vs. mn \<le> v \<and> v \<le> mx"
    by (simp add: mn_def mx_def foldl_min_Min foldl_max_Max)
  then have rng0: "0 \<le> fl (mx - mn)" using Cons by (intro fl_nonneg) force
  show ?thesis
  proof (cases "fl (mx - mn) = 0")
    case True
    then have "MinMaxNormalize fl vs = map (\<lambda>_. 0) vs"
      using Cons by (simp add: MinMaxNormalize_def Let_def mn_def mx_def map_replicate_const)
    then show ?thesis by (intro exI [of _ "\<lambda>_. 0"]) simp
  next
    case False
    let ?g = "\<lambda>v. fl (fl (v - mn) / fl (mx - mn))"
    have "MinMaxNormalize fl vs = map ?g vs"
      using False Cons by (simp add: MinMaxNormalize_def Let_def mn_def mx_def)
    moreover have "0 \<le> ?g v \<and> ?g v \<le> 1" if "v \<in> set vs" for v
      using bounds that False rng0
      by (intro fl_unit) (auto simp: divide_le_eq_1 fl_nonneg intro!: divide_nonneg_nonneg fl_mono)
    moreover have "?g v \<le> ?g w" if "v \<le> w" for v w
      using that rng0 by (intro fl_mono divide_right_mono) auto
    ultimately show ?thesis by (intro exI [of _ ?g]) blast
  qed
qed

lemma normalize_extremes:
  assumes "fl (Max (set vs) - Min (set vs)) \<noteq> 0" and "i < length vs"
  shows "vs ! i = Min (set vs) \<Longrightarrow> MinMaxNormalize fl vs ! i = 0"
    and "vs ! i = Max (set vs) \<Longrightarrow> MinMaxNormalize fl vs ! i = 1"
proof -
  have "MinMaxNormalize fl vs = map (\<lambda>v. fl (fl (v - Min (set vs)) / fl (Max (set vs) - Min (set vs)))) vs"
  proof (cases vs)
    case Nil
    then show ?thesis using assms(2) by simp
  next
    case (Cons v0 vs')
    then have "insert v0 (set vs) = set vs" by auto
    then show ?thesis using Cons assms(1)
      unfolding MinMaxNormalize_def Let_def foldl_min_Min foldl_max_Max by auto
  qed
  then show "vs ! i = Min (set vs) \<Longrightarrow> MinMaxNormalize fl vs ! i = 0"
    and "vs ! i = Max (set vs) \<Longrightarrow> MinMaxNormalize fl vs ! i = 1"
    using assms by simp_all
qed

lemma pqi_of_bounds:
  assumes "0 \<le> Alpha w" "0 \<le> Beta w" "0 \<le> Gamma w"
    and "fl (fl (fl (Alpha w) + fl (Beta w)) + fl (Gamma w)) \<le> 1"
    and "0 \<le> rn" "rn \<le> 1" "0 \<le> losn" "losn \<le> 1" "0 \<le> bn" "bn \<le> 1"
  shows "0 \<le> pqi_of fl w rn losn bn \<and> pqi_of fl w rn losn bn \<le> 100"
proof -
  let ?bw = "fl (1 - bn)"
  let ?c = "fl (fl (fl (Alpha w * rn) + fl (Beta w * losn)) + fl (Gamma w * ?bw))"
  have bw: "0 \<le> ?bw \<and> ?bw \<le> 1" using assms(9,10) by (intro fl_unit) auto
  have "?c \<le> fl (fl (fl (Alpha w * 1) + fl (Beta w * 1)) + fl (Gamma w * 1))"
    using assms bw by (intro fl_add_mono fl_mult_mono) auto
  then have "?c \<le> 1" using assms(4) by simp
  moreover have "0 \<le> ?c" using assms bw by (intro fl_nonneg add_nonneg_nonneg mult_nonneg_nonneg) auto
  ultimately have u: "0 \<le> fl (1 - ?c) \<and> fl (1 - ?c) \<le> 1" by (intro fl_unit) auto
  then have "fl (100 * fl (1 - ?c)) \<le> fl 100" by (intro fl_mono) auto
  moreover have "0 \<le> fl (100 * fl (1 - ?c))" using u by (intro fl_nonneg) auto
  ultimately show ?thesis by (simp add: pqi_of_def Let_def)
qed

lemma pqi_of_mono:
  assumes "0 \<le> Alpha w" "0 \<le> Beta w" "0 \<le> Gamma w"
    and "rn \<le> rn'" "losn \<le> losn'" "bn' \<le> bn"
  shows "pqi_of fl w rn' losn' bn' \<le> pqi_of fl w rn losn bn"
proof -
  have "fl (fl (fl (Alpha w * rn) + fl (Beta w * losn)) + fl (Gamma w * fl (1 - bn)))
      \<le> fl (fl (fl (Alpha w * rn') + fl (Beta w * losn')) + fl (Gamma w * fl (1 - bn')))"
    using assms by (intro fl_add_mono fl_mult_mono fl_mono [of "1 - bn"]) auto
  then show ?thesis unfolding pqi_of_def Let_def
    by (intro fl_mono mult_left_mono) (auto intro: fl_mono)
qed

text \<open>The three normalized metrics of all paths, as functions of the path.\<close>

lemma ComputePQI_map:
  obtains r l b where "ComputePQI fl m w = map (\<lambda>x. pqi_of fl w (r x) (l x) (b x)) m"
    and "\<forall>x \<in> set m. 0 \<le> r x \<and> r x \<le> 1 \<and> 0 \<le> l x \<and> l x \<le> 1 \<and> 0 \<le> b x \<and> b x \<le> 1"
    and "\<forall>x \<in> set m. \<forall>y \<in> set m. (met_RTT x \<le> met_RTT y \<longrightarrow> r x \<le> r y) \<and>
        (met_LossRate x \<le> met_LossRate y \<longrightarrow> l x \<le> l y) \<and> (met_Bandwidth x \<le> met_Bandwidth y \<longrightarrow> b x \<le> b y)"
proof -
  let ?rtt = "\<lambda>x. fl (of_int (met_RTT x))"
  obtain r where r: "MinMaxNormalize fl (map ?rtt m) = map r (map ?rtt m)"
      "\<forall>v \<in> set (map ?rtt m). 0 \<le> r v \<and> r v \<le> 1"
      "\<forall>v \<in> set (map ?rtt m). \<forall>w \<in> set (map ?rtt m). v \<le> w \<longrightarrow> r v \<le> r w"
    using normalize_map by blast
  obtain l where l: "MinMaxNormalize fl (map met_LossRate m) = map l (map met_LossRate m)"
      "\<forall>v \<in> set (map met_LossRate m). 0 \<le> l v \<and> l v \<le> 1"
      "\<forall>v \<in> set (map met_LossRate m). \<forall>w \<in> set (map met_LossRate m). v \<le> w \<longrightarrow> l v \<le> l w"
    using normalize_map by blast
  obtain b where b: "MinMaxNormalize fl (map met_Bandwidth m) = map b (map met_Bandwidth m)"
      "\<forall>v \<in> set (map met_Bandwidth m). 0 \<le> b v \<and> b v \<le> 1"
      "\<forall>v \<in> set (map met_Bandwidth m). \<forall>w \<in> set (map met_Bandwidth m). v \<le> w \<longrightarrow> b v \<le> b w"
    using normalize_map by blast
  have "ComputePQI fl m w =
      map (\<lambda>x. pqi_of fl w (r (?rtt x)) (l (met_LossRate x)) (b (met_Bandwidth x))) m"
    unfolding ComputePQI_def r(1) l(1) b(1) Let_def by (rule nth_equalityI) simp_all
  moreover have "\<forall>x \<in> set m. 0 \<le> r (?rtt x) \<and> r (?rtt x) \<le> 1 \<and> 0 \<le> l (met_LossRate x) \<and> l (met_LossRate x) \<le> 1 \<and>
      0 \<le> b (met_Bandwidth x) \<and> b (met_Bandwidth x) \<le> 1"
    using r(2) l(2) b(2) by simp
  moreover have "\<forall>x \<in> set m. \<forall>y \<in> set m. (met_RTT x \<le> met_RTT y \<longrightarrow> r (?rtt x) \<le> r (?rtt y)) \<and>
      (met_LossRate x \<le> met_LossRate y \<longrightarrow> l (met_LossRate x) \<le> l (met_LossRate y)) \<and>
      (met_Bandwidth x \<le> met_Bandwidth y \<longrightarrow> b (met_Bandwidth x) \<le> b (met_Bandwidth y))"
    using r(3) l(3) b(3) by (auto simp: fl_mono)
  ultimately show ?thesis
    by (rule that [of "\<lambda>x. r (?rtt x)" "\<lambda>x. l (met_LossRate x)" "\<lambda>x. b (met_Bandwidth x)"])
qed

lemma ComputePQI_range:
  assumes "0 \<le> Alpha w" "0 \<le> Beta w" "0 \<le> Gamma w"
    and "fl (fl (fl (Alpha w) + fl (Beta w)) + fl (Gamma w)) \<le> 1" and "v \<in> set (ComputePQI fl m w)"
  shows "0 \<le> v \<and> v \<le> 100"
  by (rule ComputePQI_map [of m w]) (use assms(5) pqi_of_bounds [OF assms(1-4)] in auto)

lemma ComputePQI_dominance:
  assumes "0 \<le> Alpha w" "0 \<le> Beta w" "0 \<le> Gamma w" and "i < length m" and "j < length m"
    and "met_RTT (m ! i) \<le> met_RTT (m ! j)" and "met_LossRate (m ! i) \<le> met_LossRate (m ! j)"
    and "met_Bandwidth (m ! j) \<le> met_Bandwidth (m ! i)"
  shows "ComputePQI fl m w ! j \<le> ComputePQI fl m w ! i"
  by (rule ComputePQI_map [of m w]) (use assms in \<open>auto intro!: pqi_of_mono [OF assms(1-3)]\<close>)

end

section \<open>The index with the default weights\<close>

text \<open>Binary64 arithmetic on the default constants, evaluated exactly.\<close>

lemma default_weights_sum:
  "fl64 (fl64 (fl64 (Alpha (DefaultWeights fl64)) + fl64 (Beta (DefaultWeights fl64)))
     + fl64 (Gamma (DefaultWeights fl64))) = 1"
proof -
  have half: "fl64 (1 / 2) = 1 / 2"
    using fl64_eval [of "- 1" "1 / 2"] by (simp add: powr_minus powr_two_numerals round_even_def)
  have idem3: "fl64 (5404319552844595 / 2 ^ 54) = 5404319552844595 / 2 ^ 54"
    using fl64_eval [of "- 2" "5404319552844595 / 2 ^ 54"] by (simp add: powr_minus powr_two_numerals round_even_def)
  have idem2: "fl64 (3602879701896397 / 2 ^ 54) = 3602879701896397 / 2 ^ 54"
    using fl64_eval [of "- 3" "3602879701896397 / 2 ^ 54"] by (simp add: powr_minus powr_two_numerals round_even_def)
  have "fl64 (1 / 2 + 5404319552844595 / 2 ^ 54) = 7205759403792794 / 2 ^ 53"
    using fl64_eval [of "- 1" "1 / 2 + 5404319552844595 / 2 ^ 54"]
    by (simp add: powr_minus powr_two_numerals round_even_def)
  moreover have "fl64 (7205759403792794 / 2 ^ 53 + 3602879701896397 / 2 ^ 54) = 1"
    using fl64_eval [of 0 "7205759403792794 / 2 ^ 53 + 3602879701896397 / 2 ^ 54"]
    by (simp add: powr_minus powr_two_numerals round_even_def)
  ultimately show ?thesis
    by (simp add: DefaultWeights_def fl64_03 fl64_02 half idem3 idem2 del: power_numeral)
qed

lemma default_weights_nonneg:
  "0 \<le> Alpha (DefaultWeights fl64)" "0 \<le> Beta (DefaultWeights fl64)" "0 \<le> Gamma (DefaultWeights fl64)"
  by (simp_all add: DefaultWeights_def fl64.fl_nonneg)

text \<open>
  With the default weights, every raw PQI lies between 0 and 100, in binary64 arithmetic with
  all its roundings and whatever the metrics of the paths are.
\<close>

theorem ComputePQI_default_bounds:
  "\<forall>v \<in> set (ComputePQI fl64 m (DefaultWeights fl64)). 0 \<le> v \<and> v \<le> 100"
  using fl64.ComputePQI_range [OF default_weights_nonneg] default_weights_sum by simp

theorem ComputePQI_default_bounds_witness:
  "list_all (\<lambda>v. 0 \<le> v \<and> v \<le> 100)
     (ComputePQI fl64 [\<lparr>met_RTT = 5, met_LossRate = 0, met_Bandwidth = 7\<rparr>, \<lparr>met_RTT = 9, met_LossRate = 1, met_Bandwidth = 3\<rparr>]
        (DefaultWeights fl64))"
  unfolding list_all_iff by (rule ComputePQI_default_bounds)

text \<open>
  C32: ranking is sound. A path that is at least as good as another in all three metrics never gets
  a lower PQI, for any non-negative weights, rounding included.
\<close>

theorem ComputePQI_respects_dominance:
  assumes "0 \<le> Alpha w" "0 \<le> Beta w" "0 \<le> Gamma w" and "i < length m" and "j < length m"
    and "met_RTT (m ! i) \<le> met_RTT (m ! j)" and "met_LossRate (m ! i) \<le> met_LossRate (m ! j)"
    and "met_Bandwidth (m ! j) \<le> met_Bandwidth (m ! i)"
  shows "ComputePQI fl64 m w ! j \<le> ComputePQI fl64 m w ! i"
  using assms by (rule fl64.ComputePQI_dominance)

theorem ComputePQI_respects_dominance_witness:
  "ComputePQI fl64 [\<lparr>met_RTT = 5, met_LossRate = 0, met_Bandwidth = 9\<rparr>,
       \<lparr>met_RTT = 6, met_LossRate = 1, met_Bandwidth = 7\<rparr>] \<lparr>Alpha = 1, Beta = 0, Gamma = 0\<rparr> ! 1
   \<le> ComputePQI fl64 [\<lparr>met_RTT = 5, met_LossRate = 0, met_Bandwidth = 9\<rparr>,
       \<lparr>met_RTT = 6, met_LossRate = 1, met_Bandwidth = 7\<rparr>] \<lparr>Alpha = 1, Beta = 0, Gamma = 0\<rparr> ! 0"
  by (rule ComputePQI_respects_dominance) simp_all

section \<open>The estimator\<close>

definition wf_estimator :: "estimator \<Rightarrow> bool" where
  "wf_estimator e \<longleftrightarrow> 2 \<le> window e \<and> 0 < lambda e \<and> lambda e \<le> 1 \<and> int (length (hist e)) \<le> window e \<and>
     est_init e = (hist e \<noteq> []) \<and> (hist e \<noteq> [] \<longrightarrow> last (hist e) = est_value e)"

lemma wf_NewEstimator [wf_intros]: "wf_estimator (NewEstimator fl64 l w)"
  by (simp add: wf_estimator_def NewEstimator_def fl64_03)

lemma wf_Update [wf_intros]: "wf_estimator e \<Longrightarrow> wf_estimator (fst (Update fl raw e))"
  by (auto simp: wf_estimator_def Update_def Let_def last_drop)

lemma Update_frame: "lambda (fst (Update fl raw e)) = lambda e" "window (fst (Update fl raw e)) = window e"
  by (simp_all add: Update_def Let_def)

lemma Update_value: "Value (fst (Update fl raw e)) = snd (Update fl raw e)"
  by (simp add: Update_def Value_def Let_def)

lemma default_lambda_step: "fl64 (fl64 (fl64 (3 / 10) * 100) + fl64 (fl64 (1 - fl64 (3 / 10)) * 100)) = 100"
proof -
  have "fl64 (5404319552844595 / 2 ^ 54 * 100) = 30"
    using fl64_eval [of 4 "5404319552844595 / 2 ^ 54 * 100"] powr_realpow [of 2 48]
    by (simp add: powr_minus powr_two_numerals round_even_def)
  moreover have "fl64 (1 - 5404319552844595 / 2 ^ 54) = 6305039478318694 / 2 ^ 53"
    using fl64_eval [of "- 1" "1 - 5404319552844595 / 2 ^ 54"]
    by (simp add: powr_minus powr_two_numerals round_even_def)
  moreover have "fl64 (6305039478318694 / 2 ^ 53 * 100) = 70"
    using fl64_eval [of 6 "6305039478318694 / 2 ^ 53 * 100"] powr_realpow [of 2 46] powr_realpow [of 2 7]
    by (simp add: powr_minus powr_two_numerals round_even_def)
  ultimately show ?thesis by (simp add: fl64_03 del: power_numeral)
qed

lemma Update_bounded:
  assumes "lambda e = fl64 (3 / 10)" and "0 \<le> raw" "raw \<le> 100" and "0 \<le> est_value e" "est_value e \<le> 100"
  shows "0 \<le> snd (Update fl64 raw e) \<and> snd (Update fl64 raw e) \<le> 100"
proof -
  let ?l = "fl64 (3 / 10)" and ?m = "fl64 (1 - fl64 (3 / 10))"
  have nn: "0 \<le> ?l" "0 \<le> ?m" by (auto simp: fl64_03 intro!: fl64.fl_nonneg)
  then have "fl64 (fl64 (?l * raw) + fl64 (?m * est_value e)) \<le> fl64 (fl64 (?l * 100) + fl64 (?m * 100))"
    using assms by (intro fl64.fl_add_mono fl64.fl_mult_mono) auto
  moreover have "0 \<le> fl64 (?l * raw)" "0 \<le> fl64 (?m * est_value e)"
    using assms nn by (simp_all add: fl64.fl_nonneg)
  then have "0 \<le> fl64 (fl64 (?l * raw) + fl64 (?m * est_value e))" by (simp add: fl64.fl_nonneg)
  ultimately show ?thesis
    using assms default_lambda_step by (simp add: Update_def Let_def)
qed

text \<open>A run of the estimator over a sequence of raw values, with the smoothed values it returned.\<close>

primrec updates :: "(real \<Rightarrow> real) \<Rightarrow> real list \<Rightarrow> estimator \<Rightarrow> estimator \<times> real list" where
  "updates fl [] e = (e, [])"
| "updates fl (raw # raws) e =
     (let (e1, v) = Update fl raw e; (e2, vs) = updates fl raws e1 in (e2, v # vs))"

lemma updates_bounded:
  "lambda e = fl64 (3 / 10) \<Longrightarrow> 0 \<le> est_value e \<Longrightarrow> est_value e \<le> 100 \<Longrightarrow> wf_estimator e \<Longrightarrow>
   \<forall>raw \<in> set raws. 0 \<le> raw \<and> raw \<le> 100 \<Longrightarrow>
     (\<forall>v \<in> set (snd (updates fl64 raws e)). 0 \<le> v \<and> v \<le> 100) \<and> wf_estimator (fst (updates fl64 raws e))"
proof (induction raws arbitrary: e)
  case Nil
  then show ?case by simp
next
  case (Cons raw raws)
  obtain e1 v where e1: "Update fl64 raw e = (e1, v)" by (cases "Update fl64 raw e")
  then have "lambda e1 = fl64 (3 / 10)" "est_value e1 = v" "wf_estimator e1" "0 \<le> v \<and> v \<le> 100"
    using Cons.prems Update_frame [of fl64 raw e] Update_value [of fl64 raw e] wf_Update [of e fl64 raw]
      Update_bounded [of e raw] by (simp_all add: Value_def)
  then show ?case using Cons.IH [of e1] Cons.prems e1 by (auto split: prod.splits)
qed

text \<open>
  C33: an estimator with the default smoothing factor, fed raw PQI values between 0 and 100, returns
  only smoothed values between 0 and 100, and never keeps more history than its window, however
  long it runs (binary64 roundings included).
\<close>

theorem estimator_stays_in_range:
  assumes "\<forall>raw \<in> set raws. 0 \<le> raw \<and> raw \<le> 100"
  shows "(\<forall>v \<in> set (snd (updates fl64 raws (NewEstimator fl64 (fl64 (3 / 10)) w))). 0 \<le> v \<and> v \<le> 100) \<and>
    int (length (hist (fst (updates fl64 raws (NewEstimator fl64 (fl64 (3 / 10)) w)))))
      \<le> window (fst (updates fl64 raws (NewEstimator fl64 (fl64 (3 / 10)) w)))"
proof -
  let ?e = "NewEstimator fl64 (fl64 (3 / 10)) w"
  have "lambda ?e = fl64 (3 / 10)" "est_value ?e = 0" by (simp_all add: NewEstimator_def)
  from updates_bounded [OF this(1) _ _ wf_NewEstimator assms] this(2) show ?thesis
    by (simp add: wf_estimator_def)
qed

theorem estimator_stays_in_range_witness:
  "list_all (\<lambda>v. 0 \<le> v \<and> v \<le> 100) (snd (updates fl64 [100, 0, 50] (NewEstimator fl64 (fl64 (3 / 10)) 2))) \<and>
    int (length (hist (fst (updates fl64 [100, 0, 50] (NewEstimator fl64 (fl64 (3 / 10)) 2)))))
      \<le> window (fst (updates fl64 [100, 0, 50] (NewEstimator fl64 (fl64 (3 / 10)) 2)))"
  unfolding list_all_iff by (rule estimator_stays_in_range) simp

section \<open>The handover decision\<close>

lemma bestIndex_fold:
  "set is \<subseteq> {..<length pqis} \<Longrightarrow> start < length pqis \<Longrightarrow>
   (let b = foldl (\<lambda>best i. if pqis ! best < pqis ! i then i else best) start is
    in b < length pqis \<and> pqis ! start \<le> pqis ! b \<and> (\<forall>i \<in> set is. pqis ! i \<le> pqis ! b))"
  for pqis :: "real list"
proof (induction "is" arbitrary: start)
  case Nil
  then show ?case by simp
next
  case (Cons i "is")
  show ?case
    using Cons.IH [of "if pqis ! start < pqis ! i then i else start"] Cons.prems
    by (auto simp: Let_def split: if_splits)
qed

lemma bestIndex_max:
  assumes "start < length pqis"
  shows "bestIndex pqis start < length pqis" and "i < length pqis \<Longrightarrow> pqis ! i \<le> pqis ! bestIndex pqis start"
  using bestIndex_fold [of "[0..<length pqis]" pqis start] assms
  by (auto simp: bestIndex_def Let_def atLeast0LessThan)

lemma Decide_valid:
  "a < length pqis \<Longrightarrow> Decide fl (int a) pqis now c =
     (if \<not> handoverCond fl (params c) a pqis then (c\<lparr>hasPending := False\<rparr>, int a)
      else if \<not> hasPending c \<or> pendingTarget c \<noteq> int (bestIndex pqis a) then
        (c\<lparr>hasPending := True, pendingTarget := int (bestIndex pqis a), pendingSince := now\<rparr>, int a)
      else if StabilityInterval (params c) \<le> now - pendingSince c then (c\<lparr>hasPending := False\<rparr>, int (bestIndex pqis a))
      else (c, int a))"
  by (auto simp: Decide_def Let_def)

lemma Decide_index:
  "a < length pqis \<Longrightarrow> snd (Decide fl (int a) pqis now c) \<in> {int a, int (bestIndex pqis a)}"
  by (auto simp: Decide_valid)

lemma Decide_params: "params (fst (Decide fl a pqis now c)) = params c"
  by (simp add: Decide_def Let_def)

text \<open>The controller after a series of observations (values and time), with the same active path.\<close>

definition observe :: "(real \<Rightarrow> real) \<Rightarrow> nat \<Rightarrow> (real list \<times> int) list \<Rightarrow> handover_controller \<Rightarrow> handover_controller" where
  "observe fl a obs c = foldl (\<lambda>c ob. fst (Decide fl (int a) (fst ob) (snd ob) c)) c obs"

lemma observe_params: "params (observe fl a obs c) = params c"
  by (induction obs arbitrary: c) (simp_all add: observe_def Decide_params)

lemma observe_snoc: "observe fl a (obs @ [ob]) c = fst (Decide fl (int a) (fst ob) (snd ob) (observe fl a obs c))"
  by (simp add: observe_def)

definition steady :: "(real \<Rightarrow> real) \<Rightarrow> hysteresis_params \<Rightarrow> nat \<Rightarrow> nat \<Rightarrow> (real list \<times> int) list \<Rightarrow> bool" where
  "steady fl hp a b obs \<longleftrightarrow> (\<forall>ob \<in> set obs. handoverCond fl hp a (fst ob) \<and> bestIndex (fst ob) a = b)"

text \<open>A pending handover is justified by a steady suffix of the observations that starts at \<open>pendingSince\<close>.\<close>

definition justified :: "(real \<Rightarrow> real) \<Rightarrow> nat \<Rightarrow> (real list \<times> int) list \<Rightarrow> handover_controller \<Rightarrow> bool" where
  "justified fl a obs c \<longleftrightarrow> (hasPending c \<longrightarrow>
     (\<exists>pre ob suf b. obs = pre @ ob # suf \<and> snd ob = pendingSince c \<and> pendingTarget c = int b \<and>
        steady fl (params c) a b (ob # suf)))"

lemma justifiedI:
  "obs = pre @ ob # suf \<Longrightarrow> snd ob = pendingSince c \<Longrightarrow> pendingTarget c = int b \<Longrightarrow>
     steady fl (params c) a b (ob # suf) \<Longrightarrow> justified fl a obs c"
  unfolding justified_def by blast

lemma justified_Decide:
  assumes "justified fl a obs c" and "a < length (fst ob)"
  shows "justified fl a (obs @ [ob]) (fst (Decide fl (int a) (fst ob) (snd ob) c))"
proof (cases "handoverCond fl (params c) a (fst ob)")
  case False
  then show ?thesis using assms(2) by (simp add: justified_def Decide_valid)
next
  case cond: True
  show ?thesis
  proof (cases "hasPending c \<and> pendingTarget c = int (bestIndex (fst ob) a)")
    case True
    then obtain pre ob0 suf b where "obs = pre @ ob0 # suf" "snd ob0 = pendingSince c"
        "pendingTarget c = int b" "steady fl (params c) a b (ob0 # suf)"
      using assms(1) unfolding justified_def by blast
    then have keep: "justified fl a (obs @ [ob]) c"
      using True cond by (intro justifiedI [of _ pre ob0 "suf @ [ob]" c b]) (auto simp: steady_def)
    have "fst (Decide fl (int a) (fst ob) (snd ob) c) = c \<or>
        \<not> hasPending (fst (Decide fl (int a) (fst ob) (snd ob) c))"
      using True cond assms(2) by (auto simp: Decide_valid)
    then show ?thesis
    proof
      assume "fst (Decide fl (int a) (fst ob) (snd ob) c) = c"
      then show ?thesis using keep by simp
    qed (simp add: justified_def)
  next
    case False
    then have "fst (Decide fl (int a) (fst ob) (snd ob) c) =
        c\<lparr>hasPending := True, pendingTarget := int (bestIndex (fst ob) a), pendingSince := snd ob\<rparr>"
      using cond assms(2) by (auto simp: Decide_valid)
    then show ?thesis
      using cond by (intro justifiedI [of _ obs ob "[]" _ "bestIndex (fst ob) a"]) (auto simp: steady_def)
  qed
qed

lemma justified_observe:
  assumes "\<forall>ob \<in> set obs. a < length (fst ob)"
  shows "justified fl a obs (observe fl a obs (NewHandoverController hp))"
  using assms
proof (induction obs rule: rev_induct)
  case Nil
  then show ?case by (simp add: observe_def justified_def NewHandoverController_def)
next
  case (snoc ob obs)
  then show ?case by (simp add: observe_snoc justified_Decide)
qed

text \<open>
  C18: no flapping. If the controller, after any series of observations with the same active path,
  decides at time \<open>t\<close> to leave that path, then it moves to the best path, the active path is below the
  degradation threshold and worse by more than the margin, and this has been so, with the same best
  path, at every observation since one that lies at least the stability interval back.
\<close>

theorem Decide_switch_is_stable:
  assumes "\<forall>ob \<in> set obs. a < length (fst ob)" and "a < length pqis"
    and "snd (Decide fl (int a) pqis t (observe fl a obs (NewHandoverController hp))) \<noteq> int a"
  shows "snd (Decide fl (int a) pqis t (observe fl a obs (NewHandoverController hp))) = int (bestIndex pqis a) \<and>
    handoverCond fl hp a pqis \<and>
    (\<exists>pre ob suf. obs = pre @ ob # suf \<and> StabilityInterval hp \<le> t - snd ob \<and>
       steady fl hp a (bestIndex pqis a) (ob # suf))"
proof -
  let ?c = "observe fl a obs (NewHandoverController hp)"
  have hp: "params ?c = hp" by (simp add: observe_params NewHandoverController_def)
  have sw: "handoverCond fl hp a pqis" "hasPending ?c" "pendingTarget ?c = int (bestIndex pqis a)"
      "StabilityInterval hp \<le> t - pendingSince ?c"
    using assms(2,3) hp by (auto simp: Decide_valid split: if_splits)
  then have "snd (Decide fl (int a) pqis t ?c) = int (bestIndex pqis a)"
    using assms(2) hp by (simp add: Decide_valid)
  moreover obtain pre ob suf where "obs = pre @ ob # suf" "snd ob = pendingSince ?c"
      "steady fl hp a (bestIndex pqis a) (ob # suf)"
    using justified_observe [OF assms(1), of fl hp] sw(2,3) hp unfolding justified_def by auto
  ultimately show ?thesis using sw by metis
qed

text \<open>
  C34: a handover that is due does happen. If the condition has held for the same better path at
  every observation since time \<open>t0\<close>, none of them late enough to switch, then the first decision
  at or after \<open>t0\<close> plus the stability interval moves to that path.
\<close>

theorem Decide_switches_when_due:
  assumes "steady fl hp a b ((p0, t0) # obs @ [(pqis, t)])"
    and "\<forall>ob \<in> set ((p0, t0) # obs @ [(pqis, t)]). a < length (fst ob)"
    and "\<forall>ob \<in> set obs. snd ob - t0 < StabilityInterval hp" and "StabilityInterval hp \<le> t - t0"
  shows "snd (Decide fl (int a) pqis t (observe fl a ((p0, t0) # obs) (NewHandoverController hp))) = int b"
proof -
  let ?c = "\<lparr>params = hp, hasPending = True, pendingTarget = int b, pendingSince = t0\<rparr>"
  have first: "fst (Decide fl (int a) p0 t0 (NewHandoverController hp)) = ?c"
    using assms(1,2) by (simp add: Decide_valid NewHandoverController_def steady_def)
  have "observe fl a os ?c = ?c" if "set os \<subseteq> set obs" for os
    using that
  proof (induction os)
    case Nil
    show ?case by (simp add: observe_def)
  next
    case (Cons ob os)
    then have "fst (Decide fl (int a) (fst ob) (snd ob) ?c) = ?c"
      using assms by (auto simp: Decide_valid steady_def)
    then show ?case using Cons by (simp add: observe_def)
  qed
  then have "observe fl a ((p0, t0) # obs) (NewHandoverController hp) = ?c"
    using first by (simp add: observe_def)
  then show ?thesis using assms by (simp add: Decide_valid steady_def)
qed

text \<open>Witnesses: one active path of quality 10 and a candidate of quality 90, observed at times 0 and 600 ms.\<close>

lemma default_interval: "StabilityInterval DefaultHysteresis = 500000000"
  by (simp add: DefaultHysteresis_def)

lemma example_condition:
  "handoverCond fl64 DefaultHysteresis 0 [10, 90]" "bestIndex [10, 90] 0 = 1"
  using fl64.fl_int [of 80]
  by (simp_all add: handoverCond_def bestIndex_def DefaultHysteresis_def upt_rec)

theorem Decide_switches_when_due_witness:
  "snd (Decide fl64 (int 0) [10, 90] 600000000
     (observe fl64 0 (([10, 90], 0) # []) (NewHandoverController DefaultHysteresis))) = int 1"
  by (rule Decide_switches_when_due) (auto simp: steady_def example_condition default_interval)

theorem Decide_switch_is_stable_witness:
  "snd (Decide fl64 (int 0) [10, 90] 600000000 (observe fl64 0 [([10, 90], 0)] (NewHandoverController DefaultHysteresis)))
      = int (bestIndex [10, 90] 0) \<and>
    handoverCond fl64 DefaultHysteresis 0 [10, 90] \<and>
    (\<exists>pre ob suf. [([10, 90], 0)] = pre @ ob # suf \<and> StabilityInterval DefaultHysteresis \<le> 600000000 - snd ob \<and>
       steady fl64 DefaultHysteresis 0 (bestIndex [10, 90] 0) (ob # suf))"
proof (rule Decide_switch_is_stable)
  show "snd (Decide fl64 (int 0) [10, 90] 600000000
      (observe fl64 0 [([10, 90], 0)] (NewHandoverController DefaultHysteresis))) \<noteq> int 0"
    using Decide_valid [of 0 "[10, 90]" fl64] example_condition
    by (simp add: observe_def NewHandoverController_def default_interval)
qed simp_all

end
