(* ===== verification/Scheduler.thy ===== *)
theory Scheduler
  imports Path_Manager Pqi "HOL-Library.Product_Lexorder"
begin

text \<open>
  \<^verbatim>\<open>internal/mpquic/scheduler\<close>: the four path schedulers (\<^verbatim>\<open>scheduler.go\<close>, \<^verbatim>\<open>baselines.go\<close>,
  \<^verbatim>\<open>pqi_scheduler.go\<close>) and the factory (\<^verbatim>\<open>factory.go\<close>). \<open>SelectPath\<close> returns \<open>(State, bool)\<close> in Go;
  here it is \<open>Some s\<close> for \<open>(s, true)\<close> and \<open>None\<close> for \<open>(State{}, false)\<close>. The locale
  \<open>path_scheduler\<close> is the contract of the Go interface \<open>Scheduler\<close>; every scheduler is an instance.
\<close>

section \<open>Schedulable paths\<close>

definition schedulable :: "path_state \<Rightarrow> bool" where
  "schedulable p = (if \<not> Validated p then False else Status p = StatusActive \<or> Status p = StatusAvailable)"

section \<open>The RSSI scheduler\<close>

definition betterFallback :: "path_state \<Rightarrow> path_state \<Rightarrow> bool" where
  "betterFallback candidate current =
     (if Status candidate \<noteq> Status current then Status candidate = StatusActive else ID candidate < ID current)"

definition betterRSSI :: "path_state \<Rightarrow> path_state \<Rightarrow> bool" where
  "betterRSSI candidate current =
     (if RSSI candidate \<noteq> RSSI current then RSSI current < RSSI candidate else betterFallback candidate current)"

text \<open>One iteration of the loop on \<open>(best, fallback)\<close>; \<open>None\<close> is an unset \<open>bestSet\<close> or \<open>fallbackSet\<close>.\<close>

definition primaryStep :: "path_state option \<times> path_state option \<Rightarrow> path_state \<Rightarrow> path_state option \<times> path_state option" where
  "primaryStep acc candidate =
     (if \<not> Validated candidate then acc
      else if Status candidate \<noteq> StatusActive \<and> Status candidate \<noteq> StatusAvailable then acc
      else
        let fallback = (case snd acc of
              None \<Rightarrow> Some candidate
            | Some f \<Rightarrow> if betterFallback candidate f then Some candidate else Some f)
        in if \<not> HasRSSI candidate then (fst acc, fallback)
           else
             ((case fst acc of
                 None \<Rightarrow> Some candidate
               | Some b \<Rightarrow> if betterRSSI candidate b then Some candidate else Some b), fallback))"

definition PrimarySelectPath :: "path_state list \<Rightarrow> path_state option" where
  "PrimarySelectPath ps =
     (let (best, fallback) = foldl primaryStep (None, None) ps
      in case best of Some b \<Rightarrow> Some b | None \<Rightarrow> fallback)"

section \<open>The lowest-RTT scheduler\<close>

definition minRTTStep :: "path_state option \<Rightarrow> path_state \<Rightarrow> path_state option" where
  "minRTTStep best p =
     (if \<not> schedulable p then best
      else case best of
        None \<Rightarrow> Some p
      | Some b \<Rightarrow>
          if HasMetrics p \<and> (\<not> HasMetrics b \<or> RTT p < RTT b) then Some p
          else if \<not> HasMetrics b \<and> \<not> HasMetrics p \<and> ID p < ID b then Some p
          else Some b)"

definition MinRTTSelectPath :: "path_state list \<Rightarrow> path_state option" where
  "MinRTTSelectPath ps = foldl minRTTStep None ps"

section \<open>The round-robin scheduler\<close>

text \<open>The call counter \<open>next\<close> is a Go \<open>int\<close>; its overflow after \<open>2 ^ 63\<close> calls is not modelled.\<close>

definition RoundRobinSelectPath :: "nat \<Rightarrow> path_state list \<Rightarrow> nat \<times> path_state option" where
  "RoundRobinSelectPath nxt ps =
     (let cand = filter schedulable ps
      in if cand = [] then (nxt, None) else (nxt + 1, Some (cand ! (nxt mod length cand))))"

section \<open>The PQI scheduler\<close>

record pqi_config =
  Weights :: weights
  Lambda :: real
  Window :: int
  Hyst :: hysteresis_params

definition DefaultPQIConfig :: "(real \<Rightarrow> real) \<Rightarrow> pqi_config" where
  "DefaultPQIConfig fl =
     \<lparr>Weights = DefaultWeights fl, Lambda = fl 0.3, Window = 10, Hyst = DefaultHysteresis\<rparr>"

record pqi_scheduler =
  cfg :: pqi_config
  estimators :: "(path_id, estimator) gomap"
  controller :: handover_controller
  active :: path_id
  hasActive :: bool

definition NewPQIScheduler :: "pqi_config \<Rightarrow> pqi_scheduler" where
  "NewPQIScheduler c =
     \<lparr>cfg = c, estimators = [], controller = NewHandoverController (Hyst c), active = 0, hasActive = False\<rparr>"

definition estimatorFor :: "(real \<Rightarrow> real) \<Rightarrow> pqi_config \<Rightarrow> path_id \<Rightarrow> (path_id, estimator) gomap \<Rightarrow> (path_id, estimator) gomap \<times> estimator" where
  "estimatorFor fl c pid es =
     (case map_of es pid of
        Some e \<Rightarrow> (es, e)
      | None \<Rightarrow> let e = NewEstimator fl (Lambda c) (Window c) in (AList.update pid e es, e))"

text \<open>The loop \<open>smoothed[i] = s.estimatorFor(p.ID).Update(raw[i])\<close>; \<open>Update\<close> writes through the pointer in the map.\<close>

fun smoothAll :: "(real \<Rightarrow> real) \<Rightarrow> pqi_config \<Rightarrow> (path_state \<times> real) list \<Rightarrow> (path_id, estimator) gomap \<Rightarrow> (path_id, estimator) gomap \<times> real list" where
  "smoothAll fl c [] es = (es, [])"
| "smoothAll fl c ((p, raw) # rest) es =
     (let (es1, e) = estimatorFor fl c (ID p) es;
          (e', v) = Update fl raw e;
          (es2, vs) = smoothAll fl c rest (AList.update (ID p) e' es1)
      in (es2, v # vs))"

text \<open>The search for the active path among the candidates: \<open>-1\<close> (here \<open>None\<close>) when it is not there.\<close>

fun findActive :: "path_id \<Rightarrow> path_state list \<Rightarrow> nat \<Rightarrow> nat option" where
  "findActive a [] i = None"
| "findActive a (p # ps) i = (if ID p = a then Some i else findActive a ps (Suc i))"

definition PQISelectPath :: "(real \<Rightarrow> real) \<Rightarrow> int \<Rightarrow> pqi_scheduler \<Rightarrow> path_state list \<Rightarrow> pqi_scheduler \<times> path_state option" where
  "PQISelectPath fl now s ps =
     (let cand = filter (\<lambda>p. Validated p \<and> \<not> (Status p \<noteq> StatusActive \<and> Status p \<noteq> StatusAvailable)) ps in
      if cand = [] then (s, None)
      else
        let ms = map (\<lambda>p. \<lparr>met_RTT = RTT p, met_LossRate = LossRate p, met_Bandwidth = Bandwidth p\<rparr>) cand;
            raw = ComputePQI fl ms (Weights (cfg s));
            (es, smoothed) = smoothAll fl (cfg s) (zip cand raw) (estimators s);
            activeIdx = (case (if hasActive s then findActive (active s) cand 0 else None) of
                Some i \<Rightarrow> i
              | None \<Rightarrow> bestIndex smoothed 0);
            (ctrl, chosen) = Decide fl (int activeIdx) smoothed now (controller s);
            p = cand ! nat chosen
        in (s\<lparr>estimators := es, controller := ctrl, active := ID p, hasActive := True\<rparr>, Some p))"

definition PQI :: "pqi_scheduler \<Rightarrow> path_id \<Rightarrow> real option" where
  "PQI s pid = (case map_of (estimators s) pid of Some e \<Rightarrow> Some (Value e) | None \<Rightarrow> None)"

section \<open>The factory\<close>

datatype scheduler = PQIScheduler pqi_scheduler | MinRTTScheduler | RoundRobinScheduler nat | PrimaryPathScheduler

datatype scheduler_error = UnknownScheduler string

definition New :: "(real \<Rightarrow> real) \<Rightarrow> string \<Rightarrow> scheduler_error + scheduler" where
  "New fl name =
     (if name = '''' \<or> name = ''pqi'' then Inr (PQIScheduler (NewPQIScheduler (DefaultPQIConfig fl)))
      else if name = ''min-rtt'' then Inr MinRTTScheduler
      else if name = ''round-robin'' then Inr (RoundRobinScheduler 0)
      else if name = ''rssi'' then Inr PrimaryPathScheduler
      else Inl (UnknownScheduler name))"

fun SelectPath :: "(real \<Rightarrow> real) \<Rightarrow> int \<Rightarrow> scheduler \<Rightarrow> path_state list \<Rightarrow> scheduler \<times> path_state option" where
  "SelectPath fl now (PQIScheduler s) ps = (let (s', r) = PQISelectPath fl now s ps in (PQIScheduler s', r))"
| "SelectPath fl now MinRTTScheduler ps = (MinRTTScheduler, MinRTTSelectPath ps)"
| "SelectPath fl now (RoundRobinScheduler n) ps =
     (let (n', r) = RoundRobinSelectPath n ps in (RoundRobinScheduler n', r))"
| "SelectPath fl now PrimaryPathScheduler ps = (PrimaryPathScheduler, PrimarySelectPath ps)"

fun scheduler_Name :: "scheduler \<Rightarrow> string" where
  "scheduler_Name (PQIScheduler _) = ''pqi''"
| "scheduler_Name MinRTTScheduler = ''min-rtt''"
| "scheduler_Name (RoundRobinScheduler _) = ''round-robin''"
| "scheduler_Name PrimaryPathScheduler = ''rssi-primary-path''"

section \<open>The contract of a scheduler\<close>

text \<open>
  A scheduler returns a path exactly when some path can carry traffic, and the path it returns is one
  of the paths it was offered and can carry traffic. Its own state may change with every call.
\<close>

locale path_scheduler =
  fixes select :: "'s \<Rightarrow> path_state list \<Rightarrow> 's \<times> path_state option"
  assumes select_sound: "select s ps = (s', Some p) \<Longrightarrow> p \<in> set ps \<and> schedulable p"
    and select_complete: "select s ps = (s', None) \<Longrightarrow> \<forall>p \<in> set ps. \<not> schedulable p"
begin

lemma select_some_iff: "snd (select s ps) \<noteq> None \<longleftrightarrow> (\<exists>p \<in> set ps. schedulable p)"
  using select_sound select_complete by (metis not_Some_eq prod.collapse)

lemma select_only_choice:
  assumes "\<And>q. q \<in> set ps \<Longrightarrow> schedulable q \<Longrightarrow> q = p" and "p \<in> set ps" and "schedulable p"
  shows "snd (select s ps) = Some p"
proof -
  obtain s' q where "select s ps = (s', Some q)"
    using select_some_iff [of s ps] assms(2,3) by (metis not_Some_eq prod.collapse)
  then show ?thesis using select_sound assms(1) by (metis snd_conv)
qed

end

section \<open>Selection by a key\<close>

text \<open>The RSSI and RTT loops keep the first element with the least key.\<close>

definition keep_min :: "('a \<Rightarrow> 'k::linorder) \<Rightarrow> 'a option \<Rightarrow> 'a \<Rightarrow> 'a option" where
  "keep_min key acc x = (case acc of None \<Rightarrow> Some x | Some b \<Rightarrow> if key x < key b then Some x else Some b)"

lemma foldl_keep_min_Some:
  "foldl (keep_min key) (Some a) xs = Some x \<Longrightarrow> x \<in> insert a (set xs) \<and> (\<forall>q \<in> insert a (set xs). key x \<le> key q)"
proof (induction xs arbitrary: a)
  case (Cons y ys)
  show ?case
    using Cons.IH [of "if key y < key a then y else a"] Cons.prems
    by (auto simp: keep_min_def split: if_splits)
qed simp

lemma foldl_keep_min_neq_None: "foldl (keep_min key) (Some a) xs \<noteq> None"
  by (induction xs arbitrary: a) (simp_all add: keep_min_def)

lemma foldl_keep_min:
  shows foldl_keep_min_None: "foldl (keep_min key) None xs = None \<longleftrightarrow> xs = []"
    and foldl_keep_min_least: "foldl (keep_min key) None xs = Some x \<Longrightarrow> x \<in> set xs \<and> (\<forall>q \<in> set xs. key x \<le> key q)"
proof -
  have first: "foldl (keep_min key) None (y # ys) = foldl (keep_min key) (Some y) ys" for y ys
    by (simp add: keep_min_def)
  show "foldl (keep_min key) None xs = None \<longleftrightarrow> xs = []"
    by (cases xs) (simp, metis first foldl_keep_min_neq_None list.distinct(1))
  show "x \<in> set xs \<and> (\<forall>q \<in> set xs. key x \<le> key q)" if "foldl (keep_min key) None xs = Some x"
  proof (cases xs)
    case (Cons y ys)
    then show ?thesis using that first foldl_keep_min_Some [of key y ys x] by simp
  qed (use that in simp)
qed

definition fallback_key :: "path_state \<Rightarrow> nat \<times> path_id" where
  "fallback_key p = (of_bool (Status p \<noteq> StatusActive), ID p)"

definition rssi_key :: "path_state \<Rightarrow> int \<times> nat \<times> path_id" where
  "rssi_key p = (- RSSI p, fallback_key p)"

definition rtt_key :: "path_state \<Rightarrow> nat \<times> int" where
  "rtt_key p = (of_bool (\<not> HasMetrics p), if HasMetrics p then RTT p else uint (ID p))"

lemma schedulable_iff: "schedulable p \<longleftrightarrow> Validated p \<and> (Status p = StatusActive \<or> Status p = StatusAvailable)"
  by (simp add: schedulable_def)

lemma betterFallback_key: "schedulable p \<Longrightarrow> schedulable q \<Longrightarrow> betterFallback p q \<longleftrightarrow> fallback_key p < fallback_key q"
  by (auto simp: betterFallback_def fallback_key_def schedulable_iff less_prod_def')

lemma betterRSSI_key: "schedulable p \<Longrightarrow> schedulable q \<Longrightarrow> betterRSSI p q \<longleftrightarrow> rssi_key p < rssi_key q"
  by (auto simp: betterRSSI_def rssi_key_def betterFallback_key less_prod_def')

lemma minRTTStep_key: "minRTTStep acc p = (if schedulable p then keep_min rtt_key acc p else acc)"
  by (auto simp: minRTTStep_def keep_min_def rtt_key_def less_prod_def' word_less_def split: option.splits)

lemma MinRTT_fold: "foldl minRTTStep acc ps = foldl (keep_min rtt_key) acc (filter schedulable ps)"
  by (induction ps arbitrary: acc) (simp_all add: minRTTStep_key)

definition sched_opt :: "path_state option \<Rightarrow> bool" where
  "sched_opt x \<longleftrightarrow> (case x of None \<Rightarrow> True | Some p \<Rightarrow> schedulable p)"

lemma primaryStep_key:
  "sched_opt b \<Longrightarrow> sched_opt f \<Longrightarrow> primaryStep (b, f) p =
     (if schedulable p \<and> HasRSSI p then keep_min rssi_key b p else b,
      if schedulable p then keep_min fallback_key f p else f)"
  by (auto simp: primaryStep_def keep_min_def sched_opt_def betterFallback_key betterRSSI_key schedulable_iff Let_def
      split: option.splits)

lemma sched_opt_keep_min: "sched_opt acc \<Longrightarrow> schedulable p \<Longrightarrow> sched_opt (keep_min key acc p)"
  by (auto simp: sched_opt_def keep_min_def split: option.splits)

lemma Primary_fold:
  "sched_opt b \<Longrightarrow> sched_opt f \<Longrightarrow> foldl primaryStep (b, f) ps =
     (foldl (keep_min rssi_key) b (filter (\<lambda>p. schedulable p \<and> HasRSSI p) ps),
      foldl (keep_min fallback_key) f (filter schedulable ps))"
  by (induction ps arbitrary: b f) (auto simp: primaryStep_key sched_opt_keep_min)

lemma PrimarySelectPath_eq:
  "PrimarySelectPath ps =
     (case foldl (keep_min rssi_key) None (filter (\<lambda>p. schedulable p \<and> HasRSSI p) ps) of
        Some b \<Rightarrow> Some b
      | None \<Rightarrow> foldl (keep_min fallback_key) None (filter schedulable ps))"
  by (simp add: PrimarySelectPath_def Primary_fold sched_opt_def)

section \<open>The schedulers satisfy the contract\<close>

lemma PrimarySelectPath_sound: "PrimarySelectPath ps = Some p \<Longrightarrow> p \<in> set ps \<and> schedulable p"
  by (auto simp: PrimarySelectPath_eq split: option.splits dest: foldl_keep_min_least)

lemma PrimarySelectPath_None: "PrimarySelectPath ps = None \<Longrightarrow> \<forall>p \<in> set ps. \<not> schedulable p"
  by (auto simp: PrimarySelectPath_eq foldl_keep_min_None filter_empty_conv split: option.splits)

lemma MinRTTSelectPath_sound: "MinRTTSelectPath ps = Some p \<Longrightarrow> p \<in> set ps \<and> schedulable p"
  by (auto simp: MinRTTSelectPath_def MinRTT_fold dest: foldl_keep_min_least)

lemma MinRTTSelectPath_None: "MinRTTSelectPath ps = None \<Longrightarrow> \<forall>p \<in> set ps. \<not> schedulable p"
  by (auto simp: MinRTTSelectPath_def MinRTT_fold foldl_keep_min_None filter_empty_conv)

interpretation rr: path_scheduler RoundRobinSelectPath
proof
  fix n ps n' p assume "RoundRobinSelectPath n ps = (n', Some p)"
  then have "p \<in> set (filter schedulable ps)"
    by (auto simp: RoundRobinSelectPath_def Let_def simp del: set_filter split: if_splits)
  then show "p \<in> set ps \<and> schedulable p" by simp
qed (auto simp: RoundRobinSelectPath_def Let_def filter_empty_conv split: if_splits)

lemma length_smoothAll: "length (snd (smoothAll fl c prs es)) = length prs"
  by (induction fl c prs es rule: smoothAll.induct) (auto simp: Let_def split: prod.splits)

lemma length_ComputePQI [simp]: "length (ComputePQI fl m w) = length m"
  by (simp add: ComputePQI_def Let_def)

lemma findActive_Some: "findActive a ps i = Some j \<Longrightarrow> i \<le> j \<and> j < i + length ps \<and> ID (ps ! (j - i)) = a"
  by (induction a ps i rule: findActive.induct) (auto split: if_splits simp: nth_Cons')

abbreviation candidates :: "path_state list \<Rightarrow> path_state list" where
  "candidates ps \<equiv> filter (\<lambda>p. Validated p \<and> \<not> (Status p \<noteq> StatusActive \<and> Status p \<noteq> StatusAvailable)) ps"

lemma candidates_schedulable: "candidates ps = filter schedulable ps"
  by (rule filter_cong) (auto simp: schedulable_iff)

lemma PQISelectPath_cases:
  assumes "PQISelectPath fl now s ps = (s', r)" and "candidates ps \<noteq> []"
  obtains smoothed idx where "length smoothed = length (candidates ps)" and "idx < length smoothed"
    and "\<And>i. hasActive s \<Longrightarrow> findActive (active s) (candidates ps) 0 = Some i \<Longrightarrow> idx = i"
    and "r = Some (candidates ps ! nat (snd (Decide fl (int idx) smoothed now (controller s))))"
    and "controller s' = fst (Decide fl (int idx) smoothed now (controller s))"
proof -
  let ?cand = "candidates ps"
  let ?raw = "ComputePQI fl (map (\<lambda>p. \<lparr>met_RTT = RTT p, met_LossRate = LossRate p, met_Bandwidth = Bandwidth p\<rparr>) ?cand)
     (Weights (cfg s))"
  obtain es smoothed where sm: "smoothAll fl (cfg s) (zip ?cand ?raw) (estimators s) = (es, smoothed)"
    by (cases "smoothAll fl (cfg s) (zip ?cand ?raw) (estimators s)")
  then have len: "length smoothed = length ?cand"
    using length_smoothAll [of fl "cfg s" "zip ?cand ?raw" "estimators s"] by simp
  define idx where "idx = (case (if hasActive s then findActive (active s) ?cand 0 else None) of
      Some i \<Rightarrow> i | None \<Rightarrow> bestIndex smoothed 0)"
  have idx: "idx < length smoothed"
    using bestIndex_max(1) [of 0 smoothed] len assms(2) findActive_Some [of "active s" ?cand 0]
    by (auto simp: idx_def split: option.splits if_splits)
  obtain ctrl chosen where dec: "Decide fl (int idx) smoothed now (controller s) = (ctrl, chosen)"
    by (cases "Decide fl (int idx) smoothed now (controller s)")
  have "PQISelectPath fl now s ps = (s\<lparr>estimators := es, controller := ctrl, active := ID (?cand ! nat chosen),
      hasActive := True\<rparr>, Some (?cand ! nat chosen))"
    unfolding PQISelectPath_def Let_def sm using assms(2) dec [unfolded idx_def] by simp
  then have res: "r = Some (?cand ! nat chosen)" "controller s' = ctrl" using assms(1) by auto
  have act: "idx = i" if "hasActive s" "findActive (active s) ?cand 0 = Some i" for i
    by (simp only: idx_def that if_True option.case)
  show thesis
    by (rule that [OF len idx act]) (simp_all only: dec res fst_conv snd_conv)
qed

lemma PQISelectPath_index:
  assumes "PQISelectPath fl now s ps = (s', r)" and "candidates ps \<noteq> []"
  shows "\<exists>i < length (candidates ps). r = Some (candidates ps ! i)"
  using assms
proof (rule PQISelectPath_cases)
  fix smoothed idx
  let ?d = "snd (Decide fl (int idx) smoothed now (controller s))"
  assume len: "length smoothed = length (candidates ps)" and idx: "idx < length smoothed"
    and r: "r = Some (candidates ps ! nat ?d)"
  have "?d \<in> {int idx, int (bestIndex smoothed idx)}" using Decide_index [OF idx] .
  then have "nat ?d < length (candidates ps)" using idx bestIndex_max(1) [OF idx] len by auto
  then show ?thesis using r by blast
qed

interpretation pqi: path_scheduler "PQISelectPath fl now" for fl now
proof
  fix s ps s' p assume sel: "PQISelectPath fl now s ps = (s', Some p)"
  then have "candidates ps \<noteq> []" by (auto simp: PQISelectPath_def)
  then have "p \<in> set (filter schedulable ps)"
    using PQISelectPath_index [OF sel] unfolding candidates_schedulable by (auto simp del: set_filter)
  then show "p \<in> set ps \<and> schedulable p" by simp
next
  fix s ps s' assume "PQISelectPath fl now s ps = (s', None)"
  then have "filter schedulable ps = []"
    using PQISelectPath_index unfolding candidates_schedulable by blast
  then show "\<forall>p \<in> set ps. \<not> schedulable p" by (simp add: filter_empty_conv)
qed

interpretation sched: path_scheduler "SelectPath fl now" for fl now
proof
  fix s ps s' p assume "SelectPath fl now s ps = (s', Some p)"
  then show "p \<in> set ps \<and> schedulable p"
    using pqi.select_sound rr.select_sound PrimarySelectPath_sound MinRTTSelectPath_sound
    by (cases s) (auto split: prod.splits)
next
  fix s ps s' assume "SelectPath fl now s ps = (s', None)"
  then show "\<forall>p \<in> set ps. \<not> schedulable p"
    using pqi.select_complete rr.select_complete PrimarySelectPath_None MinRTTSelectPath_None
    by (cases s) (auto split: prod.splits)
qed

text \<open>
  C17: whichever scheduler is configured and whatever state it has built up, a selection returns a
  path of the snapshot that is validated and active or available, and it fails only when the
  snapshot has no such path.
\<close>

theorem SelectPath_usable:
  "case snd (SelectPath fl now s ps) of
     Some p \<Rightarrow> p \<in> set ps \<and> Validated p \<and> (Status p = StatusActive \<or> Status p = StatusAvailable)
   | None \<Rightarrow> \<forall>p \<in> set ps. \<not> (Validated p \<and> (Status p = StatusActive \<or> Status p = StatusAvailable))"
  using sched.select_sound [of fl now s ps] sched.select_complete [of fl now s ps]
  unfolding schedulable_iff by (cases "SelectPath fl now s ps") (auto split: option.splits)

theorem SelectPath_usable_witness:
  "case snd (SelectPath fl64 0 MinRTTScheduler [zero_state]) of
     Some p \<Rightarrow> p \<in> set [zero_state] \<and> Validated p \<and> (Status p = StatusActive \<or> Status p = StatusAvailable)
   | None \<Rightarrow> \<forall>p \<in> set [zero_state]. \<not> (Validated p \<and> (Status p = StatusActive \<or> Status p = StatusAvailable))"
  by (rule SelectPath_usable)

text \<open>
  The RSSI scheduler prefers the strongest signal. If some usable path has an RSSI, it returns
  one with the highest, and among those an active one before an available one, and then the lowest
  ID. Without any RSSI it returns an active path before an available one, then the lowest ID.
\<close>

theorem PrimarySelectPath_best:
  assumes "PrimarySelectPath ps = Some p" and "q \<in> set ps" and "schedulable q"
  shows "if HasRSSI p then HasRSSI q \<longrightarrow> RSSI q < RSSI p \<or> (RSSI q = RSSI p \<and>
             (Status p = StatusActive \<and> Status q \<noteq> StatusActive \<or> Status p = Status q \<and> ID p \<le> ID q))
         else \<not> HasRSSI q \<and>
             (Status p = StatusActive \<and> Status q \<noteq> StatusActive \<or> Status p = Status q \<and> ID p \<le> ID q)"
proof -
  let ?R = "filter (\<lambda>p. schedulable p \<and> HasRSSI p) ps"
  have key: "fallback_key p \<le> fallback_key q \<longleftrightarrow>
      (Status p = StatusActive \<and> Status q \<noteq> StatusActive \<or> Status p = Status q \<and> ID p \<le> ID q)"
    if "schedulable p" "schedulable q" for p q
    using that by (auto simp: fallback_key_def schedulable_iff less_eq_prod_def)
  have p: "schedulable p" using PrimarySelectPath_sound [OF assms(1)] by simp
  show ?thesis
  proof (cases "foldl (keep_min rssi_key) None ?R")
    case None
    then have "\<not> HasRSSI p" "\<not> HasRSSI q" "fallback_key p \<le> fallback_key q"
      using assms p PrimarySelectPath_sound [OF assms(1)] foldl_keep_min_least [of fallback_key "filter schedulable ps" p]
      by (auto simp: PrimarySelectPath_eq foldl_keep_min_None filter_empty_conv)
    then show ?thesis using key [OF p assms(3)] by simp
  next
    case (Some b)
    then have "HasRSSI p" "HasRSSI q \<Longrightarrow> rssi_key p \<le> rssi_key q"
      using assms foldl_keep_min_least [OF Some] by (auto simp: PrimarySelectPath_eq)
    then show ?thesis using key [OF p assms(3)] by (auto simp: rssi_key_def less_eq_prod_def)
  qed
qed

abbreviation usable_path :: "path_id \<Rightarrow> path_state" where
  "usable_path k \<equiv> zero_state\<lparr>ID := k, Validated := True, Status := StatusActive\<rparr>"

theorem PrimarySelectPath_best_witness:
  "if HasRSSI (usable_path 1) then HasRSSI (usable_path 2) \<longrightarrow> RSSI (usable_path 2) < RSSI (usable_path 1) \<or>
        (RSSI (usable_path 2) = RSSI (usable_path 1) \<and>
         (Status (usable_path 1) = StatusActive \<and> Status (usable_path 2) \<noteq> StatusActive \<or>
          Status (usable_path 1) = Status (usable_path 2) \<and> ID (usable_path 1) \<le> ID (usable_path 2)))
   else \<not> HasRSSI (usable_path 2) \<and>
        (Status (usable_path 1) = StatusActive \<and> Status (usable_path 2) \<noteq> StatusActive \<or>
         Status (usable_path 1) = Status (usable_path 2) \<and> ID (usable_path 1) \<le> ID (usable_path 2))"
  by (rule PrimarySelectPath_best [of "[usable_path 2, usable_path 1]"])
     (simp_all add: PrimarySelectPath_def primaryStep_def betterFallback_def schedulable_def zero_state_def)

text \<open>
  The lowest-RTT scheduler returns, among the usable paths, one with the least RTT if any has
  measurements, and the lowest ID if none has.
\<close>

theorem MinRTTSelectPath_best:
  assumes "MinRTTSelectPath ps = Some p" and "q \<in> set ps" and "schedulable q"
  shows "if HasMetrics p then HasMetrics q \<longrightarrow> RTT p \<le> RTT q else \<not> HasMetrics q \<and> ID p \<le> ID q"
  using assms foldl_keep_min_least [of rtt_key "filter schedulable ps" p]
  by (fastforce simp: MinRTTSelectPath_def MinRTT_fold rtt_key_def less_eq_prod_def word_le_def split: if_splits)

theorem MinRTTSelectPath_best_witness:
  "if HasMetrics (usable_path 1) then HasMetrics (usable_path 2) \<longrightarrow> RTT (usable_path 1) \<le> RTT (usable_path 2)
   else \<not> HasMetrics (usable_path 2) \<and> ID (usable_path 1) \<le> ID (usable_path 2)"
  by (rule MinRTTSelectPath_best [of "[usable_path 2, usable_path 1]"])
     (simp_all add: MinRTTSelectPath_def minRTTStep_def schedulable_def zero_state_def)

section \<open>Fairness of round robin\<close>

primrec rr_run :: "nat \<Rightarrow> nat \<Rightarrow> path_state list \<Rightarrow> path_state option list" where
  "rr_run 0 nxt ps = []"
| "rr_run (Suc k) nxt ps = (let (nxt', r) = RoundRobinSelectPath nxt ps in r # rr_run k nxt' ps)"

lemma rr_run_nth:
  "filter schedulable ps \<noteq> [] \<Longrightarrow>
     rr_run k nxt ps = map (\<lambda>i. Some (filter schedulable ps ! ((nxt + i) mod length (filter schedulable ps)))) [0..<k]"
proof (induction k arbitrary: nxt)
  case (Suc k)
  then show ?case
    by (simp add: RoundRobinSelectPath_def Let_def map_upt_Suc del: upt_Suc)
qed simp

lemma mset_rotate_indices: "0 < n \<Longrightarrow> mset (map (\<lambda>i. (a + i) mod n) [0..<n]) = mset [0..<n]" for a n :: nat
proof (rule set_eq_iff_mset_eq_distinct [THEN iffD1])
  assume n: "0 < n"
  have inj: "inj_on (\<lambda>i. (a + i) mod n) {..<n}"
  proof (rule inj_onI)
    fix x y assume "x \<in> {..<n}" "y \<in> {..<n}" "(a + x) mod n = (a + y) mod n"
    then obtain q r where "a + x + n * q = a + y + n * r" unfolding nat_mod_eq_iff by blast
    then have "x + n * q = y + n * r" by simp
    then have "x mod n = y mod n" unfolding nat_mod_eq_iff by blast
    then show "x = y" using \<open>x \<in> {..<n}\<close> \<open>y \<in> {..<n}\<close> by simp
  qed
  then show "distinct (map (\<lambda>i. (a + i) mod n) [0..<n])" by (simp add: distinct_map atLeast0LessThan)
  have "(\<lambda>i. (a + i) mod n) ` {..<n} = {..<n}"
    using inj n by (intro endo_inj_surj) auto
  then show "set (map (\<lambda>i. (a + i) mod n) [0..<n]) = set [0..<n]" by (simp add: atLeast0LessThan)
qed simp

text \<open>
  C35: round robin is fair. Over as many consecutive calls as there are usable paths, each usable path
  is returned exactly once, whatever the counter was before.
\<close>

theorem RoundRobin_fair:
  assumes "filter schedulable ps \<noteq> []"
  shows "mset (rr_run (length (filter schedulable ps)) nxt ps) = image_mset Some (mset (filter schedulable ps))"
proof -
  let ?c = "filter schedulable ps"
  have "mset (rr_run (length ?c) nxt ps) =
      image_mset (\<lambda>i. Some (?c ! i)) (mset (map (\<lambda>i. (nxt + i) mod length ?c) [0..<length ?c]))"
    by (simp add: rr_run_nth [OF assms] comp_def multiset.map_comp)
  also have "\<dots> = image_mset Some (mset (map ((!) ?c) [0..<length ?c]))"
    using assms by (subst mset_rotate_indices) (simp_all add: multiset.map_comp comp_def)
  finally show ?thesis by (simp only: map_nth)
qed

theorem RoundRobin_fair_witness:
  "mset (rr_run (length (filter schedulable [usable_path 1, usable_path 2])) 5 [usable_path 1, usable_path 2]) =
     image_mset Some (mset (filter schedulable [usable_path 1, usable_path 2]))"
  by (rule RoundRobin_fair) (simp add: schedulable_def)

section \<open>Stickiness of the PQI scheduler\<close>

lemma findActive_total: "\<exists>q \<in> set ps. ID q = a \<Longrightarrow> \<exists>j. findActive a ps i = Some j"
  by (induction ps arbitrary: i) auto

lemma PQISelectPath_leave:
  assumes "PQISelectPath fl now s ps = (s', Some p)" and "hasActive s"
    and "q \<in> set ps" and "schedulable q" and "ID q = active s" and "ID p \<noteq> active s"
  shows "hasPending (controller s) \<and> StabilityInterval (params (controller s)) \<le> now - pendingSince (controller s) \<and>
    \<not> hasPending (controller s')"
proof -
  have q: "q \<in> set (candidates ps)" using assms(3,4) unfolding candidates_schedulable by simp
  then obtain i where i: "findActive (active s) (candidates ps) 0 = Some i"
    using findActive_total assms(5) by metis
  have "candidates ps \<noteq> []" using q by (metis empty_iff empty_set)
  with assms(1) show ?thesis
  proof (rule PQISelectPath_cases)
    fix smoothed idx
    let ?D = "Decide fl (int idx) smoothed now (controller s)"
    assume len: "idx < length smoothed" and "\<And>i. hasActive s \<Longrightarrow> findActive (active s) (candidates ps) 0 = Some i \<Longrightarrow> idx = i"
      and r: "Some p = Some (candidates ps ! nat (snd ?D))" and c: "controller s' = fst ?D"
    then have "idx = i" using assms(2) i by blast
    then have "ID (candidates ps ! idx) = active s" using findActive_Some [OF i] by simp
    then have "snd ?D \<noteq> int idx" using r assms(6) by auto
    then show ?thesis using c by (auto simp: Decide_valid [OF len] split: if_splits)
  qed
qed

text \<open>
  C19: the PQI scheduler is sticky. As long as the path it selected last is still usable, a call selects
  another path only if a handover was pending before the call and had been pending for the whole
  stability interval; and such a switch clears the pending handover.
\<close>

theorem PQISelectPath_sticky:
  assumes "PQISelectPath fl now s ps = (s', Some p)" and "hasActive s"
    and "q \<in> set ps" and "schedulable q" and "ID q = active s" and "ID p \<noteq> active s"
  shows "hasPending (controller s) \<and> StabilityInterval (params (controller s)) \<le> now - pendingSince (controller s) \<and>
    \<not> hasPending (controller s')"
  using assms by (rule PQISelectPath_leave)

text \<open>A run of three calls: path 0 alone, then paths 0 and 1, then paths 0 and 2; path 0 has the longer RTT.\<close>

abbreviation rtt_config :: pqi_config where
  "rtt_config \<equiv> \<lparr>Weights = \<lparr>Alpha = 1, Beta = 0, Gamma = 0\<rparr>, Lambda = 1, Window = 10, Hyst = DefaultHysteresis\<rparr>"

abbreviation rtt_path :: "path_id \<Rightarrow> int \<Rightarrow> path_state" where
  "rtt_path k r \<equiv> (usable_path k)\<lparr>RTT := r\<rparr>"

definition after_one_call :: pqi_scheduler where
  "after_one_call = fst (PQISelectPath fl64 0 (NewPQIScheduler rtt_config) [rtt_path 0 10])"

definition after_two_calls :: pqi_scheduler where
  "after_two_calls = fst (PQISelectPath fl64 1 after_one_call [rtt_path 0 10, rtt_path 1 5])"

lemma fl64_small [simp]: "fl64 0 = 0" "fl64 1 = 1" "fl64 5 = 5" "fl64 10 = 10" "fl64 100 = 100"
  using fl64.fl_int [of 0] fl64.fl_int [of 1] fl64.fl_int [of 5] fl64.fl_int [of 10] fl64.fl_int [of 100] by simp_all

lemmas pqi_run_simps = PQISelectPath_def Let_def ComputePQI_def MinMaxNormalize_def pqi_of_def Update_def
  estimatorFor_def NewEstimator_def NewPQIScheduler_def NewHandoverController_def DefaultHysteresis_def
  Decide_def bestIndex_def handoverCond_def zero_state_def upt_rec

lemma after_one_call_eq:
  "after_one_call = (NewPQIScheduler rtt_config)\<lparr>estimators := [(0, \<lparr>lambda = 1, window = 10, est_value = 100,
      est_init = True, hist = [100]\<rparr>)], active := 0, hasActive := True\<rparr>"
  by (simp add: after_one_call_def pqi_run_simps)

lemma after_two_calls_eq:
  "after_two_calls = after_one_call\<lparr>estimators := [
      (0, \<lparr>lambda = 1, window = 10, est_value = 0, est_init = True, hist = [100, 0]\<rparr>),
      (1, \<lparr>lambda = 1, window = 10, est_value = 100, est_init = True, hist = [100]\<rparr>)],
    controller := \<lparr>params = DefaultHysteresis, hasPending = True, pendingTarget = 1, pendingSince = 1\<rparr>\<rparr>"
  by (simp add: after_two_calls_def after_one_call_eq pqi_run_simps)

lemma switch_to_unseen:
  "snd (PQISelectPath fl64 1000000000 after_two_calls [rtt_path 0 10, rtt_path 2 5]) = Some (rtt_path 2 5)"
  by (simp add: after_two_calls_eq after_one_call_eq pqi_run_simps)

theorem PQISelectPath_sticky_witness:
  "hasPending (controller after_two_calls) \<and>
   StabilityInterval (params (controller after_two_calls)) \<le> 1000000000 - pendingSince (controller after_two_calls) \<and>
   \<not> hasPending (controller (fst (PQISelectPath fl64 1000000000 after_two_calls [rtt_path 0 10, rtt_path 2 5])))"
proof (rule PQISelectPath_sticky)
  show "PQISelectPath fl64 1000000000 after_two_calls [rtt_path 0 10, rtt_path 2 5] =
      (fst (PQISelectPath fl64 1000000000 after_two_calls [rtt_path 0 10, rtt_path 2 5]), Some (rtt_path 2 5))"
    using switch_to_unseen by (metis prod.collapse)
  show "rtt_path 0 10 \<in> set [rtt_path 0 10, rtt_path 2 5]" by simp
qed (simp_all add: after_two_calls_eq after_one_call_eq schedulable_def)

text \<open>
  The stability timer belongs to a position in the list of candidates, not to a path. After two
  calls a handover from path 0 to path 1 is pending; when path 1 is gone from the third call and path 2,
  which no call has offered before, takes its position, the scheduler switches to path 2 at once, on its
  first measurement and without a stability interval of its own.
\<close>

theorem PQISelectPath_timer_is_per_index:
  "map_of (estimators after_two_calls) 2 = None \<and> active after_two_calls = 0 \<and>
   snd (PQISelectPath fl64 1000000000 after_two_calls [rtt_path 0 10, rtt_path 2 5]) = Some (rtt_path 2 5)"
  using switch_to_unseen by (simp add: after_two_calls_eq after_one_call_eq)

end
