(* ===== verification/Session.thy ===== *)
theory Session
  imports Frames Cid_Registry Scheduler
begin

text \<open>
  \<^verbatim>\<open>internal/mpquic/session\<close> and \<^verbatim>\<open>internal/mpquic/transport\<close>: the transport parameters, the session
  manager, and the session that ties the path manager, the connection ID registry and the scheduler
  together: opening, abandoning and prioritising paths, the reaction to every multipath frame, and the
  RSSI updates.

  The scheduler is shared by all sessions of a manager, so it is not part of the session record: \<open>Run\<close>
  takes it and returns it. What the RSSI provider answers is an argument; the list of its map entries is
  in the order in which Go happens to visit them.
\<close>

section \<open>Transport parameters\<close>

record parameters =
  InitialMaxPathID :: u32
  par_MaxPathID :: u32

definition InitialMaxPathIDParameterID :: u64 where
  "InitialMaxPathIDParameterID = 0x3e"

definition DefaultParameters :: parameters where
  "DefaultParameters = \<lparr>InitialMaxPathID = 1, par_MaxPathID = 1\<rparr>"

datatype session_error =
    MaxBelowInitial u32 u32
  | PeerMaxPathIDReached
  | NoRemoteConnectionID path_id
  | PathErr path_error
  | CidErr cid_error
  | MaxPathIDBelowInitial u64 u32
  | BlockedAboveMax u64 u32
  | CIDsBlockedAboveMax u64 u32
  | NextSequenceAboveLocal u64
  | UnsupportedFrame frame
  | NoSchedulablePath
  | RSSIError string

definition Validate :: "parameters \<Rightarrow> session_error option" where
  "Validate p =
     (if par_MaxPathID p < InitialMaxPathID p then Some (MaxBelowInitial (par_MaxPathID p) (InitialMaxPathID p))
      else None)"

section \<open>The session manager and the session\<close>

record session =
  sess_paths :: manager
  connIDs :: registry
  sess_params :: parameters
  peerMaxPathID :: u32
  frameTypes :: "u64 list"
  interfaceMap :: "(string, path_id) gomap"
  ifaceByPath :: "(path_id, string) gomap"

definition session_New :: "parameters \<Rightarrow> session_error + session" where
  "session_New prms =
     (case Validate prms of
        Some e \<Rightarrow> Inl e
      | None \<Rightarrow> Inr \<lparr>sess_paths = NewManager (par_MaxPathID prms), connIDs = NewRegistry, sess_params = prms,
          peerMaxPathID = InitialMaxPathID prms, frameTypes = frame_All, interfaceMap = [], ifaceByPath = []\<rparr>)"

record session_manager =
  mgr_params :: parameters
  mgr_scheduler :: "scheduler option"
  mgr_frameTypes :: "u64 list"
  mgr_interfaceMap :: "(string, path_id) gomap"
  mgr_ifaceByPath :: "(path_id, string) gomap"

definition NewSessionManager :: "parameters \<Rightarrow> scheduler option \<Rightarrow> session_error + session_manager" where
  "NewSessionManager prms sched =
     (case Validate prms of
        Some e \<Rightarrow> Inl e
      | None \<Rightarrow> Inr \<lparr>mgr_params = prms, mgr_scheduler = sched, mgr_frameTypes = frame_All,
          mgr_interfaceMap = [], mgr_ifaceByPath = []\<rparr>)"

definition SetInterfaceMapping :: "string \<Rightarrow> path_id \<Rightarrow> session_manager \<Rightarrow> session_manager" where
  "SetInterfaceMapping iface pid m =
     m\<lparr>mgr_interfaceMap := AList.update iface pid (mgr_interfaceMap m),
       mgr_ifaceByPath := AList.update pid iface (mgr_ifaceByPath m)\<rparr>"

text \<open>\<open>NewSession\<close> copies the manager's interface map entry by entry.\<close>

definition copyMapping :: "(string \<times> path_id) list \<Rightarrow> session \<Rightarrow> session" where
  "copyMapping kvs s = foldl (\<lambda>s (k, v).
      s\<lparr>interfaceMap := AList.update k v (interfaceMap s), ifaceByPath := AList.update v k (ifaceByPath s)\<rparr>) s kvs"

definition NewSession :: "session_manager \<Rightarrow> session_error + session" where
  "NewSession m = res_bind (session_New (mgr_params m)) (\<lambda>s. Inr (copyMapping (mgr_interfaceMap m) s))"

section \<open>Paths\<close>

definition Bootstrap :: "int \<Rightarrow> string \<Rightarrow> session \<Rightarrow> session \<times> path_state" where
  "Bootstrap now peerAddr s =
     (let (m, st) = EnsureInitialPath now peerAddr (sess_paths s) in (s\<lparr>sess_paths := m\<rparr>, st))"

text \<open>
  \<open>OpenPath\<close> inherits the loop of \<open>NextUnusedPathID\<close>: not returning is \<open>None\<close>. The result is the frames
  to send and either the error or the new path; \<open>now1\<close> and \<open>now2\<close> are the two clock readings.
\<close>

definition OpenPath :: "int \<Rightarrow> int \<Rightarrow> string \<Rightarrow> session \<Rightarrow> (session \<times> frame list \<times> (session_error + path_state)) option" where
  "OpenPath now1 now2 remoteAddr s =
     (case NextUnusedPathID (sess_paths s) of
        None \<Rightarrow> None
      | Some None \<Rightarrow> Some (s, [PathsBlockedFrame (ucast (peerMaxPathID s))], Inl PeerMaxPathIDReached)
      | Some (Some pid) \<Rightarrow> Some (
          if peerMaxPathID s < pid then (s, [PathsBlockedFrame (ucast (peerMaxPathID s))], Inl PeerMaxPathIDReached)
          else if \<not> HasUsableRemote (connIDs s) pid then
            (s, [PathCIDsBlockedFrame (ucast pid) (NextRemoteSequence (connIDs s) pid)], Inl (NoRemoteConnectionID pid))
          else
            case RegisterPath now1 pid remoteAddr (sess_paths s) of
              (m1, Inl e) \<Rightarrow> (s\<lparr>sess_paths := m1\<rparr>, [], Inl (PathErr e))
            | (m1, Inr _) \<Rightarrow>
                (case SetLocalStatus now2 pid StatusAvailable m1 of
                   (m2, Inl e) \<Rightarrow> (s\<lparr>sess_paths := m2\<rparr>, [], Inl (PathErr e))
                 | (m2, Inr st) \<Rightarrow>
                     (s\<lparr>sess_paths := m2\<rparr>, [PathStatusAvailableFrame (ucast pid) (LocalStatusSeq st)], Inr st))))"

definition SetPathAvailable :: "int \<Rightarrow> path_id \<Rightarrow> session \<Rightarrow> session \<times> (session_error + frame)" where
  "SetPathAvailable now pid s =
     (let (m, res) = SetLocalStatus now pid StatusAvailable (sess_paths s)
      in (s\<lparr>sess_paths := m\<rparr>, case res of Inl e \<Rightarrow> Inl (PathErr e)
            | Inr st \<Rightarrow> Inr (PathStatusAvailableFrame (ucast pid) (LocalStatusSeq st))))"

definition SetPathBackup :: "int \<Rightarrow> path_id \<Rightarrow> session \<Rightarrow> session \<times> (session_error + frame)" where
  "SetPathBackup now pid s =
     (let (m, res) = SetLocalStatus now pid StatusBackup (sess_paths s)
      in (s\<lparr>sess_paths := m\<rparr>, case res of Inl e \<Rightarrow> Inl (PathErr e)
            | Inr st \<Rightarrow> Inr (PathStatusBackupFrame (ucast pid) (LocalStatusSeq st))))"

definition UpdatePathRSSI :: "int \<Rightarrow> path_id \<Rightarrow> int \<Rightarrow> session \<Rightarrow> session \<times> (session_error + path_state)" where
  "UpdatePathRSSI now pid rssi s =
     (let (m, res) = UpdateRSSI now pid rssi (sess_paths s)
      in (s\<lparr>sess_paths := m\<rparr>, case res of Inl e \<Rightarrow> Inl (PathErr e) | Inr st \<Rightarrow> Inr st))"

definition AbandonPath :: "int \<Rightarrow> path_id \<Rightarrow> u64 \<Rightarrow> session \<Rightarrow> session \<times> (session_error + frame)" where
  "AbandonPath now pid errorCode s =
     (case Abandon now pid (sess_paths s) of
        (m, Some e) \<Rightarrow> (s\<lparr>sess_paths := m\<rparr>, Inl (PathErr e))
      | (m, None) \<Rightarrow> (s\<lparr>sess_paths := m, connIDs := RetirePath pid (connIDs s)\<rparr>,
                       Inr (PathAbandonFrame (ucast pid) errorCode)))"

definition IssueLocalConnectionID :: "path_id \<Rightarrow> bytes \<Rightarrow> bytes \<Rightarrow> u64 \<Rightarrow> session \<Rightarrow> session \<times> frame" where
  "IssueLocalConnectionID pid cid token prior s =
     (let (r, e) = IssueLocal pid cid token prior (connIDs s)
      in (s\<lparr>connIDs := r\<rparr>, PathNewConnectionIDFrame
           \<lparr>ncid_PathID = ucast pid, ncid_SequenceNumber = SequenceNumber e, ncid_RetirePriorTo = prior,
            ncid_ConnectionID = ConnectionID e, ncid_StatelessResetToken = StatelessResetToken e,
            ncid_Retired = Retired e\<rparr>))"

section \<open>RSSI\<close>

text \<open>
  One entry of the provider's map. The third component collects the calls of the connection's
  \<open>UpdatePathRSSI\<close>; \<open>hasConn\<close> says whether the session has a connection.
\<close>

definition refreshOne :: "bool \<Rightarrow> int \<Rightarrow> session \<times> (path_id \<times> int) list \<Rightarrow> string \<times> int \<Rightarrow> session \<times> (path_id \<times> int) list" where
  "refreshOne hasConn now acc entry =
     (let (s, pushes) = acc; (iface, rssi) = entry;
          (pid, s) = (case map_of (interfaceMap s) iface of
              Some pid \<Rightarrow> (pid, s)
            | None \<Rightarrow>
                let pid = of_nat (length (interfaceMap s))
                in (pid, s\<lparr>interfaceMap := AList.update iface pid (interfaceMap s),
                           ifaceByPath := AList.update pid iface (ifaceByPath s)\<rparr>))
      in if Get pid (sess_paths s) \<noteq> None
         then (fst (UpdatePathRSSI now pid rssi s), if hasConn then pushes @ [(pid, rssi)] else pushes)
         else (s, pushes))"

definition refreshPathRSSI :: "bool \<Rightarrow> int \<Rightarrow> (string + (string \<times> int) list) option \<Rightarrow> session \<Rightarrow>
    session \<times> (path_id \<times> int) list \<times> session_error option" where
  "refreshPathRSSI hasConn now answer s =
     (case answer of
        None \<Rightarrow> (s, [], None)
      | Some (Inl e) \<Rightarrow> (s, [], Some (RSSIError e))
      | Some (Inr rssiMap) \<Rightarrow>
          (let (s', pushes) = foldl (refreshOne hasConn now) (s, []) rssiMap in (s', pushes, None)))"

text \<open>\<open>pollRSSI\<close>: a refresh per tick, with the clock and the provider's answer of that tick; errors are only logged.\<close>

primrec pollRSSI :: "bool \<Rightarrow> (int \<times> (string + (string \<times> int) list) option) list \<Rightarrow> session \<Rightarrow> session \<times> (path_id \<times> int) list" where
  "pollRSSI hasConn [] s = (s, [])"
| "pollRSSI hasConn (t # ts) s =
     (let (s1, pushes, _) = refreshPathRSSI hasConn (fst t) (snd t) s;
          (s2, rest) = pollRSSI hasConn ts s1
      in (s2, pushes @ rest))"

definition Manager_Scheduler :: "session_manager \<Rightarrow> scheduler option \<times> bool" where
  "Manager_Scheduler m = (mgr_scheduler m, mgr_scheduler m \<noteq> None)"

definition InterfaceForPath :: "path_id \<Rightarrow> session \<Rightarrow> string option" where
  "InterfaceForPath pid s = map_of (ifaceByPath s) pid"

section \<open>Incoming frames\<close>

definition HandleFrame :: "int \<Rightarrow> frame \<Rightarrow> session \<Rightarrow> session \<times> (session_error + frame list)" where
  "HandleFrame now f s =
     (case f of
        MaxPathIDFrame mx \<Rightarrow>
          if mx < ucast (InitialMaxPathID (sess_params s)) then
            (s, Inl (MaxPathIDBelowInitial mx (InitialMaxPathID (sess_params s))))
          else if ucast (peerMaxPathID s) < mx then (s\<lparr>peerMaxPathID := ucast mx\<rparr>, Inr [])
          else (s, Inr [])
      | PathNewConnectionIDFrame c \<Rightarrow>
          (let (r, err) = RegisterRemote (ucast (ncid_PathID c)) (ncid_SequenceNumber c) (ncid_RetirePriorTo c)
                  (ncid_ConnectionID c) (ncid_StatelessResetToken c) (connIDs s)
           in (s\<lparr>connIDs := r\<rparr>, case err of Some e \<Rightarrow> Inl (CidErr e) | None \<Rightarrow> Inr []))
      | PathRetireConnectionIDFrame pathID seq \<Rightarrow>
          (let (r, err) = RetireLocal (ucast pathID) seq (connIDs s)
           in (s\<lparr>connIDs := r\<rparr>, case err of Some e \<Rightarrow> Inl (CidErr e) | None \<Rightarrow> Inr []))
      | PathStatusAvailableFrame pathID seq \<Rightarrow>
          (let (m, res) = ApplyPeerStatus now (ucast pathID) StatusAvailable seq (sess_paths s)
           in (s\<lparr>sess_paths := m\<rparr>, case res of Inl e \<Rightarrow> Inl (PathErr e) | Inr _ \<Rightarrow> Inr []))
      | PathStatusBackupFrame pathID seq \<Rightarrow>
          (let (m, res) = ApplyPeerStatus now (ucast pathID) StatusBackup seq (sess_paths s)
           in (s\<lparr>sess_paths := m\<rparr>, case res of Inl e \<Rightarrow> Inl (PathErr e) | Inr _ \<Rightarrow> Inr []))
      | PathAbandonFrame pathID errorCode \<Rightarrow>
          (let (s', res) = AbandonPath now (ucast pathID) errorCode s
           in (s', case res of Inl e \<Rightarrow> Inl e | Inr response \<Rightarrow> Inr [response]))
      | PathsBlockedFrame mx \<Rightarrow>
          if ucast (par_MaxPathID (sess_params s)) < mx
          then (s, Inl (BlockedAboveMax mx (par_MaxPathID (sess_params s)))) else (s, Inr [])
      | PathCIDsBlockedFrame pathID nxt \<Rightarrow>
          if ucast (par_MaxPathID (sess_params s)) < pathID
          then (s, Inl (CIDsBlockedAboveMax pathID (par_MaxPathID (sess_params s))))
          else if NextLocalSequence (connIDs s) (ucast pathID) < nxt then (s, Inl (NextSequenceAboveLocal nxt))
          else (s, Inr [])
      | PathACKFrame _ \<Rightarrow> (s, Inr [])
      | OtherFrame _ \<Rightarrow> (s, Inl (UnsupportedFrame f)))"

section \<open>Start of a session and the selector adapter\<close>

text \<open>
  \<open>Run\<close> up to the loop that accepts streams: the initial path, the first RSSI update (an error is only
  logged), and the first selection. \<open>now1\<close>, \<open>now2\<close>, \<open>now3\<close> are the clock readings.
\<close>

definition Run :: "(real \<Rightarrow> real) \<Rightarrow> int \<Rightarrow> int \<Rightarrow> int \<Rightarrow> string \<Rightarrow> (string + (string \<times> int) list) option \<Rightarrow> scheduler \<Rightarrow> session \<Rightarrow>
    session \<times> scheduler \<times> (session_error + path_state)" where
  "Run fl now1 now2 now3 remoteAddr answer sched s =
     (let s = fst (Bootstrap now1 remoteAddr s);
          s = fst (refreshPathRSSI True now2 answer s);
          (sched', sel) = SelectPath fl now3 sched (Snapshot (sess_paths s))
      in (s, sched', case sel of None \<Rightarrow> Inl NoSchedulablePath | Some p \<Rightarrow> Inr p))"

record quic_path_state =
  qID :: u32
  qAvailable :: bool
  qValidated :: bool
  qRSSI :: int
  qHasRSSI :: bool
  qRTT :: int
  qLossRate :: real
  qBandwidth :: real
  qHasMetrics :: bool

definition adapterState :: "quic_path_state \<Rightarrow> path_state" where
  "adapterState ps =
     (let state = zero_state\<lparr>ID := qID ps, Validated := qValidated ps\<rparr>;
          state = (if qAvailable ps then state\<lparr>Status := StatusActive\<rparr> else state);
          state = (if qHasRSSI ps then state\<lparr>RSSI := qRSSI ps, HasRSSI := True\<rparr> else state)
      in if qHasMetrics ps
         then state\<lparr>RTT := qRTT ps, LossRate := qLossRate ps, Bandwidth := qBandwidth ps, HasMetrics := True\<rparr>
         else state)"

definition adapterSelectPath :: "(real \<Rightarrow> real) \<Rightarrow> int \<Rightarrow> scheduler \<Rightarrow> quic_path_state list \<Rightarrow> scheduler \<times> u32" where
  "adapterSelectPath fl now sched qp =
     (let (sched', sel) = SelectPath fl now sched (map adapterState qp)
      in (sched', case sel of None \<Rightarrow> 0 | Some p \<Rightarrow> ID p))"

section \<open>The life of a session\<close>

text \<open>
  One step of a session: a call of one of its operations or an incoming frame. The connection IDs held
  for one path stay below the range of their 64-bit sequence numbers.
\<close>

inductive session_step :: "session \<Rightarrow> session \<Rightarrow> bool" where
  step_Bootstrap: "Bootstrap now a s = (s', st) \<Longrightarrow> session_step s s'"
| step_OpenPath: "OpenPath now1 now2 a s = Some (s', fs, res) \<Longrightarrow> session_step s s'"
| step_SetPathAvailable: "SetPathAvailable now pid s = (s', res) \<Longrightarrow> session_step s s'"
| step_SetPathBackup: "SetPathBackup now pid s = (s', res) \<Longrightarrow> session_step s s'"
| step_UpdatePathRSSI: "UpdatePathRSSI now pid rssi s = (s', res') \<Longrightarrow> session_step s s'"
| step_refreshPathRSSI: "refreshPathRSSI hasConn now answer s = (s', pushes, err) \<Longrightarrow> session_step s s'"
| step_AbandonPath: "AbandonPath now pid code s = (s', res) \<Longrightarrow> session_step s s'"
| step_IssueLocal: "length (Local (connIDs s) pid) < 2 ^ 64 - 1 \<Longrightarrow>
    IssueLocalConnectionID pid cid token prior s = (s', f) \<Longrightarrow> session_step s s'"
| step_HandleFrame: "HandleFrame now f s = (s', res'') \<Longrightarrow> session_step s s'"

definition session_init :: "session \<Rightarrow> bool" where
  "session_init s \<longleftrightarrow> (\<exists>m. NewSession m = Inr s)"

text \<open>
  What one operation may do to the paths: keep the limit, keep every registered path with its identity,
  validate none, and register a new path unvalidated unless it is the initial path.
\<close>

definition paths_evolve :: "manager \<Rightarrow> manager \<Rightarrow> bool" where
  "paths_evolve m m' \<longleftrightarrow> maxPathID m' = maxPathID m \<and>
     (\<forall>k p. Get k m = Some p \<longrightarrow> (\<exists>p'. Get k m' = Some p' \<and> ID p' = ID p \<and> (Validated p' \<longrightarrow> Validated p))) \<and>
     (\<forall>k p'. Get k m = None \<and> Get k m' = Some p' \<longrightarrow> ID p' = k \<and> (Validated p' \<longrightarrow> k = 0))"

lemma paths_evolve_refl [simp]: "paths_evolve m m"
  by (auto simp: paths_evolve_def)

lemma paths_evolve_trans: "paths_evolve m m' \<Longrightarrow> paths_evolve m' m'' \<Longrightarrow> paths_evolve m m''"
  unfolding paths_evolve_def
proof (intro conjI allI impI; (elim conjE)?)
  fix k p assume "\<forall>k p. Get k m = Some p \<longrightarrow> (\<exists>p'. Get k m' = Some p' \<and> ID p' = ID p \<and> (Validated p' \<longrightarrow> Validated p))"
    and "\<forall>k p. Get k m' = Some p \<longrightarrow> (\<exists>p'. Get k m'' = Some p' \<and> ID p' = ID p \<and> (Validated p' \<longrightarrow> Validated p))"
    and "Get k m = Some p"
  then show "\<exists>p'. Get k m'' = Some p' \<and> ID p' = ID p \<and> (Validated p' \<longrightarrow> Validated p)" by metis
next
  fix k p
  assume step: "\<forall>k p. Get k m' = Some p \<longrightarrow> (\<exists>p'. Get k m'' = Some p' \<and> ID p' = ID p \<and> (Validated p' \<longrightarrow> Validated p))"
    and new: "\<forall>k p'. Get k m = None \<and> Get k m' = Some p' \<longrightarrow> ID p' = k \<and> (Validated p' \<longrightarrow> k = 0)"
      "\<forall>k p'. Get k m' = None \<and> Get k m'' = Some p' \<longrightarrow> ID p' = k \<and> (Validated p' \<longrightarrow> k = 0)"
    and p: "Get k m = None" "Get k m'' = Some p"
  then have "ID p = k \<and> (Validated p \<longrightarrow> k = 0)"
    by (cases "Get k m'") (blast, metis option.inject)
  then show "ID p = k" "Validated p \<Longrightarrow> k = 0" by auto
qed simp

lemma paths_evolve_update:
  assumes "case Get k m of Some p \<Rightarrow> ID p' = ID p \<and> (Validated p' \<longrightarrow> Validated p) | None \<Rightarrow> ID p' = k \<and> (Validated p' \<longrightarrow> k = 0)"
  shows "paths_evolve m (m\<lparr>paths := AList.update k p' (paths m)\<rparr>)"
  using assms by (auto simp: paths_evolve_def Get_def split: option.splits)

lemma evolve_EnsureInitialPath: "paths_evolve m (fst (EnsureInitialPath now a m))"
  by (auto simp: EnsureInitialPath_def ensureInitialPathLocked_def Let_def Get_def split: option.splits
      intro!: paths_evolve_update)

lemma evolve_RegisterPath: "paths_evolve m (fst (RegisterPath now pid a m))"
  using evolve_EnsureInitialPath [of m now a]
  by (auto simp: RegisterPath_def EnsureInitialPath_def Let_def Get_def zero_state_def split: prod.splits option.splits
      intro!: paths_evolve_update)

lemma evolve_SetLocalStatus: "paths_evolve m (fst (SetLocalStatus now pid st m))"
  by (auto simp: SetLocalStatus_def Let_def Get_def split: option.splits intro!: paths_evolve_update)

lemma evolve_UpdateRSSI: "paths_evolve m (fst (UpdateRSSI now pid rssi m))"
  by (auto simp: UpdateRSSI_def Let_def Get_def split: option.splits intro!: paths_evolve_update)

lemma evolve_ApplyPeerStatus: "paths_evolve m (fst (ApplyPeerStatus now pid st seq m))"
  by (auto simp: ApplyPeerStatus_def Let_def Get_def split: option.splits intro!: paths_evolve_update)

lemma evolve_Abandon: "paths_evolve m (fst (Abandon now pid m))"
  by (auto simp: Abandon_def UpdateStatus_def Let_def Get_def split: option.splits intro!: paths_evolve_update)

lemmas evolve_intros = evolve_EnsureInitialPath evolve_RegisterPath evolve_SetLocalStatus evolve_UpdateRSSI
  evolve_ApplyPeerStatus evolve_Abandon

text \<open>The same for the whole session, with the invariants of its parts.\<close>

definition session_evolve :: "session \<Rightarrow> session \<Rightarrow> bool" where
  "session_evolve s s' \<longleftrightarrow> sess_params s' = sess_params s \<and> paths_evolve (sess_paths s) (sess_paths s') \<and>
     (wf_manager (sess_paths s) \<longrightarrow> wf_manager (sess_paths s')) \<and> (wf_registry (connIDs s) \<longrightarrow> wf_registry (connIDs s'))"

lemma session_evolve_refl [simp]: "session_evolve s s"
  by (simp add: session_evolve_def)

lemma session_evolve_trans: "session_evolve s s' \<Longrightarrow> session_evolve s' s'' \<Longrightarrow> session_evolve s s''"
  by (auto simp: session_evolve_def intro: paths_evolve_trans)

lemma evolve_paths:
  "paths_evolve (sess_paths s) m \<Longrightarrow> (wf_manager (sess_paths s) \<Longrightarrow> wf_manager m) \<Longrightarrow> session_evolve s (s\<lparr>sess_paths := m\<rparr>)"
  by (simp add: session_evolve_def)

lemma evolve_connIDs: "(wf_registry (connIDs s) \<Longrightarrow> wf_registry r) \<Longrightarrow> session_evolve s (s\<lparr>connIDs := r\<rparr>)"
  by (simp add: session_evolve_def)

lemma evolve_Bootstrap: "session_evolve s (fst (Bootstrap now a s))"
  using evolve_intros(1) wf_EnsureInitialPath
  by (auto simp: Bootstrap_def split_def Let_def intro!: evolve_paths)

lemma evolve_SetPath:
  "session_evolve s (fst (SetPathAvailable now pid s))" "session_evolve s (fst (SetPathBackup now pid s))"
  using evolve_SetLocalStatus wf_SetLocalStatus
  by (auto simp: SetPathAvailable_def SetPathBackup_def split_def Let_def intro!: evolve_paths)

lemma evolve_UpdatePathRSSI: "session_evolve s (fst (UpdatePathRSSI now pid rssi s))"
  using evolve_UpdateRSSI wf_UpdateRSSI by (auto simp: UpdatePathRSSI_def split_def Let_def intro!: evolve_paths)

lemma evolve_AbandonPath: "session_evolve s (fst (AbandonPath now pid code s))"
  using evolve_Abandon [of "sess_paths s" now pid] wf_Abandon [of "sess_paths s" now pid] wf_RetirePath [of "connIDs s" pid]
  by (auto simp: AbandonPath_def session_evolve_def split: prod.splits option.splits)

lemma evolve_IssueLocal:
  "length (Local (connIDs s) pid) < 2 ^ 64 - 1 \<Longrightarrow> session_evolve s (fst (IssueLocalConnectionID pid cid token prior s))"
  using wf_IssueLocal by (auto simp: IssueLocalConnectionID_def split_def Let_def intro!: evolve_connIDs)

lemma evolve_refreshOne: "session_evolve s0 (fst acc) \<Longrightarrow> session_evolve s0 (fst (refreshOne c now acc e))"
proof (cases acc; cases e)
  fix s pushes iface rssi assume s: "session_evolve s0 (fst acc)" and eq: "acc = (s, pushes)" "e = (iface, rssi)"
  have map: "session_evolve s0 (s\<lparr>interfaceMap := a, ifaceByPath := b\<rparr>)" for a b
    using s eq by (simp add: session_evolve_def)
  show ?thesis
    using s eq map session_evolve_trans [OF _ evolve_UpdatePathRSSI]
    by (auto simp: refreshOne_def Let_def split: option.splits)
qed

lemma evolve_refresh: "session_evolve s (fst (refreshPathRSSI c now answer s))"
proof -
  have "session_evolve s (fst acc) \<Longrightarrow> session_evolve s (fst (foldl (refreshOne c now) acc es))" for acc es
    by (induction es arbitrary: acc) (simp_all add: evolve_refreshOne)
  from this [of "(s, [])"] show ?thesis by (auto simp: refreshPathRSSI_def split_def Let_def split: option.splits sum.splits)
qed

lemma evolve_OpenPath: "OpenPath now1 now2 a s = Some (s', fs, res) \<Longrightarrow> session_evolve s s'"
proof -
  have one: "session_evolve s (s\<lparr>sess_paths := m1\<rparr>)" if "RegisterPath now1 pid a (sess_paths s) = (m1, r1)" for pid m1 r1
    using that evolve_RegisterPath [of "sess_paths s" now1 pid a] wf_RegisterPath [of "sess_paths s" now1 pid a]
    by (auto intro!: evolve_paths)
  have two: "session_evolve s (s\<lparr>sess_paths := m2\<rparr>)"
    if "RegisterPath now1 pid a (sess_paths s) = (m1, r1)" "SetLocalStatus now2 pid StatusAvailable m1 = (m2, r2)" for pid m1 r1 m2 r2
    using that evolve_RegisterPath [of "sess_paths s" now1 pid a] wf_RegisterPath [of "sess_paths s" now1 pid a]
      evolve_SetLocalStatus [of m1 now2 pid StatusAvailable] wf_SetLocalStatus [of m1 now2 pid StatusAvailable]
    by (auto intro!: evolve_paths intro: paths_evolve_trans)
  show "OpenPath now1 now2 a s = Some (s', fs, res) \<Longrightarrow> session_evolve s s'"
    using one two unfolding OpenPath_def by (auto split: option.splits if_splits sum.splits prod.splits)
qed

lemma evolve_HandleFrame: "session_evolve s (fst (HandleFrame now f s))"
  using evolve_AbandonPath [of s now] evolve_ApplyPeerStatus [of "sess_paths s" now] wf_ApplyPeerStatus [of "sess_paths s" now]
    wf_RegisterRemote [of "connIDs s"] wf_RetireLocal [of "connIDs s"]
  by (cases f) (auto simp: HandleFrame_def split_def Let_def session_evolve_def)

lemma session_step_evolve: "session_step s s' \<Longrightarrow> session_evolve s s'"
  by (erule session_step.cases)
     (metis fst_conv evolve_Bootstrap evolve_SetPath evolve_UpdatePathRSSI evolve_AbandonPath evolve_IssueLocal
        evolve_refresh evolve_OpenPath evolve_HandleFrame)+

section \<open>Invariants of a session\<close>

definition session_inv :: "session \<Rightarrow> bool" where
  "session_inv s \<longleftrightarrow> wf_manager (sess_paths s) \<and> wf_registry (connIDs s) \<and>
     maxPathID (sess_paths s) = par_MaxPathID (sess_params s) \<and>
     InitialMaxPathID (sess_params s) \<le> par_MaxPathID (sess_params s) \<and>
     (\<forall>k p. Get k (sess_paths s) = Some p \<and> Validated p \<longrightarrow> k = 0)"

lemma session_inv_evolve: "session_inv s \<Longrightarrow> session_evolve s s' \<Longrightarrow> session_inv s'"
  unfolding session_inv_def session_evolve_def paths_evolve_def by (metis not_None_eq option.inject)

lemma copyMapping_frame:
  "sess_paths (copyMapping kvs s) = sess_paths s" "connIDs (copyMapping kvs s) = connIDs s"
  "sess_params (copyMapping kvs s) = sess_params s" "peerMaxPathID (copyMapping kvs s) = peerMaxPathID s"
  unfolding copyMapping_def by (induction kvs arbitrary: s) auto

lemma session_init_inv: "session_init s \<Longrightarrow> session_inv s"
  using wf_NewManager wf_NewRegistry
  by (auto simp: session_init_def NewSession_def session_New_def Validate_def session_inv_def copyMapping_frame
      NewManager_def Get_def split: option.splits if_splits)

interpretation sess: invariant_system session_init session_step session_inv
  by unfold_locales (blast intro: session_init_inv session_inv_evolve session_step_evolve)+

lemma session_steps_evolve: "session_step\<^sup>*\<^sup>* s s' \<Longrightarrow> session_evolve s s'"
  by (induction rule: rtranclp_induct) (blast intro: session_evolve_refl session_evolve_trans session_step_evolve)+

lemma Snapshot_set: "wf_manager m \<Longrightarrow> set (Snapshot m) = {p. \<exists>k. Get k m = Some p}"
  using wf_manager_values(2) by (simp add: Snapshot_def)

lemma session_select_initial:
  assumes "session_inv s" and "snd (SelectPath fl now sched (Snapshot (sess_paths s))) = Some p"
  shows "ID p = 0"
proof -
  have "p \<in> set (Snapshot (sess_paths s))" "Validated p"
    using sched.select_sound assms(2) by (metis prod.collapse, metis prod.collapse schedulable_iff)
  then obtain k where "Get k (sess_paths s) = Some p" "k = 0"
    using assms(1) by (auto simp: session_inv_def Snapshot_set)
  then show ?thesis using assms(1) wf_managerD(1) by (auto simp: session_inv_def Get_def)
qed

text \<open>
  C1: the invariant of a session. In every state it can reach, by any sequence of its operations and any
  incoming frames, the path table and the connection ID registry are well formed, the limit is the local
  transport parameter, and no path but the initial one is validated. So whatever scheduler runs on a
  snapshot of the session can only select path 0.
\<close>

theorem session_reachable_invariant:
  assumes "reach session_init session_step s"
  shows "wf_manager (sess_paths s) \<and> wf_registry (connIDs s) \<and>
    maxPathID (sess_paths s) = par_MaxPathID (sess_params s) \<and>
    (case snd (SelectPath fl now sched (Snapshot (sess_paths s))) of None \<Rightarrow> True | Some p \<Rightarrow> ID p = 0)"
proof -
  have inv: "session_inv s" using assms by (rule sess.reach_inv)
  then show ?thesis using session_select_initial by (auto simp: session_inv_def split: option.splits)
qed

lemma fresh_session_init: "session_init (projr (session_New \<lparr>InitialMaxPathID = 2, par_MaxPathID = 4\<rparr>))"
proof -
  have "NewSession \<lparr>mgr_params = \<lparr>InitialMaxPathID = 2, par_MaxPathID = 4\<rparr>, mgr_scheduler = None, mgr_frameTypes = [],
      mgr_interfaceMap = [], mgr_ifaceByPath = []\<rparr> = Inr (projr (session_New \<lparr>InitialMaxPathID = 2, par_MaxPathID = 4\<rparr>))"
    by (simp add: NewSession_def session_New_def Validate_def copyMapping_def)
  then show ?thesis unfolding session_init_def by blast
qed

lemma default_session_reach:
  "reach session_init session_step (projr (session_New \<lparr>InitialMaxPathID = 2, par_MaxPathID = 4\<rparr>))"
  using fresh_session_init by (rule reach_init)

theorem session_reachable_invariant_witness:
  "wf_manager (sess_paths (projr (session_New \<lparr>InitialMaxPathID = 2, par_MaxPathID = 4\<rparr>)))"
  using session_reachable_invariant [OF default_session_reach, of fl64 0 MinRTTScheduler] by blast

text \<open>
  C4: an abandoned path stays abandoned. Once \<open>AbandonPath\<close> has succeeded for a path, by the
  application or by the peer's PATH_ABANDON, no later operation and no later frame, not even a status
  frame with a higher sequence number, lets any scheduler select that path, and its ID stays in use.
\<close>

theorem abandoned_path_never_selected:
  assumes "reach session_init session_step s" and "AbandonPath now pid code s = (s1, Inr f)"
    and "session_step\<^sup>*\<^sup>* s1 s2"
  shows "(case snd (SelectPath fl t sched (Snapshot (sess_paths s2))) of None \<Rightarrow> True | Some p \<Rightarrow> ID p \<noteq> pid) \<and>
    Get pid (sess_paths s2) \<noteq> None"
proof -
  have inv: "session_inv s2"
    using assms(1-3) sess.reach_inv sess.steps_inv step_AbandonPath session_step_evolve session_inv_evolve by metis
  have "\<exists>p1. Get pid (sess_paths s1) = Some p1 \<and> \<not> Validated p1"
    using assms(2) by (auto simp: AbandonPath_def Abandon_def UpdateStatus_def Get_def Let_def
        split: option.splits prod.splits sum.splits)
  then obtain p2 where p2: "Get pid (sess_paths s2) = Some p2" "\<not> Validated p2"
    using session_steps_evolve [OF assms(3)] unfolding session_evolve_def paths_evolve_def by blast
  have "ID p \<noteq> pid" if "snd (SelectPath fl t sched (Snapshot (sess_paths s2))) = Some p" for p
  proof -
    have "p \<in> set (Snapshot (sess_paths s2))" "Validated p"
      using sched.select_sound that by (metis prod.collapse, metis prod.collapse schedulable_iff)
    then obtain k where k: "Get k (sess_paths s2) = Some p" using inv by (auto simp: session_inv_def Snapshot_set)
    then have "ID p = k" using inv wf_managerD(1) by (auto simp: session_inv_def Get_def)
    then show ?thesis using p2 k \<open>Validated p\<close> by auto
  qed
  then show ?thesis using p2(1) by (auto split: option.splits)
qed

abbreviation started :: session where
  "started \<equiv> fst (Bootstrap 0 ''a'' (projr (session_New \<lparr>InitialMaxPathID = 2, par_MaxPathID = 4\<rparr>)))"

lemma started_reach: "reach session_init session_step started"
  by (rule reach_step [OF default_session_reach]) (rule step_Bootstrap [OF prod.collapse [symmetric]])

lemmas session_eval = Bootstrap_def EnsureInitialPath_def ensureInitialPathLocked_def session_New_def Validate_def
  NewManager_def zero_state_def Let_def

theorem abandoned_path_never_selected_witness:
  "(case snd (SelectPath fl64 9 PrimaryPathScheduler
       (Snapshot (sess_paths (fst (HandleFrame 8 (PathStatusAvailableFrame 0 5) (fst (AbandonPath 7 0 0 started))))))) of
      None \<Rightarrow> True | Some p \<Rightarrow> ID p \<noteq> 0) \<and>
   Get 0 (sess_paths (fst (HandleFrame 8 (PathStatusAvailableFrame 0 5) (fst (AbandonPath 7 0 0 started))))) \<noteq> None"
proof (rule abandoned_path_never_selected [OF started_reach])
  show "AbandonPath 7 0 0 started = (fst (AbandonPath 7 0 0 started), Inr (PathAbandonFrame 0 0))"
    by (simp add: session_eval AbandonPath_def Abandon_def UpdateStatus_def)
  show "session_step\<^sup>*\<^sup>* (fst (AbandonPath 7 0 0 started))
      (fst (HandleFrame 8 (PathStatusAvailableFrame 0 5) (fst (AbandonPath 7 0 0 started))))"
    by (rule r_into_rtranclp) (rule step_HandleFrame [OF prod.collapse [symmetric]])
qed

section \<open>Opening a path\<close>

lemma OpenPath_fresh:
  assumes "NextUnusedPathID (sess_paths s) = Some (Some pid)" and "1 \<le> pid" and "pid \<le> maxPathID (sess_paths s)"
    and "Get pid (sess_paths s) = None" and "pid \<le> peerMaxPathID s" and "HasUsableRemote (connIDs s) pid"
  shows "\<exists>s' st. OpenPath now1 now2 a s = Some (s', [PathStatusAvailableFrame (ucast pid) 1], Inr st) \<and>
    ID st = pid \<and> RemoteAddr st = a \<and> Status st = StatusAvailable \<and> \<not> Validated st \<and>
    (\<forall>k. Get k (sess_paths s') = (if k = pid then Some st else Get k (sess_paths s))) \<and>
    connIDs s' = connIDs s \<and> peerMaxPathID s' = peerMaxPathID s"
proof -
  have "pid \<noteq> 0" using assms(2) by auto
  then show ?thesis
    using assms RegisterPath_fresh [of pid "sess_paths s" now1 a]
    by (auto simp: OpenPath_def Get_def SetLocalStatus_def Let_def zero_state_def)
qed

text \<open>
  C3: opening a path. As long as fewer than \<open>2 ^ 32 - 1\<close> paths are registered, \<open>OpenPath\<close> returns. If it
  succeeds, the new path has the least unused non-zero ID, which is within the local and the peer's
  limit and has an unretired connection ID of the peer; the path is registered as available but not
  validated, nothing else changes, and PATH_STATUS_AVAILABLE with sequence number 1 is to be sent. If it
  fails, nothing changes, and the frame to send tells the peer what is missing: PATHS_BLOCKED with the
  peer's limit when no ID within both limits is unused, PATH_CIDS_BLOCKED when the ID it would use has no
  connection ID.
\<close>

theorem OpenPath_correct:
  assumes "length (paths (sess_paths s)) < 2 ^ 32 - 1"
  shows "\<exists>s' fs res. OpenPath now1 now2 a s = Some (s', fs, res) \<and>
    (case res of
       Inr st \<Rightarrow> 1 \<le> ID st \<and> ID st \<le> maxPathID (sess_paths s) \<and> ID st \<le> peerMaxPathID s \<and>
         Get (ID st) (sess_paths s) = None \<and> (\<forall>j. 1 \<le> j \<and> j < ID st \<longrightarrow> Get j (sess_paths s) \<noteq> None) \<and>
         HasUsableRemote (connIDs s) (ID st) \<and> RemoteAddr st = a \<and> Status st = StatusAvailable \<and> \<not> Validated st \<and>
         (\<forall>k. Get k (sess_paths s') = (if k = ID st then Some st else Get k (sess_paths s))) \<and>
         connIDs s' = connIDs s \<and> peerMaxPathID s' = peerMaxPathID s \<and>
         fs = [PathStatusAvailableFrame (ucast (ID st)) 1]
     | Inl e \<Rightarrow> s' = s \<and>
         (e = PeerMaxPathIDReached \<and> fs = [PathsBlockedFrame (ucast (peerMaxPathID s))] \<and>
            (\<forall>j. 1 \<le> j \<and> j \<le> maxPathID (sess_paths s) \<and> j \<le> peerMaxPathID s \<longrightarrow> Get j (sess_paths s) \<noteq> None) \<or>
          (\<exists>pid. e = NoRemoteConnectionID pid \<and> pid \<le> peerMaxPathID s \<and> Get pid (sess_paths s) = None \<and>
            \<not> HasUsableRemote (connIDs s) pid \<and>
            fs = [PathCIDsBlockedFrame (ucast pid) (NextRemoteSequence (connIDs s) pid)])))"
proof -
  obtain r where r: "NextUnusedPathID (sess_paths s) = Some r" and "case r of
       Some k \<Rightarrow> 1 \<le> k \<and> k \<le> maxPathID (sess_paths s) \<and> Get k (sess_paths s) = None \<and>
         (\<forall>j. 1 \<le> j \<and> j < k \<longrightarrow> Get j (sess_paths s) \<noteq> None)
     | None \<Rightarrow> \<forall>j. 1 \<le> j \<and> j \<le> maxPathID (sess_paths s) \<longrightarrow> Get j (sess_paths s) \<noteq> None"
    using NextUnusedPathID_total [OF assms] by blast
  then consider (none) "r = None" "\<forall>j. 1 \<le> j \<and> j \<le> maxPathID (sess_paths s) \<longrightarrow> Get j (sess_paths s) \<noteq> None"
    | (some) k where "r = Some k" "1 \<le> k" "k \<le> maxPathID (sess_paths s)" "Get k (sess_paths s) = None"
        "\<forall>j. 1 \<le> j \<and> j < k \<longrightarrow> Get j (sess_paths s) \<noteq> None"
    by (cases r) auto
  then show ?thesis
  proof cases
    case none
    then show ?thesis using r by (simp add: OpenPath_def)
  next
    case some
    consider "peerMaxPathID s < k" | "k \<le> peerMaxPathID s" "\<not> HasUsableRemote (connIDs s) k"
      | "k \<le> peerMaxPathID s" "HasUsableRemote (connIDs s) k" by fastforce
    then show ?thesis
    proof cases
      case 1
      then have "\<forall>j. 1 \<le> j \<and> j \<le> peerMaxPathID s \<longrightarrow> Get j (sess_paths s) \<noteq> None" using some(5) by auto
      then show ?thesis using r some(1) 1 by (simp add: OpenPath_def)
    next
      case 2
      then show ?thesis using r some(1,4) by (auto simp: OpenPath_def)
    next
      case 3
      then show ?thesis using OpenPath_fresh [of s k now1 now2 a] r some by fastforce
    qed
  qed
qed

theorem OpenPath_correct_witness:
  "\<exists>s' fs res. OpenPath 1 2 ''b'' (fst (HandleFrame 1 (PathNewConnectionIDFrame sample_ncid) started)) = Some (s', fs, res)"
  using OpenPath_correct [of "fst (HandleFrame 1 (PathNewConnectionIDFrame sample_ncid) started)" 1 2 "''b''"]
  by (auto simp: session_eval HandleFrame_def RegisterRemote_def)

section \<open>Incoming frames\<close>

text \<open>
  C28: an incoming frame that is refused changes nothing: whenever \<open>HandleFrame\<close> returns an error, the
  session is what it was before.
\<close>

theorem HandleFrame_error_unchanged:
  assumes "HandleFrame now f s = (s', Inl e)"
  shows "s' = s"
  using assms
  by (cases f) (auto simp: HandleFrame_def AbandonPath_def Abandon_def UpdateStatus_def ApplyPeerStatus_def RegisterRemote_def
      RetireLocal_def Let_def split: option.splits if_splits prod.splits sum.splits)

theorem HandleFrame_error_unchanged_witness:
  "fst (HandleFrame 3 (PathAbandonFrame 1 0) started) = started"
proof (rule HandleFrame_error_unchanged)
  show "HandleFrame 3 (PathAbandonFrame 1 0) started =
      (fst (HandleFrame 3 (PathAbandonFrame 1 0) started), Inl (PathErr (PathNotRegistered 1)))"
    by (simp add: session_eval HandleFrame_def AbandonPath_def Abandon_def UpdateStatus_def)
qed

text \<open>
  Abandoning a path. When a PATH_ABANDON frame names a registered path (with an ID of 32 bits), the
  path becomes abandoned and unvalidated, every connection ID of it is retired on both sides, all other
  paths and their connection IDs are untouched, and the answer is a PATH_ABANDON for the same path with
  the same error code. For an unregistered path it is an error.
\<close>

theorem HandleFrame_abandon:
  "HandleFrame now (PathAbandonFrame (ucast pid) code) s =
     (case Get pid (sess_paths s) of
        None \<Rightarrow> (s, Inl (PathErr (PathNotRegistered pid)))
      | Some p \<Rightarrow> (fst (AbandonPath now pid code s), Inr [PathAbandonFrame (ucast pid) code])) \<and>
   (case Get pid (sess_paths s) of
      None \<Rightarrow> True
    | Some p \<Rightarrow>
        (let s' = fst (AbandonPath now pid code s) in
         Get pid (sess_paths s') = Some (p\<lparr>Status := StatusAbandoned, Validated := False, UpdatedAt := now\<rparr>) \<and>
         \<not> HasUsableRemote (connIDs s') pid \<and> list_all Retired (Local (connIDs s') pid @ Remote (connIDs s') pid) \<and>
         (\<forall>k. k = pid \<or> Get k (sess_paths s') = Get k (sess_paths s) \<and>
            Local (connIDs s') k = Local (connIDs s) k \<and> Remote (connIDs s') k = Remote (connIDs s) k)))"
  by (auto simp: HandleFrame_def AbandonPath_def Abandon_def UpdateStatus_def Get_def Let_def RetirePath_def
      HasUsableRemote_def Local_def Remote_def slice_retireAll list_ex_iff list_all_iff split: option.splits)

text \<open>
  MAX_PATH_ID, with a value of 32 bits as the protocol requires: the limit for opening paths never
  shrinks, becomes at least the announced value, and a value below the initial limit is an error that
  leaves the limit alone.
\<close>

theorem HandleFrame_max_path_id:
  "HandleFrame now (MaxPathIDFrame (ucast mx)) s =
     (if mx < InitialMaxPathID (sess_params s)
      then (s, Inl (MaxPathIDBelowInitial (ucast mx) (InitialMaxPathID (sess_params s))))
      else (s\<lparr>peerMaxPathID := max (peerMaxPathID s) mx\<rparr>, Inr []))"
  by (auto simp: HandleFrame_def max_def)

text \<open>
  A MAX_PATH_ID value beyond 32 bits is not refused but truncated, which can shrink the limit: the
  value \<open>2 ^ 32\<close> sets it to 0, after which no path can be opened.
\<close>

theorem HandleFrame_max_path_id_truncates:
  "HandleFrame now (MaxPathIDFrame (2 ^ 32)) s = (s\<lparr>peerMaxPathID := 0\<rparr>, Inr [])"
proof -
  have "(ucast a :: u64) < 2 ^ 32" for a :: u32
    using unsigned_less [of a, where 'a = nat] by (simp add: word_less_nat_alt)
  then show ?thesis by (auto simp: HandleFrame_def not_less intro: less_imp_le)
qed

text \<open>
  Path IDs of incoming frames are truncated to 32 bits as well: PATH_ABANDON for path \<open>2 ^ 32\<close>, an ID
  that cannot exist, abandons the initial path.
\<close>

theorem HandleFrame_abandon_truncates:
  "HandleFrame now (PathAbandonFrame (2 ^ 32) code) s = HandleFrame now (PathAbandonFrame 0 code) s"
proof -
  have "(ucast (2 ^ 32 :: u64) :: path_id) = ucast (0 :: u64)" by code_simp
  then show ?thesis by (simp only: HandleFrame_def frame.case)
qed

section \<open>Starting a session\<close>

definition initial_usable :: "session \<Rightarrow> bool" where
  "initial_usable s \<longleftrightarrow> (case Get 0 (sess_paths s) of None \<Rightarrow> False | Some p \<Rightarrow> schedulable p)"

lemma initial_usable_Bootstrap:
  "session_init s \<Longrightarrow> initial_usable (fst (Bootstrap now a s))"
  by (auto simp: session_init_def NewSession_def session_eval copyMapping_frame initial_usable_def Get_def schedulable_iff
      split: option.splits if_splits)

lemma initial_usable_RSSI: "initial_usable s \<Longrightarrow> initial_usable (fst (UpdatePathRSSI now pid rssi s))"
  by (auto simp: initial_usable_def UpdatePathRSSI_def UpdateRSSI_def Get_def schedulable_iff Let_def split: option.splits)

lemma initial_usable_mapping: "initial_usable (s\<lparr>interfaceMap := a, ifaceByPath := b\<rparr>) \<longleftrightarrow> initial_usable s"
  by (simp add: initial_usable_def)

lemma initial_usable_refreshOne: "initial_usable (fst acc) \<Longrightarrow> initial_usable (fst (refreshOne c now acc e))"
  by (cases acc; cases e)
     (auto simp: refreshOne_def Let_def initial_usable_RSSI initial_usable_mapping split: option.splits)

lemma initial_usable_refresh: "initial_usable s \<Longrightarrow> initial_usable (fst (refreshPathRSSI c now answer s))"
proof -
  have "initial_usable (fst acc) \<Longrightarrow> initial_usable (fst (foldl (refreshOne c now) acc es))" for acc es
    by (induction es arbitrary: acc) (simp_all add: initial_usable_refreshOne)
  from this [of "(s, [])"] show "initial_usable s \<Longrightarrow> ?thesis"
    by (auto simp: refreshPathRSSI_def split_def Let_def split: option.splits sum.splits)
qed

text \<open>Polling, for any number of ticks and any answers, keeps the invariant and leaves the initial path usable.\<close>

lemma pollRSSI_keeps: "session_inv s \<Longrightarrow> initial_usable s \<Longrightarrow>
    session_inv (fst (pollRSSI c ts s)) \<and> initial_usable (fst (pollRSSI c ts s))"
proof (induction ts arbitrary: s)
  case (Cons t ts)
  have "session_inv (fst (refreshPathRSSI c (fst t) (snd t) s))"
    using Cons.prems(1) evolve_refresh session_inv_evolve by metis
  then show ?case
    using Cons.IH initial_usable_refresh [OF Cons.prems(2)] by (simp add: Let_def split_def)
qed simp

lemma Run_initial:
  assumes "session_init s"
  shows "\<exists>s' sched' p. Run fl now1 now2 now3 a answer sched s = (s', sched', Inr p) \<and> ID p = 0 \<and> session_inv s'"
proof -
  let ?s = "fst (refreshPathRSSI True now2 answer (fst (Bootstrap now1 a s)))"
  have inv: "session_inv ?s"
    using session_init_inv [OF assms] evolve_Bootstrap evolve_refresh session_inv_evolve by metis
  obtain p0 where "Get 0 (sess_paths ?s) = Some p0" "schedulable p0"
    using initial_usable_refresh [OF initial_usable_Bootstrap [OF assms], of True now2 answer now1 a]
    by (auto simp: initial_usable_def split: option.splits)
  then have "\<exists>q \<in> set (Snapshot (sess_paths ?s)). schedulable q"
    using inv Snapshot_set by (fastforce simp: session_inv_def)
  then obtain p where "snd (SelectPath fl now3 sched (Snapshot (sess_paths ?s))) = Some p"
    using sched.select_some_iff [of fl now3 sched "Snapshot (sess_paths ?s)"] by fastforce
  then show ?thesis
    using inv session_select_initial [OF inv] by (auto simp: Run_def Let_def split_def)
qed

text \<open>
  C20: a session that starts does find a path. \<open>Run\<close> on a fresh session, with any scheduler in any state
  and whatever the RSSI provider answers, an error included, selects the initial path, so the branch
  that reports no schedulable path is not taken.
\<close>

theorem Run_selects_initial:
  assumes "session_init s"
  shows "\<exists>s' sched' p. Run fl now1 now2 now3 a answer sched s = (s', sched', Inr p) \<and> ID p = 0 \<and> session_inv s'"
  using assms by (rule Run_initial)

theorem Run_selects_initial_witness:
  "\<exists>s' sched' p. Run fl64 0 1 2 ''a'' (Some (Inr [(''wlan0'', -50), (''eth0'', -20)])) PrimaryPathScheduler
     (projr (session_New \<lparr>InitialMaxPathID = 2, par_MaxPathID = 4\<rparr>)) = (s', sched', Inr p) \<and> ID p = 0 \<and> session_inv s'"
  by (rule Run_selects_initial) (rule fresh_session_init)

section \<open>Automatic interface mapping\<close>

text \<open>
  An interface the configuration does not map is not given a free path ID but the number of mapped
  interfaces. With one interface mapped to path 1, the next interface the provider reports is mapped to
  path 1 as well, and takes over the reverse mapping of that path.
\<close>

theorem refreshPathRSSI_collision:
  assumes "interfaceMap s = [(w, 1)]" and "iface \<noteq> w"
  shows "let s' = fst (refreshPathRSSI hasConn now (Some (Inr [(iface, rssi)])) s) in
    map_of (interfaceMap s') w = Some 1 \<and> map_of (interfaceMap s') iface = Some 1 \<and> InterfaceForPath 1 s' = Some iface"
  using assms
  by (auto simp: refreshPathRSSI_def refreshOne_def UpdatePathRSSI_def InterfaceForPath_def Let_def split_def)

theorem refreshPathRSSI_collision_witness:
  "let s' = fst (refreshPathRSSI True 1 (Some (Inr [(''eth0'', -40)])) (copyMapping [(''wlan0'', 1)] started)) in
    map_of (interfaceMap s') ''wlan0'' = Some 1 \<and> map_of (interfaceMap s') ''eth0'' = Some 1 \<and>
    InterfaceForPath 1 s' = Some ''eth0''"
  by (rule refreshPathRSSI_collision) (simp_all add: copyMapping_def session_eval)

section \<open>The selector of the connection\<close>

text \<open>
  C36: the path the connection is told to send on is one it offered, validated and available; only when
  it offered no such path is the answer the main path 0.
\<close>

theorem adapterSelectPath_usable:
  "(\<exists>q \<in> set qp. qID q = snd (adapterSelectPath fl now sched qp) \<and> qValidated q \<and> qAvailable q) \<or>
   snd (adapterSelectPath fl now sched qp) = 0 \<and> list_all (\<lambda>q. \<not> (qValidated q \<and> qAvailable q)) qp"
proof -
  have conv: "schedulable (adapterState q) \<longleftrightarrow> qValidated q \<and> qAvailable q" "ID (adapterState q) = qID q" for q
    by (auto simp: adapterState_def schedulable_def zero_state_def Let_def)
  obtain s' r where sel: "SelectPath fl now sched (map adapterState qp) = (s', r)" by fastforce
  show ?thesis
  proof (cases r)
    case None
    then show ?thesis using sched.select_complete [of fl now sched "map adapterState qp" s'] sel
      by (auto simp: adapterSelectPath_def conv list_all_iff)
  next
    case (Some p)
    then show ?thesis using sched.select_sound [of fl now sched "map adapterState qp" s' p] sel
      by (auto simp: adapterSelectPath_def conv)
  qed
qed

end
