(* ===== verification/Session_Pair.thy ===== *)
theory Session_Pair
  imports Session
begin

text \<open>
  Two sessions at the two ends of a connection. What one sends is marshalled, and the other may receive it never,
  once or several times and in any order, which is what QUIC leaves to the frames of a lossy network. The
  steps are the operations of \<^verbatim>\<open>internal/mpquic/session\<close> with the frames they hand out, and the delivery of bytes
  through \<open>Unmarshal\<close> and \<open>HandleFrame\<close>.
\<close>

section \<open>The system\<close>

datatype side = Client | Server

fun other :: "side \<Rightarrow> side" where
  "other Client = Server"
| "other Server = Client"

record pair =
  ends :: "side \<Rightarrow> session"
  sent :: "side \<Rightarrow> bytes set"

definition wires :: "frame list \<Rightarrow> bytes set" where
  "wires fs = {bs. \<exists>f \<in> set fs. Marshal f = Inr bs}"

definition advance :: "side \<Rightarrow> session \<Rightarrow> frame list \<Rightarrow> pair \<Rightarrow> pair" where
  "advance x s fs p = p\<lparr>ends := (ends p)(x := s), sent := (sent p)(x := sent p x \<union> wires fs)\<rparr>"

text \<open>The operations an endpoint performs on its own, with the frames to send.\<close>

inductive emits :: "session \<Rightarrow> session \<Rightarrow> frame list \<Rightarrow> bool" where
  emit_Bootstrap: "Bootstrap now a s = (s', st) \<Longrightarrow> emits s s' []"
| emit_OpenPath: "OpenPath now1 now2 a s = Some (s', fs, res) \<Longrightarrow> emits s s' fs"
| emit_Available: "SetPathAvailable now pid s = (s', Inr f) \<Longrightarrow> emits s s' [f]"
| emit_Available_error: "SetPathAvailable now pid s = (s', Inl e) \<Longrightarrow> emits s s' []"
| emit_Backup: "SetPathBackup now pid s = (s', Inr f) \<Longrightarrow> emits s s' [f]"
| emit_Backup_error: "SetPathBackup now pid s = (s', Inl e) \<Longrightarrow> emits s s' []"
| emit_RSSI: "UpdatePathRSSI now pid rssi s = (s', res') \<Longrightarrow> emits s s' []"
| emit_refresh: "refreshPathRSSI hasConn now answer s = (s', pushes, err) \<Longrightarrow> emits s s' []"
| emit_Abandon: "AbandonPath now pid code s = (s', Inr f) \<Longrightarrow> emits s s' [f]"
| emit_Abandon_error: "AbandonPath now pid code s = (s', Inl e) \<Longrightarrow> emits s s' []"

text \<open>
  A fresh connection ID is one the endpoint has not issued before; connection IDs and tokens have their
  lengths, and the numbers stay within the range of a variable-length integer.
\<close>

definition lcids :: "session \<Rightarrow> path_id \<Rightarrow> bytes set" where
  "lcids s k = ConnectionID ` set (Local (connIDs s) k)"

definition rcids :: "session \<Rightarrow> path_id \<Rightarrow> bytes set" where
  "rcids s k = ConnectionID ` set (Remote (connIDs s) k)"

definition may_issue :: "session \<Rightarrow> path_id \<Rightarrow> bytes \<Rightarrow> bytes \<Rightarrow> u64 \<Rightarrow> bool" where
  "may_issue s pid cid token prior \<longleftrightarrow> length (Local (connIDs s) pid) < 2 ^ 62 \<and> fits prior \<and>
     cid \<noteq> [] \<and> length cid \<le> 20 \<and> length token = 16 \<and> (\<forall>k. cid \<notin> lcids s k)"

inductive pair_step :: "pair \<Rightarrow> pair \<Rightarrow> bool" where
  pair_local: "emits (ends p x) s' fs \<Longrightarrow> pair_step p (advance x s' fs p)"
| pair_issue: "may_issue (ends p x) pid cid token prior \<Longrightarrow> IssueLocalConnectionID pid cid token prior (ends p x) = (s', f) \<Longrightarrow>
    pair_step p (advance x s' [f] p)"
| pair_deliver: "bs \<in> sent p (other x) \<Longrightarrow> Unmarshal bs = Inr f \<Longrightarrow> HandleFrame now f (ends p x) = (s', res) \<Longrightarrow>
    pair_step p (advance x s' (case res of Inl e \<Rightarrow> [] | Inr fs \<Rightarrow> fs) p)"

definition pair_init :: "pair \<Rightarrow> bool" where
  "pair_init p \<longleftrightarrow> (\<forall>x. session_init (ends p x) \<and> sent p x = {})"

section \<open>The type of a frame survives the wire\<close>

abbreviation is_ncid :: "frame \<Rightarrow> bool" where
  "is_ncid f \<equiv> (\<exists>c. f = PathNewConnectionIDFrame c)"

lemma Unmarshal_ncid_type:
  "Unmarshal bs = Inr (PathNewConnectionIDFrame c) \<Longrightarrow> \<exists>r. readVarint bs = Inr (PathNewConnectionIDType, r)"
  by (auto simp: Unmarshal_def unmarshalPathACK_def unmarshalPathStatusAvailable_def unmarshalPathStatusBackup_def Let_def
      split: if_splits)

lemma writeVarints_extends: "\<exists>r. writeVarints buf vs = buf @ r"
proof (induction vs arbitrary: buf)
  case (Cons v vs)
  have "\<exists>r. (case writeVarint buf v of Inl _ \<Rightarrow> buf | Inr buf' \<Rightarrow> buf') = buf @ r"
    by (subst writeVarint_append) (auto split: sum.split)
  then obtain r where "(case writeVarint buf v of Inl _ \<Rightarrow> buf | Inr buf' \<Rightarrow> buf') = buf @ r" by blast
  then show ?case using Cons.IH [of "buf @ r"] by auto
qed simp

lemma ranges_extend: "\<exists>r. foldl (\<lambda>b r. writeVarints b [Gap r, ACKRange r]) buf rs = buf @ r"
proof (induction rs arbitrary: buf)
  case (Cons a rs)
  obtain r where "writeVarints buf [Gap a, ACKRange a] = buf @ r" using writeVarints_extends by blast
  then show ?case using Cons.IH [of "buf @ r"] by (auto simp del: writeVarints.simps)
qed simp

lemma Marshal_type:
  assumes "Marshal f = Inr bs"
  shows "\<exists>r. readVarint bs = Inr (Type f, r)"
proof -
  have "Type f \<in> set frame_All" using assms by (cases f) (auto simp: Marshal_def frame_All_def)
  then have fit: "fits (Type f)" by (auto simp: frame_All_def frame_type_defs)
  have ack: "\<exists>r. bs' = buf @ r" if "marshalPathACK buf a = Inr bs'" for buf a bs'
  proof -
    obtain r1 where "writeVarints buf [ack_PathID a, LargestAcknowledged a, ACKDelay a,
        of_nat (length (ACKRanges a)), FirstACKRange a] = buf @ r1" using writeVarints_extends by blast
    then obtain r2 where "foldl (\<lambda>b r. writeVarints b [Gap r, ACKRange r]) (writeVarints buf [ack_PathID a,
        LargestAcknowledged a, ACKDelay a, of_nat (length (ACKRanges a)), FirstACKRange a]) (ACKRanges a) = buf @ r2"
      using ranges_extend by (metis append.assoc)
    then show ?thesis
      using that writeVarints_extends [of "buf @ r2"]
      by (auto simp: marshalPathACK_def Let_def simp del: writeVarints.simps split: if_splits option.splits)
        (metis append.assoc)
  qed
  have ncid: "\<exists>r. bs' = buf @ r" if "marshalPathNewConnectionID buf c = Inr bs'" for buf c bs'
    using that writeVarints_extends [of buf]
    by (auto simp: marshalPathNewConnectionID_def Let_def simp del: writeVarints.simps split: if_splits)
      (metis append.assoc)
  have "\<exists>r. bs = the (varint_enc (Type f)) @ r"
    using assms fit writeVarints_extends [of "the (varint_enc (Type f))"] ack ncid
    by (cases f) (auto simp: Marshal_def writeVarint_type simp del: writeVarints.simps Type.simps)
  then show ?thesis using readVarint_enc [OF fit] by auto
qed

lemma ncid_on_the_wire:
  assumes "Marshal f = Inr bs" and "Unmarshal bs = Inr (PathNewConnectionIDFrame c)"
  shows "is_ncid f"
  using Marshal_type [OF assms(1)] Unmarshal_ncid_type [OF assms(2)] assms(1)
  by (cases f) (auto simp: frame_type_defs Marshal_def split: if_splits)

section \<open>What the operations do to the connection IDs\<close>

text \<open>
  An operation that neither issues nor learns a connection ID: the sets of connection IDs stay, and no frame
  announces one.
\<close>

definition quiet :: "session \<Rightarrow> session \<Rightarrow> frame list \<Rightarrow> bool" where
  "quiet s s' fs \<longleftrightarrow> lcids s' = lcids s \<and> rcids s' = rcids s \<and> list_all (\<lambda>f. \<not> is_ncid f) fs"

lemma cids_retire [simp]:
  "ConnectionID ` set (retire es seq) = ConnectionID ` set es"
  "ConnectionID ` set (retirePriorToLocal es prior) = ConnectionID ` set es"
  "(\<lambda>e. ConnectionID (e\<lparr>Retired := True\<rparr>)) ` X = ConnectionID ` X"
proof -
  have "map ConnectionID (retire es seq) = map ConnectionID es" by (simp add: retire_def)
  then show "ConnectionID ` set (retire es seq) = ConnectionID ` set es" by (metis set_map)
  have "map ConnectionID (retirePriorToLocal es prior) = map ConnectionID es" by (simp add: retirePriorToLocal_def)
  then show "ConnectionID ` set (retirePriorToLocal es prior) = ConnectionID ` set es" by (metis set_map)
qed simp

lemma cids_retireAll [simp]: "ConnectionID ` set (slice_at (retireAll m pid) k) = ConnectionID ` set (slice_at m k)"
  by (simp add: slice_retireAll image_image)

lemma cids_RegisterRemote: "ConnectionID ` set (Remote (fst (RegisterRemote pid seq prior cid token r)) k) \<subseteq>
    ConnectionID ` set (Remote r k) \<union> (if k = pid then {cid} else {})"
proof (cases "seq < prior")
  case True
  then show ?thesis by (simp add: RegisterRemote_def)
next
  case False
  then show ?thesis by (simp add: Remote_RegisterRemote sortEntries_def image_Un)
qed

lemma cids_RetireLocal [simp]:
  "ConnectionID ` set (Local (fst (RetireLocal pid seq r)) k) = ConnectionID ` set (Local r k)"
  "Remote (fst (RetireLocal pid seq r)) k = Remote r k"
  by (auto simp: RetireLocal_def Local_def Remote_def split: option.split) (simp_all add: slice_at_def)

lemma quiet_same: "connIDs s' = connIDs s \<Longrightarrow> list_all (\<lambda>f. \<not> is_ncid f) fs \<Longrightarrow> quiet s s' fs"
  by (simp add: quiet_def lcids_def rcids_def fun_eq_iff)

lemma connIDs_refreshOne: "connIDs (fst (refreshOne c now acc e)) = connIDs (fst acc)"
  by (cases acc; cases e) (auto simp: refreshOne_def UpdatePathRSSI_def Let_def split_def split: option.splits)

lemma connIDs_refresh: "connIDs (fst (refreshPathRSSI c now answer s)) = connIDs s"
proof -
  have "connIDs (fst (foldl (refreshOne c now) acc es)) = connIDs (fst acc)" for acc es
    by (induction es arbitrary: acc) (simp_all add: connIDs_refreshOne)
  from this [of "(s, [])"] show ?thesis by (auto simp: refreshPathRSSI_def split_def Let_def split: option.splits sum.splits)
qed

lemma connIDs_OpenPath:
  "OpenPath now1 now2 a s = Some (s', fs, res) \<Longrightarrow> connIDs s' = connIDs s \<and> list_all (\<lambda>f. \<not> is_ncid f) fs"
  by (auto simp: OpenPath_def split: option.splits if_splits sum.splits prod.splits)

lemma quiet_AbandonPath:
  assumes "AbandonPath now pid code s = (s', res)"
  shows "quiet s s' (case res of Inl e \<Rightarrow> [] | Inr f \<Rightarrow> [f])"
proof -
  obtain m err where m: "Abandon now pid (sess_paths s) = (m, err)" by fastforce
  show ?thesis
  proof (cases err)
    case None
    then have "s' = s\<lparr>sess_paths := m, connIDs := RetirePath pid (connIDs s)\<rparr>" "res = Inr (PathAbandonFrame (ucast pid) code)"
      using assms m by (simp_all add: AbandonPath_def)
    then show ?thesis by (simp add: quiet_def lcids_def rcids_def RetirePath_def Local_def Remote_def fun_eq_iff)
  next
    case (Some e)
    then show ?thesis using assms m by (auto simp: AbandonPath_def intro!: quiet_same)
  qed
qed

lemma quiet_emits: "emits s s' fs \<Longrightarrow> quiet s s' fs"
proof (induction rule: emits.induct)
  case (emit_refresh hasConn now answer s s' pushes err)
  then show ?case using connIDs_refresh [of hasConn now answer s] by (simp add: quiet_same)
next
  case (emit_Abandon now pid code s s' f)
  then show ?case by (auto dest: quiet_AbandonPath)
next
  case (emit_Abandon_error now pid code s s' e)
  then show ?case by (auto dest: quiet_AbandonPath)
qed (auto simp: Bootstrap_def SetPathAvailable_def SetPathBackup_def UpdatePathRSSI_def Let_def split_def
       intro!: quiet_same split: sum.splits dest: connIDs_OpenPath)

lemma quiet_HandleFrame:
  assumes "HandleFrame now f s = (s', res)" and "\<not> is_ncid f"
  shows "quiet s s' (case res of Inl e \<Rightarrow> [] | Inr fs \<Rightarrow> fs)"
proof (cases f)
  case (PathAbandonFrame pathID code)
  then show ?thesis
    using assms(1) quiet_AbandonPath [of now "ucast pathID" code s]
    by (cases "AbandonPath now (ucast pathID) code s") (auto simp: HandleFrame_def split: sum.splits)
next
  case (PathRetireConnectionIDFrame pathID seq)
  then have "connIDs s' = fst (RetireLocal (ucast pathID) seq (connIDs s))" "res = Inr [] \<or> (\<exists>e. res = Inl e)"
    using assms(1) by (auto simp: HandleFrame_def split_def Let_def split: option.splits)
  then show ?thesis by (auto simp: quiet_def lcids_def rcids_def)
qed (use assms in \<open>auto simp: HandleFrame_def Let_def split_def intro!: quiet_same split: if_splits option.splits sum.splits\<close>)

lemma learn_HandleFrame:
  assumes "HandleFrame now (PathNewConnectionIDFrame c) s = (s', res)"
  shows "lcids s' = lcids s" and "(case res of Inl e \<Rightarrow> [] | Inr fs \<Rightarrow> fs) = []"
    and "rcids s' k \<subseteq> rcids s k \<union> (if k = ucast (ncid_PathID c) then {ncid_ConnectionID c} else {})"
proof -
  show "lcids s' = lcids s" and "(case res of Inl e \<Rightarrow> [] | Inr fs \<Rightarrow> fs) = []"
    using assms by (auto simp: HandleFrame_def RegisterRemote_def lcids_def Local_def fun_eq_iff Let_def
        split: if_splits sum.splits option.splits)
  have "connIDs s' = fst (RegisterRemote (ucast (ncid_PathID c)) (ncid_SequenceNumber c) (ncid_RetirePriorTo c)
      (ncid_ConnectionID c) (ncid_StatelessResetToken c) (connIDs s))"
    using assms by (auto simp: HandleFrame_def split_def Let_def)
  then show "rcids s' k \<subseteq> rcids s k \<union> (if k = ucast (ncid_PathID c) then {ncid_ConnectionID c} else {})"
    unfolding rcids_def by (simp only: cids_RegisterRemote)
qed

lemma issue_lcids:
  assumes "session_inv s" and "may_issue s pid cid token prior" and "IssueLocalConnectionID pid cid token prior s = (s', f)"
  shows "lcids s' k = (if k = pid then insert cid (lcids s k) else lcids s k)" and "rcids s' = rcids s" and "session_inv s'"
    and "\<exists>c. f = PathNewConnectionIDFrame c \<and> ncid_PathID c = ucast pid \<and> ncid_ConnectionID c = cid \<and> wf_path_new_cid c"
proof -
  obtain r' e where iss: "IssueLocal pid cid token prior (connIDs s) = (r', e)" by fastforce
  have short: "length (Local (connIDs s) pid) < 2 ^ 64 - 1" using assms(2) by (simp add: may_issue_def)
  have wf: "wf_registry (connIDs s)" using assms(1) by (simp add: session_inv_def)
  note eff = IssueLocal_Local [OF wf short iss]
  have s': "s' = s\<lparr>connIDs := r'\<rparr>" using assms(3) iss by (auto simp: IssueLocalConnectionID_def)
  show "lcids s' k = (if k = pid then insert cid (lcids s k) else lcids s k)"
    using eff(1) [of k] eff(2) by (auto simp: s' lcids_def image_Un)
  show "rcids s' = rcids s" using eff(3) by (simp add: s' rcids_def Remote_def fun_eq_iff)
  show "session_inv s'"
    using assms(1,3) evolve_IssueLocal [OF short] session_inv_evolve by (metis fst_conv)
  have "fits (ucast pid)" using unsigned_less [of pid, where 'a = nat] by (simp add: word_le_nat_alt)
  moreover have "fits (of_nat (length (Local (connIDs s) pid)))"
    using assms(2) by (simp add: may_issue_def word_le_nat_alt unat_of_nat)
  ultimately show "\<exists>c. f = PathNewConnectionIDFrame c \<and> ncid_PathID c = ucast pid \<and> ncid_ConnectionID c = cid \<and> wf_path_new_cid c"
    using assms(2,3) iss eff(2) by (auto simp: IssueLocalConnectionID_def may_issue_def wf_path_new_cid_def)
qed

section \<open>The invariant of the pair\<close>

text \<open>
  Both sessions keep their own invariant; no connection ID is issued for two paths; every announcement that was
  ever sent names a connection ID its sender issued, for the same path; and what an endpoint holds as the peer's
  connection IDs of a path, the peer did issue for that path.
\<close>

definition pair_inv :: "pair \<Rightarrow> bool" where
  "pair_inv p \<longleftrightarrow> (\<forall>x. session_inv (ends p x)) \<and>
     (\<forall>x k k' cid. cid \<in> lcids (ends p x) k \<and> cid \<in> lcids (ends p x) k' \<longrightarrow> k = k') \<and>
     (\<forall>x bs c. bs \<in> sent p x \<and> Unmarshal bs = Inr (PathNewConnectionIDFrame c) \<longrightarrow>
        ncid_ConnectionID c \<in> lcids (ends p x) (ucast (ncid_PathID c))) \<and>
     (\<forall>x k. rcids (ends p x) k \<subseteq> lcids (ends p (other x)) k)"

lemma other_neq [simp]: "other x \<noteq> x" "x \<noteq> other x"
  by (cases x; simp)+

lemma other_other [simp]: "other (other x) = x"
  by (cases x) simp_all

lemma not_side: "y \<noteq> x \<longleftrightarrow> y = other x" for x y :: side
  by (cases x; cases y) simp_all

lemma pair_invD:
  assumes "pair_inv p"
  shows "session_inv (ends p x)"
    and "cid \<in> lcids (ends p x) k \<Longrightarrow> cid \<in> lcids (ends p x) k' \<Longrightarrow> k = k'"
    and "bs \<in> sent p x \<Longrightarrow> Unmarshal bs = Inr (PathNewConnectionIDFrame c) \<Longrightarrow>
      ncid_ConnectionID c \<in> lcids (ends p x) (ucast (ncid_PathID c))"
    and "rcids (ends p x) k \<subseteq> lcids (ends p (other x)) k"
  using assms unfolding pair_inv_def by blast+

lemma pair_inv_advance:
  assumes inv: "pair_inv p" and s': "session_inv s'"
    and mono: "\<And>k. lcids (ends p x) k \<subseteq> lcids s' k"
    and uniq: "\<And>k k' cid. cid \<in> lcids s' k \<Longrightarrow> cid \<in> lcids s' k' \<Longrightarrow> k = k'"
    and wire: "\<And>f bs c. f \<in> set fs \<Longrightarrow> Marshal f = Inr bs \<Longrightarrow> Unmarshal bs = Inr (PathNewConnectionIDFrame c) \<Longrightarrow>
        ncid_ConnectionID c \<in> lcids s' (ucast (ncid_PathID c))"
    and learn: "\<And>k. rcids s' k \<subseteq> lcids (ends p (other x)) k"
  shows "pair_inv (advance x s' fs p)"
  unfolding pair_inv_def
proof (intro conjI allI impI)
  fix y k k' cid bs c
  show "session_inv (ends (advance x s' fs p) y)"
    using inv s' by (simp add: pair_inv_def advance_def)
  show "k = k'" if "cid \<in> lcids (ends (advance x s' fs p) y) k \<and> cid \<in> lcids (ends (advance x s' fs p) y) k'"
    using that pair_invD(2) [OF inv] uniq by (auto simp: advance_def split: if_splits)
  show "ncid_ConnectionID c \<in> lcids (ends (advance x s' fs p) y) (ucast (ncid_PathID c))"
    if "bs \<in> sent (advance x s' fs p) y \<and> Unmarshal bs = Inr (PathNewConnectionIDFrame c)"
    using that pair_invD(3) [OF inv] wire mono by (fastforce simp: advance_def wires_def split: if_splits)
  show "rcids (ends (advance x s' fs p) y) k \<subseteq> lcids (ends (advance x s' fs p) (other y)) k"
  proof (cases "y = x")
    case True
    then show ?thesis using learn by (simp add: advance_def)
  next
    case False
    then have "y = other x" by (simp add: not_side)
    then show ?thesis using subset_trans [OF pair_invD(4) [OF inv, of y k], of "lcids s' k"] mono by (simp add: advance_def)
  qed
qed

lemma pair_inv_quiet:
  assumes "pair_inv p" and "session_inv s'" and "quiet (ends p x) s' fs"
  shows "pair_inv (advance x s' fs p)"
proof (rule pair_inv_advance [OF assms(1,2)])
  show "ncid_ConnectionID c \<in> lcids s' (ucast (ncid_PathID c))"
    if "f \<in> set fs" "Marshal f = Inr bs" "Unmarshal bs = Inr (PathNewConnectionIDFrame c)" for f bs c
    using ncid_on_the_wire [OF that(2,3)] that(1) assms(3) by (auto simp: quiet_def list_all_iff)
qed (use assms(3) pair_invD(2,4) [OF assms(1)] in \<open>auto simp: quiet_def\<close>)

lemma emits_step: "emits s s' fs \<Longrightarrow> session_step s s'"
  by (erule emits.cases) (blast intro: session_step.intros)+

lemma pair_inv_issue:
  assumes "pair_inv p" and "may_issue (ends p x) pid cid token prior"
    and "IssueLocalConnectionID pid cid token prior (ends p x) = (s', f)"
  shows "pair_inv (advance x s' [f] p)"
proof -
  have inv: "session_inv (ends p x)" using assms(1) by (simp add: pair_inv_def)
  note eff = issue_lcids [OF inv assms(2,3)]
  have new: "cid \<notin> lcids (ends p x) k" for k using assms(2) by (simp add: may_issue_def)
  show ?thesis
  proof (rule pair_inv_advance [OF assms(1) eff(3)])
    show "k = k'" if "c \<in> lcids s' k" "c \<in> lcids s' k'" for k k' c
      using that new pair_invD(2) [OF assms(1)] unfolding eff(1) by (auto split: if_splits)
    obtain c0 where c0: "f = PathNewConnectionIDFrame c0" "ncid_PathID c0 = ucast pid" "ncid_ConnectionID c0 = cid"
      "wf_path_new_cid c0" using eff(4) by blast
    show "ncid_ConnectionID c \<in> lcids s' (ucast (ncid_PathID c))"
      if "g \<in> set [f]" "Marshal g = Inr bs" "Unmarshal bs = Inr (PathNewConnectionIDFrame c)" for g bs c
    proof -
      have "c = c0\<lparr>ncid_Retired := False\<rparr>"
        using that c0 Unmarshal_Marshal_aux [of f "[]"] by auto
      then show ?thesis using c0 by (simp add: eff(1))
    qed
  qed (use eff(1,2) pair_invD(4) [OF assms(1)] in auto)
qed

lemma pair_inv_deliver:
  assumes "pair_inv p" and "bs \<in> sent p (other x)" and "Unmarshal bs = Inr f" and "HandleFrame now f (ends p x) = (s', res)"
  shows "pair_inv (advance x s' (case res of Inl e \<Rightarrow> [] | Inr fs \<Rightarrow> fs) p)"
proof -
  have inv: "session_inv s'"
    using assms(1,4) step_HandleFrame session_step_evolve session_inv_evolve by (metis pair_inv_def)
  show ?thesis
  proof (cases "is_ncid f")
    case False
    then show ?thesis using pair_inv_quiet [OF assms(1) inv] quiet_HandleFrame [OF assms(4)] by blast
  next
    case True
    then obtain c where c: "f = PathNewConnectionIDFrame c" by blast
    note eff = learn_HandleFrame [OF assms(4) [unfolded c]]
    have "ncid_ConnectionID c \<in> lcids (ends p (other x)) (ucast (ncid_PathID c))"
      using assms(1-3) c by (auto simp: pair_inv_def)
    then have "rcids s' k \<subseteq> lcids (ends p (other x)) k" for k
      using eff(3) [of k] pair_invD(4) [OF assms(1), of x k] by (cases "k = ucast (ncid_PathID c)") (simp_all, blast+)
    then show ?thesis
      unfolding eff(2) by (intro pair_inv_advance [OF assms(1) inv]) (use eff(1) pair_invD(2) [OF assms(1)] in auto)
  qed
qed

lemma pair_inv_step: "pair_inv p \<Longrightarrow> pair_step p p' \<Longrightarrow> pair_inv p'"
proof (erule pair_step.cases)
  fix q x s' fs assume "pair_inv p" "p = q" "p' = advance x s' fs q" "emits (ends q x) s' fs"
  then show "pair_inv p'"
    using pair_inv_quiet quiet_emits emits_step session_step_evolve session_inv_evolve by (metis pair_inv_def)
qed (use pair_inv_issue pair_inv_deliver in blast)+

lemma pair_init_inv: "pair_init p \<Longrightarrow> pair_inv p"
proof -
  have "connIDs s = NewRegistry" if "session_init s" for s
    using that by (auto simp: session_init_def NewSession_def session_New_def copyMapping_frame split: option.splits)
  then show "pair_init p \<Longrightarrow> pair_inv p"
    by (auto simp: pair_init_def pair_inv_def session_init_inv lcids_def rcids_def Local_def Remote_def NewRegistry_def slice_at_def)
qed

interpretation pairs: invariant_system pair_init pair_step pair_inv
  by unfold_locales (blast intro: pair_init_inv pair_inv_step)+

section \<open>Demultiplexing across the wire\<close>

lemma UsableRemote_rcids: "UsableRemote (connIDs s) k = Some e \<Longrightarrow> ConnectionID e \<in> rcids s k"
  by (auto simp: UsableRemote_def rcids_def Remote_def find_Some_iff)

text \<open>
  C2: the two ends agree on what a connection ID means. In every state a pair of sessions can reach, whatever
  the network delays, drops, repeats or reorders, the connection ID that one end would use to send on path \<open>k\<close> is
  resolved by the other end to path \<open>k\<close>.
\<close>

theorem demultiplexing_agrees:
  assumes "reach pair_init pair_step p" and "UsableRemote (connIDs (ends p x)) k = Some e"
  shows "PathForLocalConnectionID (connIDs (ends p (other x))) (ConnectionID e) = Some k"
proof -
  have inv: "pair_inv p" using assms(1) by (rule pairs.reach_inv)
  have loc: "ConnectionID e \<in> lcids (ends p (other x)) k"
    using UsableRemote_rcids [OF assms(2)] pair_invD(4) [OF inv] by blast
  have "k' = k" if "e' \<in> set (Local (connIDs (ends p (other x))) k')" "ConnectionID e' = ConnectionID e" for k' e'
    using pair_invD(2) [OF inv, of "ConnectionID e" "other x" k' k] loc that by (metis image_eqI lcids_def)
  with pair_invD(1) [OF inv, of "other x"]
  have "PathForLocalConnectionID (connIDs (ends p (other x))) (ConnectionID e) =
      (if \<exists>e' \<in> set (Local (connIDs (ends p (other x))) k). ConnectionID e' = ConnectionID e then Some k else None)"
    unfolding session_inv_def by (intro PathForLocal_lookup) blast+
  moreover have "\<exists>e' \<in> set (Local (connIDs (ends p (other x))) k). ConnectionID e' = ConnectionID e"
    using loc by (metis image_iff lcids_def)
  ultimately show ?thesis by simp
qed

abbreviation fresh_end :: session where
  "fresh_end \<equiv> projr (session_New \<lparr>InitialMaxPathID = 2, par_MaxPathID = 4\<rparr>)"

abbreviation sample_issue :: "session \<times> frame" where
  "sample_issue \<equiv> IssueLocalConnectionID 1 [7, 7, 7, 7] (replicate 16 9) 0 fresh_end"

abbreviation pair0 :: pair where
  "pair0 \<equiv> \<lparr>ends = \<lambda>_. fresh_end, sent = \<lambda>_. {}\<rparr>"

abbreviation pair1 :: pair where
  "pair1 \<equiv> advance Server (fst sample_issue) [snd sample_issue] pair0"

abbreviation pair2 :: pair where
  "pair2 \<equiv> advance Client (fst (HandleFrame 5 (snd sample_issue) fresh_end)) [] pair1"

lemma pair2_reach: "reach pair_init pair_step pair2"
proof -
  have "reach pair_init pair_step pair0"
    by (rule reach_init) (simp add: pair_init_def fresh_session_init)
  moreover have "pair_step pair0 pair1"
    by (rule pair_issue [where pid = 1 and cid = "[7, 7, 7, 7]" and token = "replicate 16 9" and prior = 0])
       (simp_all add: may_issue_def lcids_def Local_def slice_at_def session_New_def Validate_def NewRegistry_def)
  ultimately have "reach pair_init pair_step pair1" by (rule reach_step)
  moreover have "pair_step pair1 pair2"
  proof -
    have wf: "wf_frame (snd sample_issue)" "wire_frame (snd sample_issue) = snd sample_issue"
      by (simp_all add: IssueLocalConnectionID_def IssueLocal_def NextLocalSequence_def nextSequence_def slice_at_def
          session_New_def Validate_def NewRegistry_def wf_path_new_cid_def Let_def)
    then obtain bs where bs: "Marshal (snd sample_issue) = Inr bs" "Unmarshal bs = Inr (snd sample_issue)"
      using Unmarshal_Marshal_aux [of "snd sample_issue" "[]"] by auto
    have "HandleFrame 5 (snd sample_issue) (ends pair1 Client) = (fst (HandleFrame 5 (snd sample_issue) fresh_end), Inr [])"
      by (simp add: advance_def HandleFrame_def IssueLocalConnectionID_def IssueLocal_def RegisterRemote_def
          session_New_def Validate_def Let_def)
    then show ?thesis
      using pair_deliver [of bs pair1 Client "snd sample_issue" 5] bs by (fastforce simp: advance_def wires_def)
  qed
  ultimately show ?thesis by (rule reach_step)
qed

theorem demultiplexing_agrees_witness:
  "\<exists>e. UsableRemote (connIDs (ends pair2 Client)) 1 = Some e \<and>
     PathForLocalConnectionID (connIDs (ends pair2 (other Client))) (ConnectionID e) = Some 1"
proof -
  have "\<exists>e. UsableRemote (connIDs (ends pair2 Client)) 1 = Some e"
    by (simp add: advance_def HandleFrame_def IssueLocalConnectionID_def IssueLocal_def RegisterRemote_def UsableRemote_def
        session_New_def Validate_def NewRegistry_def slice_at_def sortEntries_def retirePriorToLocal_def Let_def)
  then show ?thesis using demultiplexing_agrees [OF pair2_reach] by blast
qed

section \<open>Answering an abandoned path\<close>

text \<open>
  The exchange that one PATH_ABANDON frame sets off when each end sends what \<open>HandleFrame\<close> gives it to send:
  the number of frames answered within \<open>n\<close> deliveries, starting with the delivery of \<open>f\<close> at \<open>x\<close>.
\<close>

primrec volley :: "nat \<Rightarrow> int \<Rightarrow> side \<Rightarrow> frame \<Rightarrow> (side \<Rightarrow> session) \<Rightarrow> nat" where
  "volley 0 now x f E = 0"
| "volley (Suc n) now x f E =
     (case HandleFrame now f (E x) of
        (s', Inr [g]) \<Rightarrow> Suc (volley n (now + 1) (other x) g (E(x := s')))
      | (s', _) \<Rightarrow> 0)"

lemma HandleFrame_abandon_answers:
  assumes "Get pid (sess_paths s) \<noteq> None"
  shows "\<exists>s'. HandleFrame now (PathAbandonFrame (ucast pid) code) s = (s', Inr [PathAbandonFrame (ucast pid) code]) \<and>
    Get pid (sess_paths s') \<noteq> None"
  using assms by (auto simp: HandleFrame_def AbandonPath_def Abandon_def UpdateStatus_def Get_def Let_def)

text \<open>
  C38: an abandoned path is never settled. A path that is already abandoned is abandoned again by the peer's
  answer and answered again, so once one PATH_ABANDON frame for a path both ends know is delivered, the two ends
  keep answering each other for ever: every one of the next \<open>n\<close> deliveries produces another frame, for every \<open>n\<close>.
\<close>

theorem abandon_never_settles:
  assumes "\<And>y. Get pid (sess_paths (E y)) \<noteq> None"
  shows "volley n now x (PathAbandonFrame (ucast pid) code) E = n"
  using assms
proof (induction n arbitrary: now x E)
  case (Suc n)
  obtain s' where s': "HandleFrame now (PathAbandonFrame (ucast pid) code) (E x) = (s', Inr [PathAbandonFrame (ucast pid) code])"
    "Get pid (sess_paths s') \<noteq> None"
    using HandleFrame_abandon_answers Suc.prems by blast
  then have "Get pid (sess_paths ((E(x := s')) y)) \<noteq> None" for y using Suc.prems by simp
  then show ?case using Suc.IH s'(1) by simp
qed simp

theorem abandon_never_settles_witness:
  "volley 1000 7 Client (PathAbandonFrame (ucast (0 :: path_id)) 3) (\<lambda>_. started) = 1000"
  by (rule abandon_never_settles) (simp add: session_eval Get_def)

end
