(* ===== verification/Decimal.thy ===== *)
theory Decimal
  imports Prelude
begin

text \<open>
  Decimal numbers as text: what \<open>fmt.Sprintf("%d", n)\<close> prints for a natural number, and the value of a string
  of digits. The file names of stored frames, the path IDs of the configuration and the content lengths of
  the viewer are written this way.
\<close>

text \<open>\<open>fmt.Sprintf("%d", n)\<close>.\<close>

fun dec_string :: "nat \<Rightarrow> string" where
  "dec_string n = (if n < 10 then [char_of (48 + n)] else dec_string (n div 10) @ [char_of (48 + n mod 10)])"

declare dec_string.simps [simp del]

definition is_digit :: "char \<Rightarrow> bool" where
  "is_digit c \<longleftrightarrow> 48 \<le> (of_char c :: nat) \<and> (of_char c :: nat) \<le> 57"

definition digits_value :: "string \<Rightarrow> nat" where
  "digits_value s = foldl (\<lambda>n c. n * 10 + (of_char c - 48)) 0 s"

lemma dec_string_digit: "n < 10 \<Longrightarrow> dec_string n = [char_of (48 + n)]"
  by (simp add: dec_string.simps)

lemma dec_string_digits: "10 \<le> n \<Longrightarrow> dec_string n = dec_string (n div 10) @ [char_of (48 + n mod 10)]"
  by (simp add: dec_string.simps [of n])

lemmas dec_string_eval = dec_string_digit dec_string_digits

lemma digit_char: "d < 10 \<Longrightarrow> of_char (char_of (48 + d) :: char) = (48 + d :: nat)"
  by (simp add: of_char_of)

lemma digits_value_snoc: "digits_value (s @ [c]) = digits_value s * 10 + (of_char c - 48)"
  by (simp add: digits_value_def)

lemma dec_string_digits_only: "list_all is_digit (dec_string n)" "dec_string n \<noteq> []" "digits_value (dec_string n) = n"
proof (induction n rule: less_induct)
  case (less n)
  have char: "is_digit (char_of (48 + d))" "digits_value [char_of (48 + d)] = d" if "d < 10" for d
    using that digit_char [OF that] by (simp_all add: is_digit_def digits_value_def)
  {
    case 1
    show ?case
    proof (cases "n < 10")
      case False
      then show ?thesis using less.IH(1) [of "n div 10"] char(1) [of "n mod 10"] by (simp add: dec_string_digits)
    qed (simp add: dec_string_digit char)
  next
    case 2
    show ?case by (cases "n < 10") (simp_all add: dec_string_eval)
  next
    case 3
    show ?case
    proof (cases "n < 10")
      case False
      then show ?thesis
        using less.IH(3) [of "n div 10"] digit_char [of "n mod 10"] by (simp add: dec_string_digits digits_value_snoc)
    qed (simp add: dec_string_digit char)
  }
qed

lemma dec_string_inject [simp]: "dec_string m = dec_string n \<longleftrightarrow> m = n"
  by (metis dec_string_digits_only(3))

end
