(* ===== verification/Video_Codec.thy ===== *)
theory Video_Codec
  imports Prelude
begin

text \<open>
  The frame formats of the video streams, \<^verbatim>\<open>internal/conn/frame_codec.go\<close>: the 37-byte little-endian frame
  header with its payload, the size check, and the Jetson format (magic, big-endian length, kind, image).

  A reader is the list of bytes it still delivers before end of file. A writer is a state with a
  function \<open>wr\<close> that appends bytes or fails; \<open>buffer_write\<close> is \<open>bytes.Buffer\<close>, which does not fail. A Go
  \<open>int\<close> is a 64-bit word, a time is its \<open>UnixNano\<close> value, and a Go string is its bytes.
\<close>

datatype io_error = EOF | UnexpectedEOF | WriteFailed string | ReadFailed string

datatype codec_error =
    IO io_error
  | UnknownFrameKind u8
  | UnknownPixelFormat bytes
  | PayloadSizeMismatch u64 u64
  | InvalidMagic bytes
  | PanicSliceBounds
  | PanicIndex

section \<open>Readers and writers\<close>

text \<open>\<open>io.ReadFull\<close>: nothing to do for an empty buffer, \<open>EOF\<close> if there is no byte, \<open>UnexpectedEOF\<close> if there are too few.\<close>

definition ReadFull :: "nat \<Rightarrow> bytes \<Rightarrow> io_error + (bytes \<times> bytes)" where
  "ReadFull n r =
     (if n = 0 then Inr ([], r) else if r = [] then Inl EOF else if length r < n then Inl UnexpectedEOF
      else Inr (take n r, drop n r))"

text \<open>\<open>io.CopyN\<close> into a buffer: \<open>EOF\<close> if there are too few bytes.\<close>

definition CopyN :: "nat \<Rightarrow> bytes \<Rightarrow> io_error + (bytes \<times> bytes)" where
  "CopyN n r = (if length r < n then Inl EOF else Inr (take n r, drop n r))"

definition lift_io :: "io_error + 'a \<Rightarrow> codec_error + 'a" where
  "lift_io m = (case m of Inl e \<Rightarrow> Inl (IO e) | Inr x \<Rightarrow> Inr x)"

definition buffer_write :: "bytes \<Rightarrow> bytes \<Rightarrow> bytes \<times> io_error option" where
  "buffer_write w bs = (w @ bs, None)"

text \<open>\<open>bytes.IndexByte\<close>: the position of the first occurrence, \<open>None\<close> for \<open>-1\<close>.\<close>

primrec IndexByte :: "bytes \<Rightarrow> u8 \<Rightarrow> nat option" where
  "IndexByte [] c = None"
| "IndexByte (b # bs) c = (if b = c then Some 0 else map_option Suc (IndexByte bs c))"

section \<open>The frame header\<close>

definition PixelFormatYUYV :: bytes where "PixelFormatYUYV = [0x59, 0x55, 0x59, 0x56]"
definition PixelFormatZ16 :: bytes where "PixelFormatZ16 = [0x5A, 0x31, 0x36]"
definition PixelFormatRGB24 :: bytes where "PixelFormatRGB24 = [0x52, 0x47, 0x42, 0x32, 0x34]"
definition PixelFormatJPEG :: bytes where "PixelFormatJPEG = [0x4A, 0x50, 0x45, 0x47]"

definition FrameHeaderSize :: nat where "FrameHeaderSize = 37"

definition mpquicMagic :: bytes where "mpquicMagic = [0x4D, 0x50, 0x51, 0x31]"

record frame_header =
  Kind :: u8
  Serial :: u64
  Timestamp :: u64
  Width :: u64
  Height :: u64
  PixelFmt :: bytes
  Size :: u32

text \<open>\<open>copy\<close> into a fresh array of 8 bytes.\<close>

definition pixelFmtBytes :: "bytes \<Rightarrow> bytes" where
  "pixelFmtBytes s = take 8 s @ replicate (8 - length s) 0"

definition headerBytes :: "frame_header \<Rightarrow> bytes" where
  "headerBytes h =
     [Kind h] @ put_le 8 (Serial h) @ put_le 8 (Timestamp h) @ put_le 4 (ucast (Width h) :: u32)
       @ put_le 4 (ucast (Height h) :: u32) @ pixelFmtBytes (PixelFmt h) @ put_le 4 (Size h)"

definition EncodeFrameHeader :: "('w \<Rightarrow> bytes \<Rightarrow> 'w \<times> io_error option) \<Rightarrow> 'w \<Rightarrow> frame_header \<Rightarrow> 'w \<times> codec_error option" where
  "EncodeFrameHeader wr w h =
     (case wr w (headerBytes h) of (w', None) \<Rightarrow> (w', None) | (w', Some e) \<Rightarrow> (w', Some (IO e)))"

text \<open>
  \<open>DecodeFrameHeader\<close> with the rest of the input. Slicing the pixel format at \<open>-1\<close>, when its 8 bytes
  contain no zero, panics.
\<close>

definition DecodeFrameHeader :: "bytes \<Rightarrow> codec_error + (frame_header \<times> bytes)" where
  "DecodeFrameHeader r =
     res_bind (lift_io (CopyN FrameHeaderSize r)) (\<lambda>(buf, rest).
     res_bind (lift_io (ReadFull 1 buf)) (\<lambda>(kind, buf).
     res_bind (lift_io (ReadFull 8 buf)) (\<lambda>(serial, buf).
     res_bind (lift_io (ReadFull 8 buf)) (\<lambda>(timestamp, buf).
     res_bind (lift_io (ReadFull 4 buf)) (\<lambda>(width, buf).
     res_bind (lift_io (ReadFull 4 buf)) (\<lambda>(height, buf).
     res_bind (lift_io (ReadFull 8 buf)) (\<lambda>(fmt, buf).
       case IndexByte fmt 0 of
         None \<Rightarrow> Inl PanicSliceBounds
       | Some i \<Rightarrow>
           res_bind (lift_io (ReadFull 4 buf)) (\<lambda>(size, buf).
             Inr (\<lparr>Kind = get_be kind, Serial = get_le serial, Timestamp = get_le timestamp,
                   Width = ucast (get_le width :: u32), Height = ucast (get_le height :: u32),
                   PixelFmt = take i fmt, Size = get_le size\<rparr>, rest)))))))))"

definition ValidateFramePayloadSize :: "frame_header \<Rightarrow> codec_error option" where
  "ValidateFramePayloadSize h =
     (if Kind h \<noteq> 0 \<and> Kind h \<noteq> 1 then Some (UnknownFrameKind (Kind h))
      else if PixelFmt h = PixelFormatYUYV \<or> PixelFmt h = PixelFormatZ16 then
        (let expectedSize = Width h * Height h * 2
         in if expectedSize \<noteq> ucast (Size h) then Some (PayloadSizeMismatch expectedSize (ucast (Size h))) else None)
      else if PixelFmt h = PixelFormatRGB24 then
        (let expectedSize = Width h * Height h * 3
         in if expectedSize \<noteq> ucast (Size h) then Some (PayloadSizeMismatch expectedSize (ucast (Size h))) else None)
      else Some (UnknownPixelFormat (PixelFmt h)))"

section \<open>Frames\<close>

definition WriteFrame :: "('w \<Rightarrow> bytes \<Rightarrow> 'w \<times> io_error option) \<Rightarrow> 'w \<Rightarrow> frame_header \<Rightarrow> bytes \<Rightarrow> 'w \<times> codec_error option" where
  "WriteFrame wr w h payload =
     (case EncodeFrameHeader wr w h of
        (w, Some e) \<Rightarrow> (w, Some e)
      | (w, None) \<Rightarrow>
          if (of_nat (length payload) :: u64) \<noteq> ucast (Size h)
          then (w, Some (PayloadSizeMismatch (ucast (Size h)) (of_nat (length payload))))
          else (case wr w payload of (w, None) \<Rightarrow> (w, None) | (w, Some e) \<Rightarrow> (w, Some (IO e))))"

definition ReadFrame :: "bytes \<Rightarrow> codec_error + (frame_header \<times> bytes \<times> bytes)" where
  "ReadFrame r =
     res_bind (DecodeFrameHeader r) (\<lambda>(h, r).
     res_bind (lift_io (ReadFull (unat (Size h)) r)) (\<lambda>(payload, r). Inr (h, payload, r)))"

text \<open>\<open>ReadJetsonFrame\<close>: with a length of zero, \<open>payload[0]\<close> panics.\<close>

definition ReadJetsonFrame :: "bytes \<Rightarrow> codec_error + (frame_header \<times> bytes \<times> bytes)" where
  "ReadJetsonFrame r =
     res_bind (lift_io (ReadFull 4 r)) (\<lambda>(magic, r).
       if magic \<noteq> mpquicMagic then Inl (InvalidMagic magic)
       else
         res_bind (lift_io (ReadFull 4 r)) (\<lambda>(lengthBuf, r).
           let len = (get_be lengthBuf :: u32) in
           res_bind (lift_io (ReadFull (unat len) r)) (\<lambda>(payload, r).
             case payload of
               [] \<Rightarrow> Inl PanicIndex
             | k # img \<Rightarrow>
                 Inr (\<lparr>Kind = k, Serial = 0, Timestamp = 0, Width = 640, Height = 480,
                       PixelFmt = PixelFormatJPEG, Size = len - 1\<rparr>, img, r))))"

section \<open>Round trip\<close>

lemma ReadFull_append [simp]: "length bs = n \<Longrightarrow> ReadFull n (bs @ r) = Inr (bs, r)"
  by (auto simp: ReadFull_def)

lemma ReadFull_exact [simp]: "length bs = n \<Longrightarrow> ReadFull n bs = Inr (bs, [])"
  using ReadFull_append [of bs n "[]"] by simp

lemma lift_io_Inr [simp]: "lift_io (Inr x) = Inr x"
  by (simp add: lift_io_def)

lemma IndexByte_append: "c \<notin> set bs \<Longrightarrow> IndexByte (bs @ c # r) c = Some (length bs)"
  by (induction bs) auto

lemma IndexByte_None: "IndexByte bs c = None \<longleftrightarrow> c \<notin> set bs"
  by (induction bs) auto

lemma length_pixelFmtBytes [simp]: "length (pixelFmtBytes s) = 8"
  by (simp add: pixelFmtBytes_def)

lemma length_headerBytes [simp]: "length (headerBytes h) = 37"
  by (simp add: headerBytes_def)

lemma pixelFmt_index: "length s < 8 \<Longrightarrow> 0 \<notin> set s \<Longrightarrow> IndexByte (pixelFmtBytes s) 0 = Some (length s)"
proof -
  assume s: "length s < 8" "0 \<notin> set s"
  then have "pixelFmtBytes s = s @ 0 # replicate (7 - length s) 0"
    by (cases "8 - length s") (auto simp: pixelFmtBytes_def)
  then show ?thesis using s by (simp add: IndexByte_append)
qed

lemma get_be_single [simp]: "get_be [b] = (b :: u8)"
  by (simp add: get_be_def)

text \<open>A header that its wire format can carry.\<close>

definition wf_header :: "frame_header \<Rightarrow> bool" where
  "wf_header h \<longleftrightarrow> unat (Width h) < 2 ^ 32 \<and> unat (Height h) < 2 ^ 32 \<and> length (PixelFmt h) < 8 \<and> 0 \<notin> set (PixelFmt h)"

lemma widen_narrow: "unat v < 2 ^ 32 \<Longrightarrow> ucast (ucast v :: u32) = v" for v :: u64
  by (simp add: word_unat_eq_iff unat_ucast_less)

lemma DecodeFrameHeader_headerBytes:
  assumes "wf_header h"
  shows "DecodeFrameHeader (headerBytes h @ rest) = Inr (h, rest)"
proof -
  have "CopyN FrameHeaderSize (headerBytes h @ rest) = Inr (headerBytes h, rest)"
    by (simp add: CopyN_def FrameHeaderSize_def)
  moreover have "take (length (PixelFmt h)) (pixelFmtBytes (PixelFmt h)) = PixelFmt h"
    using assms by (simp add: pixelFmtBytes_def wf_header_def)
  ultimately show ?thesis
    using assms
    by (simp add: DecodeFrameHeader_def wf_header_def headerBytes_def pixelFmt_index codec_simps widen_narrow
        del: append.simps append_Cons append.assoc [symmetric])
qed

text \<open>
  C21: a video frame survives the wire. Writing a frame whose header fits the format and whose payload has
  the announced size succeeds and appends the 37 header bytes and the payload, and reading it back, with
  anything behind it, gives the same header and payload and leaves exactly what was behind it.
\<close>

theorem ReadFrame_WriteFrame:
  assumes "wf_header h" and "length payload = unat (Size h)"
  shows "WriteFrame buffer_write w h payload = (w @ headerBytes h @ payload, None) \<and> length (headerBytes h) = FrameHeaderSize \<and>
    ReadFrame (headerBytes h @ payload @ rest) = Inr (h, payload, rest)"
proof -
  have "unat (Size h) < 2 ^ 32" using unsigned_less [of "Size h", where 'a = nat] by simp
  then have "(of_nat (length payload) :: u64) = ucast (Size h)"
    using assms(2) by (simp add: word_unat_eq_iff unat_of_nat)
  then show ?thesis
    using assms by (simp add: WriteFrame_def EncodeFrameHeader_def buffer_write_def ReadFrame_def
        DecodeFrameHeader_headerBytes FrameHeaderSize_def)
qed

abbreviation sample_header :: frame_header where
  "sample_header \<equiv> \<lparr>Kind = 1, Serial = 9, Timestamp = 1000, Width = 2, Height = 1, PixelFmt = PixelFormatZ16, Size = 4\<rparr>"

theorem ReadFrame_WriteFrame_witness:
  "WriteFrame buffer_write [] sample_header [1, 2, 3, 4] = ([] @ headerBytes sample_header @ [1, 2, 3, 4], None) \<and>
   length (headerBytes sample_header) = FrameHeaderSize \<and>
   ReadFrame (headerBytes sample_header @ [1, 2, 3, 4] @ [8]) = Inr (sample_header, [1, 2, 3, 4], [8])"
  by (rule ReadFrame_WriteFrame) (simp_all add: wf_header_def PixelFormatZ16_def)

section \<open>Errors\<close>

lemma prefix_split: "n \<le> length r \<Longrightarrow> \<exists>a b. r = a @ b \<and> length a = n"
  by (metis append_take_drop_id length_take min.absorb2)

lemma header_split:
  assumes "37 \<le> length r"
  shows "\<exists>k sn ts w h f sz rest. r = k @ sn @ ts @ w @ h @ f @ sz @ rest \<and> length k = 1 \<and> length sn = 8 \<and>
    length ts = 8 \<and> length w = 4 \<and> length h = 4 \<and> length f = 8 \<and> length sz = 4"
proof -
  obtain k r1 where 1: "r = k @ r1" "length k = 1" using prefix_split [of 1 r] assms by auto
  obtain sn r2 where 2: "r1 = sn @ r2" "length sn = 8" using prefix_split [of 8 r1] assms 1 by auto
  obtain ts r3 where 3: "r2 = ts @ r3" "length ts = 8" using prefix_split [of 8 r2] assms 1 2 by auto
  obtain w r4 where 4: "r3 = w @ r4" "length w = 4" using prefix_split [of 4 r3] assms 1 2 3 by auto
  obtain h r5 where 5: "r4 = h @ r5" "length h = 4" using prefix_split [of 4 r4] assms 1 2 3 4 by auto
  obtain f r6 where 6: "r5 = f @ r6" "length f = 8" using prefix_split [of 8 r5] assms 1 2 3 4 5 by auto
  obtain sz rest where 7: "r6 = sz @ rest" "length sz = 4" using prefix_split [of 4 r6] assms 1 2 3 4 5 6 by auto
  show ?thesis using 1 2 3 4 5 6 7 by blast
qed

text \<open>
  The decoder's outcome on any input. Fewer than 37 bytes are an end-of-file error; with 37 bytes or
  more, decoding panics exactly when none of the eight bytes of the pixel format (offsets 25 to 32) is
  zero, and otherwise succeeds and consumes 37 bytes.
\<close>

theorem DecodeFrameHeader_outcome:
  "if length r < FrameHeaderSize then DecodeFrameHeader r = Inl (IO EOF)
   else if 0 \<notin> set (take 8 (drop 25 r)) then DecodeFrameHeader r = Inl PanicSliceBounds
   else \<exists>h. DecodeFrameHeader r = Inr (h, drop FrameHeaderSize r)"
proof (cases "length r < FrameHeaderSize")
  case True
  then show ?thesis by (simp add: DecodeFrameHeader_def CopyN_def lift_io_def)
next
  case False
  then obtain k sn ts w h f sz rest where r: "r = k @ sn @ ts @ w @ h @ f @ sz @ rest"
    and len: "length k = 1" "length sn = 8" "length ts = 8" "length w = 4" "length h = 4" "length f = 8" "length sz = 4"
    using header_split [of r] unfolding FrameHeaderSize_def by (meson not_less)
  have "CopyN FrameHeaderSize r = Inr (k @ sn @ ts @ w @ h @ f @ sz, rest)"
    using len by (simp add: CopyN_def FrameHeaderSize_def r)
  then show ?thesis
    using len by (auto simp: DecodeFrameHeader_def FrameHeaderSize_def IndexByte_None [symmetric] r
        simp del: append.simps append_Cons split: option.splits)
qed

text \<open>
  \<open>WriteFrame\<close> checks the payload only after it has written the header: a payload of the wrong size is
  reported, but the stream is left with a header that announces a payload which never comes.
\<close>

theorem WriteFrame_mismatch_leaves_header:
  assumes "length payload < 2 ^ 64" and "length payload \<noteq> unat (Size h)"
  shows "\<exists>e. WriteFrame buffer_write w h payload = (w @ headerBytes h, Some e)"
proof -
  have "unat (of_nat (length payload) :: u64) \<noteq> unat (ucast (Size h) :: u64)" using assms by (simp add: unat_of_nat)
  then have "(of_nat (length payload) :: u64) \<noteq> ucast (Size h)" by metis
  then show ?thesis by (simp add: WriteFrame_def EncodeFrameHeader_def buffer_write_def)
qed

text \<open>
  The size check. When width and height are below \<open>2 ^ 30\<close>, \<open>ValidateFramePayloadSize\<close> accepts exactly
  the headers of a known kind and a known pixel format whose size is width times height times the bytes
  per pixel.
\<close>

theorem ValidateFramePayloadSize_correct:
  assumes "unat (Width h) < 2 ^ 30" and "unat (Height h) < 2 ^ 30"
  shows "ValidateFramePayloadSize h = None \<longleftrightarrow>
    (Kind h = 0 \<or> Kind h = 1) \<and>
    ((PixelFmt h = PixelFormatYUYV \<or> PixelFmt h = PixelFormatZ16) \<and> unat (Size h) = unat (Width h) * unat (Height h) * 2 \<or>
     PixelFmt h = PixelFormatRGB24 \<and> unat (Size h) = unat (Width h) * unat (Height h) * 3)"
proof -
  have "unat (Width h) * unat (Height h) < 2 ^ 30 * 2 ^ 30" using assms by (intro mult_strict_mono) auto
  then have wh: "unat (Width h * Height h) = unat (Width h) * unat (Height h)" "unat (Width h * Height h) < 2 ^ 60"
    by (simp_all add: unat_word_ariths)
  have scale: "unat (v * c) = unat v * unat c" if "unat v < 2 ^ 60" "unat c \<le> 3" for v c :: u64
  proof -
    have "unat v * unat c \<le> 2 ^ 60 * 3" using that by (intro mult_mono) auto
    also have "\<dots> < (2 ^ LENGTH(64) :: nat)" by simp
    finally have "unat v * unat c < 2 ^ LENGTH(64)" .
    then show ?thesis by (metis unat_word_ariths(2) mod_less)
  qed
  have "unat (Width h * Height h * 2) = unat (Width h * Height h) * 2"
      "unat (Width h * Height h * 3) = unat (Width h * Height h) * 3"
    using scale [OF wh(2), of 2] scale [OF wh(2), of 3] by simp_all
  then have "unat (Width h * Height h * 2) = unat (Width h) * unat (Height h) * 2"
      "unat (Width h * Height h * 3) = unat (Width h) * unat (Height h) * 3"
    using wh(1) by simp_all
  then have sz: "Width h * Height h * 2 = ucast (Size h) \<longleftrightarrow> unat (Size h) = unat (Width h) * unat (Height h) * 2"
      "Width h * Height h * 3 = ucast (Size h) \<longleftrightarrow> unat (Size h) = unat (Width h) * unat (Height h) * 3"
    by (auto simp: word_unat_eq_iff)
  have "PixelFormatRGB24 \<noteq> PixelFormatYUYV" "PixelFormatRGB24 \<noteq> PixelFormatZ16"
    by (simp_all add: PixelFormatRGB24_def PixelFormatYUYV_def PixelFormatZ16_def)
  then show ?thesis using sz by (auto simp: ValidateFramePayloadSize_def Let_def)
qed

theorem ValidateFramePayloadSize_correct_witness:
  "ValidateFramePayloadSize sample_header = None"
  using ValidateFramePayloadSize_correct [of sample_header] by simp

text \<open>
  For larger dimensions the 64-bit product wraps around: a header that claims a picture of more than
  four billion columns and two billion rows passes the check with a payload of 64 KiB.
\<close>

lemma ValidateFramePayloadSize_wraps:
  "ValidateFramePayloadSize \<lparr>Kind = 1, Serial = 0, Timestamp = 0, Width = 4294901761, Height = 2147516416,
     PixelFmt = PixelFormatZ16, Size = 65536\<rparr> = None"
  by (simp add: ValidateFramePayloadSize_def)

section \<open>The Jetson format\<close>

definition jetsonFrame :: "u8 \<Rightarrow> bytes \<Rightarrow> bytes" where
  "jetsonFrame k img = mpquicMagic @ put_be 4 (of_nat (Suc (length img)) :: u32) @ k # img"

text \<open>
  A frame sent by a Jetson client (magic, length of kind and image, kind, image) is read back with the
  kind and the image; every input that does not start with the magic is refused.
\<close>

theorem ReadJetsonFrame_frame:
  assumes "length img < 2 ^ 32 - 1"
  shows "ReadJetsonFrame (jetsonFrame k img @ rest) =
    Inr (\<lparr>Kind = k, Serial = 0, Timestamp = 0, Width = 640, Height = 480, PixelFmt = PixelFormatJPEG,
          Size = of_nat (length img)\<rparr>, img, rest)"
proof -
  have len: "length mpquicMagic = 4" by (simp add: mpquicMagic_def)
  have "unat (of_nat (Suc (length img)) :: u32) = Suc (length img)" using assms by (simp add: unat_of_nat del: of_nat_Suc)
  moreover have "(of_nat (Suc (length img)) :: u32) - 1 = of_nat (length img)" by simp
  moreover have "ReadFull (Suc (length img)) (k # img @ rest) = Inr (k # img, rest)"
    using ReadFull_append [of "k # img"] by simp
  ultimately show ?thesis
    by (simp add: ReadJetsonFrame_def jetsonFrame_def len codec_simps Let_def del: of_nat_Suc put_be.simps)
qed

theorem ReadJetsonFrame_frame_witness:
  "ReadJetsonFrame (jetsonFrame 1 [5, 6] @ [7]) =
    Inr (\<lparr>Kind = 1, Serial = 0, Timestamp = 0, Width = 640, Height = 480, PixelFmt = PixelFormatJPEG,
          Size = of_nat (length [5 :: u8, 6])\<rparr>, [5, 6], [7])"
  by (rule ReadJetsonFrame_frame) simp

text \<open>A frame of length zero makes \<open>ReadJetsonFrame\<close> panic.\<close>

lemma ReadJetsonFrame_zero_panics: "ReadJetsonFrame (mpquicMagic @ put_be 4 (0 :: u32) @ rest) = Inl PanicIndex"
proof -
  have "length mpquicMagic = 4" by (simp add: mpquicMagic_def)
  moreover have "ReadFull 0 rest = Inr ([], rest)" by (simp add: ReadFull_def)
  ultimately show ?thesis by (simp add: ReadJetsonFrame_def codec_simps Let_def del: put_be.simps)
qed

end
