(* ===== verification/Video_Handlers.thy ===== *)
theory Video_Handlers
  imports Video_Codec Decimal "HOL-Library.Char_ord" "HOL-Library.List_Lexorder"
begin

text \<open>
  \<^verbatim>\<open>internal/handler\<close>: what the server does with the frames it receives. \<^verbatim>\<open>handler.go\<close> keeps the latest RGB
  and depth frame in memory, \<^verbatim>\<open>image_handler.go\<close> writes them as PNG files, \<^verbatim>\<open>jetson_handler.go\<close> writes
  numbered JPEG files and deletes old ones, and \<^verbatim>\<open>echo.go\<close> returns its input.

  The two frame directories are one map from directory and file name to contents. What the operating
  system answers (a write that fails before or after it has created the file, a directory that cannot be read, a
  file that cannot be removed) is a
  record of arguments, as are the JPEG to PNG conversion and the formatting of a time.
\<close>

section \<open>Frames\<close>

definition FrameKindRGB :: u8 where "FrameKindRGB = 0"
definition FrameKindDepth :: u8 where "FrameKindDepth = 1"
definition StreamDepth :: u8 where "StreamDepth = 0"
definition StreamRGB :: u8 where "StreamRGB = 1"

lemmas kind_defs = FrameKindRGB_def FrameKindDepth_def StreamDepth_def StreamRGB_def

record video_frame =
  fr_Kind :: u8
  fr_Serial :: u64
  fr_Timestamp :: int
  fr_Width :: u64
  fr_Height :: u64
  fr_PixelFmt :: bytes
  fr_Data :: bytes

record frame_snapshot =
  snap_RGB :: "video_frame option"
  snap_Depth :: "video_frame option"

datatype handler_error =
    EmptyPayload
  | UnknownStreamType u8
  | InvalidFrameKind u8
  | InvalidFrameSize u64 nat
  | EncodeFailed string
  | WriteFileFailed string
  | FrameDataTooShort

section \<open>The in-memory handler\<close>

record multi_stream_handler =
  ms_rgb :: "video_frame option"
  ms_depth :: "video_frame option"

definition NewMultiStreamHandler :: multi_stream_handler where
  "NewMultiStreamHandler = \<lparr>ms_rgb = None, ms_depth = None\<rparr>"

definition MultiStoreFrame :: "video_frame \<Rightarrow> multi_stream_handler \<Rightarrow> multi_stream_handler \<times> handler_error option" where
  "MultiStoreFrame f h =
     (if fr_Kind f \<noteq> FrameKindRGB \<and> fr_Kind f \<noteq> FrameKindDepth then (h, Some (InvalidFrameKind (fr_Kind f)))
      else
        let expectedSize = fr_Width f * fr_Height f * 2 in
        if (of_nat (length (fr_Data f)) :: u64) \<noteq> expectedSize
        then (h, Some (InvalidFrameSize expectedSize (length (fr_Data f))))
        else if fr_Kind f = FrameKindRGB then (h\<lparr>ms_rgb := Some f\<rparr>, None)
        else (h\<lparr>ms_depth := Some f\<rparr>, None))"

definition MultiSnapshot :: "multi_stream_handler \<Rightarrow> frame_snapshot" where
  "MultiSnapshot h = \<lparr>snap_RGB = ms_rgb h, snap_Depth = ms_depth h\<rparr>"

definition MultiNextSerial :: "u8 \<Rightarrow> multi_stream_handler \<Rightarrow> u64" where
  "MultiNextSerial kind h =
     (if kind = FrameKindRGB then (case ms_rgb h of Some f \<Rightarrow> fr_Serial f + 1 | None \<Rightarrow> 1)
      else if kind = FrameKindDepth then (case ms_depth h of Some f \<Rightarrow> fr_Serial f + 1 | None \<Rightarrow> 1)
      else 1)"

definition MultiHandle :: "int \<Rightarrow> bytes \<Rightarrow> multi_stream_handler \<Rightarrow> multi_stream_handler \<times> (handler_error + bytes)" where
  "MultiHandle now payload h =
     (case payload of
        [] \<Rightarrow> (h, Inl EmptyPayload)
      | st # data \<Rightarrow>
          let store = (\<lambda>kind. case MultiStoreFrame
                \<lparr>fr_Kind = kind, fr_Serial = MultiNextSerial kind h, fr_Timestamp = now, fr_Width = 640, fr_Height = 480,
                 fr_PixelFmt = PixelFormatYUYV, fr_Data = data\<rparr> h of
                  (h', Some e) \<Rightarrow> (h', Inl e)
                | (h', None) \<Rightarrow> (h', Inr [st, 6]))
          in if st = StreamDepth then store FrameKindDepth
             else if st = StreamRGB then store FrameKindRGB
             else (h, Inl (UnknownStreamType st)))"

definition EchoHandle :: "bytes \<Rightarrow> handler_error + bytes" where
  "EchoHandle payload = Inr payload"

section \<open>Files\<close>

datatype dir = RGBDir | DepthDir

type_synonym files = "(dir \<times> string, bytes) gomap"

text \<open>
  \<open>os.WriteFile\<close> creates or truncates the file, writes and closes it. It fails either before that, and then the files
  are as they were, or after some number of bytes were written, and then the file stays with these bytes.
\<close>

datatype write_fault = OpenFails string | WriteStops nat string

record os_env =
  writeErr :: "dir \<Rightarrow> string \<Rightarrow> write_fault option"
  readDirErr :: "dir \<Rightarrow> string option"
  removeOK :: "dir \<Rightarrow> string \<Rightarrow> bool"

definition healthy_os :: os_env where
  "healthy_os = \<lparr>writeErr = \<lambda>_ _. None, readDirErr = \<lambda>_. None, removeOK = \<lambda>_ _. True\<rparr>"

definition WriteFile :: "os_env \<Rightarrow> dir \<Rightarrow> string \<Rightarrow> bytes \<Rightarrow> files \<Rightarrow> files \<times> handler_error option" where
  "WriteFile env d name data fs =
     (case writeErr env d name of
        None \<Rightarrow> (AList.update (d, name) data fs, None)
      | Some (OpenFails e) \<Rightarrow> (fs, Some (WriteFileFailed e))
      | Some (WriteStops k e) \<Rightarrow> (AList.update (d, name) (take k data) fs, Some (WriteFileFailed e)))"

definition frameDir :: "u8 \<Rightarrow> dir" where
  "frameDir kind = (if kind = FrameKindDepth then DepthDir else RGBDir)"

section \<open>The PNG handler\<close>

record image_handler =
  lastRGB :: "video_frame option"
  lastDepth :: "video_frame option"
  img_files :: files

definition imageFileName :: "(int \<Rightarrow> string) \<Rightarrow> video_frame \<Rightarrow> string" where
  "imageFileName fmtTime f = ''frame_'' @ dec_string (unat (fr_Serial f)) @ ''_'' @ fmtTime (fr_Timestamp f) @ ''.png''"

definition ImageStoreFrame :: "os_env \<Rightarrow> (int \<Rightarrow> string) \<Rightarrow> (bytes \<Rightarrow> string + bytes) \<Rightarrow> video_frame \<Rightarrow> image_handler \<Rightarrow>
    image_handler \<times> handler_error option" where
  "ImageStoreFrame env fmtTime encodeJPEGtoPNG f h =
     (let h = (if fr_Kind f = FrameKindRGB then h\<lparr>lastRGB := Some f\<rparr> else h\<lparr>lastDepth := Some f\<rparr>);
          png = (if fr_PixelFmt f = PixelFormatJPEG then encodeJPEGtoPNG (fr_Data f) else Inr (fr_Data f))
      in case png of
           Inl e \<Rightarrow> (h, Some (EncodeFailed e))
         | Inr pngData \<Rightarrow>
             (case WriteFile env (frameDir (fr_Kind f)) (imageFileName fmtTime f) pngData (img_files h) of
                (fs, err) \<Rightarrow> (h\<lparr>img_files := fs\<rparr>, err)))"

definition ImageSnapshot :: "image_handler \<Rightarrow> frame_snapshot" where
  "ImageSnapshot h = \<lparr>snap_RGB = lastRGB h, snap_Depth = lastDepth h\<rparr>"

definition ImageHandle :: "os_env \<Rightarrow> (int \<Rightarrow> string) \<Rightarrow> (bytes \<Rightarrow> string + bytes) \<Rightarrow> int \<Rightarrow> bytes \<Rightarrow> image_handler \<Rightarrow>
    image_handler \<times> (handler_error + bytes)" where
  "ImageHandle env fmtTime toPNG now payload h =
     (case payload of
        [] \<Rightarrow> (h, Inl EmptyPayload)
      | st # data \<Rightarrow>
          let store = (\<lambda>kind. case ImageStoreFrame env fmtTime toPNG
                \<lparr>fr_Kind = kind, fr_Serial = 1, fr_Timestamp = now, fr_Width = 640, fr_Height = 480,
                 fr_PixelFmt = PixelFormatJPEG, fr_Data = data\<rparr> h of
                  (h', Some e) \<Rightarrow> (h', Inl e)
                | (h', None) \<Rightarrow> (h', Inr [st, 6]))
          in if st = StreamDepth then store FrameKindDepth
             else if st = StreamRGB then store FrameKindRGB
             else (h, Inl (UnknownStreamType st)))"

section \<open>The Jetson handler\<close>

definition maxFrames :: nat where "maxFrames = 30"

record jetson_handler =
  rgbSerial :: u64
  depthSerial :: u64
  jet_files :: files

definition NewJetsonHandler :: "files \<Rightarrow> jetson_handler" where
  "NewJetsonHandler fs = \<lparr>rgbSerial = 1, depthSerial = 1, jet_files = fs\<rparr>"

definition nextSerial :: "u8 \<Rightarrow> jetson_handler \<Rightarrow> jetson_handler \<times> u64" where
  "nextSerial kind h =
     (if kind = FrameKindRGB then (h\<lparr>rgbSerial := rgbSerial h + 1\<rparr>, rgbSerial h)
      else if kind = FrameKindDepth then (h\<lparr>depthSerial := depthSerial h + 1\<rparr>, depthSerial h)
      else (h, 1))"

text \<open>\<open>filepath.Ext\<close>: the suffix that starts at the last dot.\<close>

definition fileExt :: "string \<Rightarrow> string" where
  "fileExt name = (if CHR ''.'' \<in> set name then CHR ''.'' # rev (takeWhile (\<lambda>c. c \<noteq> CHR ''.'') (rev name)) else [])"

definition jpgNames :: "dir \<Rightarrow> files \<Rightarrow> string list" where
  "jpgNames d fs = map snd (filter (\<lambda>(d', n). d' = d \<and> fileExt n = ''.jpg'') (map fst fs))"

definition removeFile :: "os_env \<Rightarrow> dir \<Rightarrow> files \<Rightarrow> string \<Rightarrow> files" where
  "removeFile env d fs name = (if removeOK env d name then AList.delete (d, name) fs else fs)"

text \<open>\<open>sort.Strings\<close> orders by bytes.\<close>

definition cleanupOldFrames :: "os_env \<Rightarrow> dir \<Rightarrow> files \<Rightarrow> files \<times> string option" where
  "cleanupOldFrames env d fs =
     (case readDirErr env d of
        Some e \<Rightarrow> (fs, Some e)
      | None \<Rightarrow>
          let names = jpgNames d fs in
          if length names \<le> maxFrames then (fs, None)
          else (foldl (removeFile env d) fs (take (length names - maxFrames) (sort names)), None))"

definition jpgName :: "u64 \<Rightarrow> string" where
  "jpgName serial = dec_string (unat serial) @ ''.jpg''"

definition HandleJetsonRawStream :: "os_env \<Rightarrow> bytes \<Rightarrow> u8 \<Rightarrow> jetson_handler \<Rightarrow> jetson_handler \<times> handler_error option" where
  "HandleJetsonRawStream env frameData kind h =
     (if frameData = [] then (h, Some FrameDataTooShort)
      else
        let d = frameDir kind;
            (h, serial) = nextSerial kind h
        in case WriteFile env d (jpgName serial) frameData (jet_files h) of
             (fs, Some e) \<Rightarrow> (h\<lparr>jet_files := fs\<rparr>, Some e)
           | (fs, None) \<Rightarrow> (h\<lparr>jet_files := fst (cleanupOldFrames env d fs)\<rparr>, None))"

text \<open>\<open>HandleJetsonStream\<close> on the whole content of a reader: the first byte is dropped without a look.\<close>

definition HandleJetsonStream :: "os_env \<Rightarrow> bytes \<Rightarrow> u8 \<Rightarrow> jetson_handler \<Rightarrow> jetson_handler \<times> handler_error option" where
  "HandleJetsonStream env payload kind h =
     (if payload = [] then (h, Some FrameDataTooShort)
      else
        let d = frameDir kind;
            (h, serial) = nextSerial kind h
        in case WriteFile env d (jpgName serial) (tl payload) (jet_files h) of
             (fs, Some e) \<Rightarrow> (h\<lparr>jet_files := fs\<rparr>, Some e)
           | (fs, None) \<Rightarrow> (h\<lparr>jet_files := fst (cleanupOldFrames env d fs)\<rparr>, None))"

section \<open>The in-memory handler stores what it accepts\<close>



section \<open>The outcomes of a save\<close>

lemma nextSerial_files [simp]: "jet_files (fst (nextSerial kind h)) = jet_files h"
  by (simp add: nextSerial_def)

lemma HandleJetsonRawStream_cases [consumes 1, case_names short unopened partial saved]:
  assumes "HandleJetsonRawStream env img kind h = (h', e)"
  obtains "img = []" "h' = h" "e = Some FrameDataTooShort"
  | m where "img \<noteq> []" "writeErr env (frameDir kind) (jpgName (snd (nextSerial kind h))) = Some (OpenFails m)"
      "h' = fst (nextSerial kind h)" "e = Some (WriteFileFailed m)"
  | k m where "img \<noteq> []" "writeErr env (frameDir kind) (jpgName (snd (nextSerial kind h))) = Some (WriteStops k m)"
      "h' = (fst (nextSerial kind h))\<lparr>jet_files := AList.update (frameDir kind, jpgName (snd (nextSerial kind h))) (take k img) (jet_files h)\<rparr>"
      "e = Some (WriteFileFailed m)"
  | "img \<noteq> []" "writeErr env (frameDir kind) (jpgName (snd (nextSerial kind h))) = None"
      "h' = (fst (nextSerial kind h))\<lparr>jet_files := fst (cleanupOldFrames env (frameDir kind)
        (AList.update (frameDir kind, jpgName (snd (nextSerial kind h))) img (jet_files h)))\<rparr>" "e = None"
  using assms that
  by (auto simp: HandleJetsonRawStream_def WriteFile_def Let_def split_def split: if_splits option.splits write_fault.splits)

section \<open>Cleaning up old frames\<close>

lemma jpgNames_delete: "jpgNames d (AList.delete (d, n) fs) = filter (\<lambda>m. m \<noteq> n) (jpgNames d fs)"
  by (induction fs) (auto simp: jpgNames_def)

lemma jpgNames_update: "(d, n) \<notin> fst ` set fs \<Longrightarrow> fileExt n = ''.jpg'' \<Longrightarrow> jpgNames d (AList.update (d, n) v fs) = jpgNames d fs @ [n]"
  by (induction fs) (auto simp: jpgNames_def)

lemma distinct_jpgNames: "wf_map fs \<Longrightarrow> distinct (jpgNames d fs)"
  by (auto simp: jpgNames_def distinct_map intro!: inj_onI)

lemma removeFiles:
  assumes "\<And>n. removeOK env d n"
  shows "jpgNames d (foldl (removeFile env d) fs ns) = filter (\<lambda>m. m \<notin> set ns) (jpgNames d fs)"
    and "map_of (foldl (removeFile env d) fs ns) (d', n) = (if d' = d \<and> n \<in> set ns then None else map_of fs (d', n))"
  using assms by (induction ns arbitrary: fs) (auto simp: removeFile_def jpgNames_delete intro!: filter_cong)

lemma length_filter_notin:
  "distinct xs \<Longrightarrow> distinct ys \<Longrightarrow> set ys \<subseteq> set xs \<Longrightarrow> length (filter (\<lambda>x. x \<notin> set ys) xs) = length xs - length ys"
  by (metis distinct_card distinct_filter set_diff_eq Diff_eq card_Diff_subset finite_set set_filter)

lemma cleanupOldFrames_cases:
  assumes "readDirErr env d = None" and "\<And>n. removeOK env d n" and "wf_map fs"
  defines "ns \<equiv> take (length (jpgNames d fs) - maxFrames) (sort (jpgNames d fs))"
  shows "jpgNames d (fst (cleanupOldFrames env d fs)) = filter (\<lambda>m. m \<notin> set ns) (jpgNames d fs)"
    and "map_of (fst (cleanupOldFrames env d fs)) (d', n) = (if d' = d \<and> n \<in> set ns then None else map_of fs (d', n))"
    and "set ns \<subseteq> set (jpgNames d fs)" and "distinct ns" and "length ns = length (jpgNames d fs) - maxFrames"
  using removeFiles [where env = env and d = d and fs = fs and ns = ns, OF assms(2)] assms(1) distinct_jpgNames [OF assms(3), of d]
  by (auto simp: cleanupOldFrames_def Let_def ns_def distinct_take dest: in_set_takeD)

text \<open>
  The cleanup bounds the number of stored images. When the directory can be read and files can be
  removed, at most 30 JPEG files remain in it, exactly as many as needed are removed, each of them a
  JPEG file of that directory, and everything else is kept.
\<close>

theorem cleanupOldFrames_bound:
  assumes "readDirErr env d = None" and "\<And>n. removeOK env d n" and "wf_map fs"
  shows "length (jpgNames d (fst (cleanupOldFrames env d fs))) = min maxFrames (length (jpgNames d fs)) \<and>
    (\<forall>d' n. map_of (fst (cleanupOldFrames env d fs)) (d', n) = map_of fs (d', n) \<or> d' = d \<and> n \<in> set (jpgNames d fs))"
proof -
  note c = cleanupOldFrames_cases [OF assms]
  have "length (jpgNames d (fst (cleanupOldFrames env d fs))) = length (jpgNames d fs) - (length (jpgNames d fs) - maxFrames)"
    unfolding c(1) using length_filter_notin [OF distinct_jpgNames [OF assms(3)] c(4,3)] c(5) by simp
  then show ?thesis using c(2,3) by auto
qed

abbreviation full_dir :: files where
  "full_dir \<equiv> map (\<lambda>n. ((RGBDir, dec_string n @ ''.jpg''), [1])) ([8, 9] @ [72..<100])"

lemma full_dir_eval: "wf_map full_dir" "length (jpgNames RGBDir full_dir) = 30"
  "list_all (\<lambda>n. jpgName 100 < n) (jpgNames RGBDir full_dir)"
  by code_simp+

theorem cleanupOldFrames_bound_witness:
  "length (jpgNames RGBDir (fst (cleanupOldFrames healthy_os RGBDir full_dir))) = min maxFrames (length (jpgNames RGBDir full_dir))"
  using cleanupOldFrames_bound [of healthy_os RGBDir full_dir] full_dir_eval(1) by (simp add: healthy_os_def)

lemma sort_snoc_least: "\<forall>y \<in> set xs. x < y \<Longrightarrow> sort (xs @ [x]) = x # sort xs" for x :: "'a::linorder"
proof -
  assume least: "\<forall>y \<in> set xs. x < y"
  have "mset (x # sort xs) = mset (xs @ [x])" by simp
  moreover have "sorted (x # sort xs)" using least by (auto simp: less_imp_le)
  ultimately show ?thesis by (rule properties_for_sort)
qed

lemma fileExt_jpg: "fileExt (s @ ''.jpg'') = ''.jpg''"
  by (simp add: fileExt_def)

text \<open>
  C37: \<open>cleanupOldFrames\<close> sorts file names as strings, not by serial number, so it may delete the newest
  frame instead of the oldest. Whenever 30 frames are stored and the new file name sorts before all of
  them (as \<^verbatim>\<open>100.jpg\<close> does before \<^verbatim>\<open>72.jpg\<close> to \<^verbatim>\<open>99.jpg\<close>), saving the frame reports success and leaves the
  directory exactly as it was: the new frame is lost and the old ones stay.
\<close>

theorem cleanup_deletes_newest:
  assumes "length (jpgNames (frameDir kind) (jet_files h)) = maxFrames"
    and "list_all (\<lambda>n. jpgName (snd (nextSerial kind h)) < n) (jpgNames (frameDir kind) (jet_files h))"
    and "(frameDir kind, jpgName (snd (nextSerial kind h))) \<notin> fst ` set (jet_files h)" and "img \<noteq> []"
  shows "\<exists>h'. HandleJetsonRawStream healthy_os img kind h = (h', None) \<and> jet_files h' = jet_files h"
proof -
  let ?d = "frameDir kind" and ?n = "jpgName (snd (nextSerial kind h))" and ?fs = "jet_files h"
  let ?fs' = "AList.update (?d, ?n) img ?fs"
  have names: "jpgNames ?d ?fs' = jpgNames ?d ?fs @ [?n]"
    using assms(3) by (intro jpgNames_update) (simp_all add: jpgName_def fileExt_jpg)
  have "sort (jpgNames ?d ?fs @ [?n]) = ?n # sort (jpgNames ?d ?fs)"
    using assms(2) by (intro sort_snoc_least) (simp add: list_all_iff)
  then have "fst (cleanupOldFrames healthy_os ?d ?fs') = AList.delete (?d, ?n) ?fs'"
    using assms(1) names by (simp add: cleanupOldFrames_def healthy_os_def Let_def removeFile_def)
  also have "\<dots> = ?fs" using assms(3) by (simp add: delete_update_same delete_idem)
  finally have del: "fst (cleanupOldFrames healthy_os ?d ?fs') = ?fs" .
  have "jet_files (fst (nextSerial kind h)) = ?fs" by (simp add: nextSerial_def)
  then show ?thesis
    using assms(4) del by (simp add: HandleJetsonRawStream_def WriteFile_def Let_def split_def) (simp add: healthy_os_def)
qed

theorem cleanup_deletes_newest_witness:
  "\<exists>h'. HandleJetsonRawStream healthy_os [7] FrameKindRGB \<lparr>rgbSerial = 100, depthSerial = 1, jet_files = full_dir\<rparr> = (h', None) \<and>
     jet_files h' = jet_files \<lparr>rgbSerial = 100, depthSerial = 1, jet_files = full_dir\<rparr>"
proof (rule cleanup_deletes_newest)
  have "snd (nextSerial FrameKindRGB \<lparr>rgbSerial = 100, depthSerial = 1, jet_files = full_dir\<rparr>) = 100"
    by (simp add: nextSerial_def)
  moreover have "frameDir FrameKindRGB = RGBDir" by (simp add: frameDir_def kind_defs)
  moreover have "(RGBDir, jpgName 100) \<notin> fst ` set full_dir" by code_simp
  ultimately show "list_all (\<lambda>n. jpgName (snd (nextSerial FrameKindRGB \<lparr>rgbSerial = 100, depthSerial = 1, jet_files = full_dir\<rparr>)) < n)
      (jpgNames (frameDir FrameKindRGB) (jet_files \<lparr>rgbSerial = 100, depthSerial = 1, jet_files = full_dir\<rparr>))"
    "(frameDir FrameKindRGB, jpgName (snd (nextSerial FrameKindRGB \<lparr>rgbSerial = 100, depthSerial = 1, jet_files = full_dir\<rparr>)))
      \<notin> fst ` set (jet_files \<lparr>rgbSerial = 100, depthSerial = 1, jet_files = full_dir\<rparr>)"
    "length (jpgNames (frameDir FrameKindRGB) (jet_files \<lparr>rgbSerial = 100, depthSerial = 1, jet_files = full_dir\<rparr>)) = maxFrames"
    using full_dir_eval by (simp_all only: maxFrames_def jetson_handler.simps not_False_eq_True)
qed simp

end
