(* ===== verification/Video_Stream.thy ===== *)
theory Video_Stream
  imports Video_Handlers
begin

text \<open>
  \<^verbatim>\<open>internal/conn/stream.go\<close>: what the server does with one incoming stream. The stream first goes to the
  Jetson loop, which reads frame after frame, stores each and acknowledges it; if that loop returns an
  error, the rest of the stream goes to the plain handler.

  The input is the list of the bytes the stream will deliver, followed by a clean end (\<open>fin = None\<close>) or an
  error (\<open>fin = Some e\<close>); \<open>ackOK k\<close> says whether writing the acknowledgement of frame \<open>k\<close> succeeds. The loop
  consumes at least nine bytes per frame, so it is a total function.
\<close>

datatype stream_error =
    ReadMagic io_error
  | BadMagic bytes
  | ReadLength io_error
  | PayloadTooShort
  | ReadPayload io_error
  | UnknownJetsonKind u8
  | HandleJetson handler_error
  | WriteAck
  | ReadStream io_error
  | HandlePayload handler_error
  | WriteResponse
  | EmptyReader

text \<open>\<open>io.ReadFull\<close> on the stream, with the rest of the input; a failed read consumes what there is.\<close>

definition streamReadFull :: "string option \<Rightarrow> nat \<Rightarrow> bytes \<Rightarrow> (io_error + bytes) \<times> bytes" where
  "streamReadFull fin n r =
     (if n \<le> length r then (Inr (take n r), drop n r)
      else case fin of
             Some e \<Rightarrow> (Inl (ReadFailed e), [])
           | None \<Rightarrow> (Inl (if r = [] then EOF else UnexpectedEOF), []))"

definition jetsonMagic :: bytes where "jetsonMagic = [0x4D, 0x50, 0x51, 0x31]"

definition ack :: bytes where "ack = [0x41, 0x43]"

definition jetsonKind :: "u8 \<Rightarrow> u8 option" where
  "jetsonKind k = (if k = 0 then Some FrameKindDepth else if k = 1 then Some FrameKindRGB else None)"

text \<open>One round of the loop: either it ends the loop, or it hands on the new state and the rest of the input.\<close>

datatype round_result = Stop jetson_handler bytes "stream_error option" | Stored jetson_handler bytes

definition jetsonRound :: "os_env \<Rightarrow> string option \<Rightarrow> jetson_handler \<Rightarrow> bytes \<Rightarrow> round_result" where
  "jetsonRound env fin h r =
     (case streamReadFull fin 4 r of
        (Inl e, r) \<Rightarrow> Stop h r (if e = EOF \<or> e = UnexpectedEOF then None else Some (ReadMagic e))
      | (Inr magic, r) \<Rightarrow>
          if magic \<noteq> jetsonMagic then Stop h r (Some (BadMagic magic))
          else
            case streamReadFull fin 4 r of
              (Inl e, r) \<Rightarrow> Stop h r (Some (ReadLength e))
            | (Inr lengthBuf, r) \<Rightarrow>
                let len = (get_be lengthBuf :: u32) in
                if len < 1 then Stop h r (Some PayloadTooShort)
                else
                  case streamReadFull fin (unat len) r of
                    (Inl e, r) \<Rightarrow> Stop h r (Some (ReadPayload e))
                  | (Inr payload, r) \<Rightarrow>
                      (case jetsonKind (hd payload) of
                         None \<Rightarrow> Stop h r (Some (UnknownJetsonKind (hd payload)))
                       | Some kind \<Rightarrow>
                           (case HandleJetsonRawStream env (tl payload) kind h of
                              (h, Some e) \<Rightarrow> Stop h r (Some (HandleJetson e))
                            | (h, None) \<Rightarrow> Stored h r)))"

lemma streamReadFull_rest: "streamReadFull fin n r = (x, r') \<Longrightarrow> length r' \<le> length r - n"
  by (auto simp: streamReadFull_def split: if_splits option.splits)

lemma jetsonRound_shrinks: "jetsonRound env fin h r = Stored h' r' \<Longrightarrow> length r' < length r"
  unfolding jetsonRound_def Let_def
  by (auto split: prod.splits sum.splits if_splits option.splits dest!: streamReadFull_rest simp: streamReadFull_def)

text \<open>The loop. The result is the handler, the acknowledgements written, the rest of the input and the error.\<close>

function handleJetsonStream :: "os_env \<Rightarrow> string option \<Rightarrow> (nat \<Rightarrow> bool) \<Rightarrow> nat \<Rightarrow> jetson_handler \<Rightarrow> bytes \<Rightarrow> bytes \<Rightarrow>
    jetson_handler \<times> bytes \<times> bytes \<times> stream_error option" where
  "handleJetsonStream env fin ackOK frameCount h out r =
     (case jetsonRound env fin h r of
        Stop h r err \<Rightarrow> (h, out, r, err)
      | Stored h r \<Rightarrow>
          if ackOK (frameCount + 1) then handleJetsonStream env fin ackOK (frameCount + 1) h (out @ ack) r
          else (h, out, r, Some WriteAck))"
  by auto
termination
  by (relation "measure (\<lambda>(env, fin, ackOK, frameCount, h, out, r). length r)") (auto simp: jetsonRound_shrinks)

declare handleJetsonStream.simps [simp del]

section \<open>The stream handler\<close>

text \<open>
  \<open>Handle\<close> on a stream. The plain handler is a function on its own state; \<open>chunk\<close> is how many bytes the
  single \<open>Read\<close> into the buffer of 64 KiB delivers, at least one of what there is.
\<close>

definition bufferSize :: nat where "bufferSize = 65536"

definition streamRead :: "string option \<Rightarrow> nat \<Rightarrow> bytes \<Rightarrow> io_error + bytes" where
  "streamRead fin chunk r =
     (if r = [] then (case fin of None \<Rightarrow> Inl EOF | Some e \<Rightarrow> Inl (ReadFailed e))
      else Inr (take (max 1 (min chunk bufferSize)) r))"

definition plainHandle :: "string option \<Rightarrow> nat \<Rightarrow> bool \<Rightarrow> ('h \<Rightarrow> bytes \<Rightarrow> 'h \<times> (handler_error + bytes)) \<Rightarrow> 'h \<Rightarrow> bytes \<Rightarrow>
    'h \<times> bytes \<times> stream_error option" where
  "plainHandle fin chunk writeOK hnd p r =
     (case streamRead fin chunk r of
        Inl e \<Rightarrow> (p, [], if e = EOF then None else Some (ReadStream e))
      | Inr payload \<Rightarrow>
          (case hnd p payload of
             (p, Inl e) \<Rightarrow> (p, [], Some (HandlePayload e))
           | (p, Inr response) \<Rightarrow> if writeOK then (p, response, None) else (p, [], Some WriteResponse)))"

definition Handle :: "os_env \<Rightarrow> string option \<Rightarrow> (nat \<Rightarrow> bool) \<Rightarrow> nat \<Rightarrow> bool \<Rightarrow> ('h \<Rightarrow> bytes \<Rightarrow> 'h \<times> (handler_error + bytes)) \<Rightarrow>
    jetson_handler option \<Rightarrow> 'h \<Rightarrow> bytes \<Rightarrow> jetson_handler option \<times> 'h \<times> bytes \<times> stream_error option" where
  "Handle env fin ackOK chunk writeOK hnd jet p r =
     (case jet of
        None \<Rightarrow> (let (p, out, err) = plainHandle fin chunk writeOK hnd p r in (None, p, out, err))
      | Some h \<Rightarrow>
          (case handleJetsonStream env fin ackOK 0 h [] r of
             (h, out, r, None) \<Rightarrow> (Some h, p, out, None)
           | (h, out, r, Some _) \<Rightarrow>
               (let (p, out', err) = plainHandle fin chunk writeOK hnd p r in (Some h, p, out @ out', err))))"

definition HandleReader :: "('h \<Rightarrow> bytes \<Rightarrow> 'h \<times> (handler_error + bytes)) \<Rightarrow> 'h \<Rightarrow> bytes \<Rightarrow> 'h \<times> stream_error option" where
  "HandleReader hnd p payload =
     (if payload = [] then (p, Some EmptyReader)
      else case hnd p payload of (p, Inl e) \<Rightarrow> (p, Some (HandlePayload e)) | (p, Inr _) \<Rightarrow> (p, None))"

section \<open>A stream of Jetson frames\<close>

lemma streamReadFull_append [simp]: "length bs = n \<Longrightarrow> streamReadFull fin n (bs @ r) = (Inr bs, r)"
  by (simp add: streamReadFull_def)

lemma HandleJetsonRawStream_healthy:
  assumes "img \<noteq> []" and "kind \<in> {FrameKindRGB, FrameKindDepth}"
  shows "\<exists>h'. HandleJetsonRawStream healthy_os img kind h = (h', None) \<and>
    rgbSerial h' = rgbSerial h + of_bool (kind = FrameKindRGB) \<and>
    depthSerial h' = depthSerial h + of_bool (kind = FrameKindDepth)"
  using assms by (auto simp: HandleJetsonRawStream_def WriteFile_def healthy_os_def nextSerial_def Let_def kind_defs)

lemma jetsonRound_frame:
  assumes "length img < 2 ^ 32 - 1" and "jetsonKind k = Some kind"
  shows "jetsonRound env fin h (jetsonFrame k img @ r) =
    (case HandleJetsonRawStream env img kind h of
       (h', Some e) \<Rightarrow> Stop h' r (Some (HandleJetson e)) | (h', None) \<Rightarrow> Stored h' r)"
proof -
  let ?len = "of_nat (Suc (length img)) :: u32"
  have len: "unat ?len = Suc (length img)" using assms(1) by (simp add: unat_of_nat del: of_nat_Suc)
  then have "\<not> ?len < 1" by (simp add: word_less_nat_alt)
  moreover have "streamReadFull fin (Suc (length img)) (k # img @ r) = (Inr (k # img), r)"
    using streamReadFull_append [of "k # img"] by simp
  moreover have "length mpquicMagic = 4" "mpquicMagic = jetsonMagic" by (simp_all add: mpquicMagic_def jetsonMagic_def)
  ultimately show ?thesis
    using assms(2) len by (simp add: jetsonRound_def jetsonFrame_def codec_simps Let_def del: of_nat_Suc put_be.simps)
qed

type_synonym jetson_frames = "(u8 \<times> bytes) list"

definition wf_frames :: "jetson_frames \<Rightarrow> bool" where
  "wf_frames fs \<longleftrightarrow> list_all (\<lambda>(k, img). (k = 0 \<or> k = 1) \<and> img \<noteq> [] \<and> length img < 2 ^ 32 - 1) fs"

lemma handleJetsonStream_frames:
  assumes "wf_frames fs" and "\<And>k. ackOK k"
  shows "\<exists>h'. handleJetsonStream healthy_os None ackOK n h out (concat (map (\<lambda>(k, img). jetsonFrame k img) fs)) =
      (h', out @ concat (replicate (length fs) ack), [], None) \<and>
    rgbSerial h' = rgbSerial h + of_nat (length (filter (\<lambda>f. fst f = 1) fs)) \<and>
    depthSerial h' = depthSerial h + of_nat (length (filter (\<lambda>f. fst f = 0) fs))"
  using assms(1)
proof (induction fs arbitrary: n h out)
  case Nil
  then show ?case by (simp add: handleJetsonStream.simps jetsonRound_def streamReadFull_def)
next
  case (Cons f fs)
  obtain k img where f: "f = (k, img)" by fastforce
  then obtain kind where kind: "jetsonKind k = Some kind" "kind \<in> {FrameKindRGB, FrameKindDepth}"
      "kind = FrameKindRGB \<longleftrightarrow> k = 1" "kind = FrameKindDepth \<longleftrightarrow> k = 0"
    using Cons.prems by (auto simp: wf_frames_def jetsonKind_def kind_defs)
  have img: "img \<noteq> []" "length img < 2 ^ 32 - 1" using Cons.prems f by (simp_all add: wf_frames_def)
  obtain h1 where h1: "HandleJetsonRawStream healthy_os img kind h = (h1, None)"
      "rgbSerial h1 = rgbSerial h + of_bool (k = 1)" "depthSerial h1 = depthSerial h + of_bool (k = 0)"
    using HandleJetsonRawStream_healthy [OF img(1) kind(2)] kind(3,4) by auto
  have "wf_frames fs" using Cons.prems by (simp add: wf_frames_def)
  note IH = Cons.IH [OF this, of "n + 1" h1 "out @ ack"]
  have step: "handleJetsonStream healthy_os None ackOK n h out (jetsonFrame k img @ r) =
      handleJetsonStream healthy_os None ackOK (n + 1) h1 (out @ ack) r" for r
    using jetsonRound_frame [OF img(2) kind(1)] h1(1) assms(2) by (subst handleJetsonStream.simps) simp
  show ?case using IH h1(2,3) f by (auto simp: step)
qed

text \<open>
  A stream of well-formed Jetson frames, of any number and mix of kinds, that ends cleanly is consumed
  completely without an error when files can be written: one acknowledgement per frame goes back, in
  order, and the serial number of each kind has advanced by the number of its frames. The plain handler
  is not called.
\<close>

theorem Handle_jetson_stream:
  assumes "wf_frames fs" and "\<And>k. ackOK k"
  shows "\<exists>h'. Handle healthy_os None ackOK chunk writeOK hnd (Some h) p (concat (map (\<lambda>(k, img). jetsonFrame k img) fs)) =
      (Some h', p, concat (replicate (length fs) ack), None) \<and>
    rgbSerial h' = rgbSerial h + of_nat (length (filter (\<lambda>f. fst f = 1) fs)) \<and>
    depthSerial h' = depthSerial h + of_nat (length (filter (\<lambda>f. fst f = 0) fs))"
  using handleJetsonStream_frames [where ackOK = ackOK and n = 0 and h = h and out = "[]", OF assms] by (auto simp: Handle_def)

theorem Handle_jetson_stream_witness:
  "\<exists>h'. Handle healthy_os None (\<lambda>_. True) 1 True (\<lambda>p b. (p, EchoHandle b)) (Some (NewJetsonHandler [])) ()
      (concat (map (\<lambda>(k, img). jetsonFrame k img) [(0, [1]), (1, [2, 3]), (0, [4])])) =
      (Some h', (), concat (replicate (length [(0 :: u8, [1 :: u8]), (1, [2, 3]), (0, [4])]) ack), None) \<and>
    rgbSerial h' = rgbSerial (NewJetsonHandler []) + of_nat (length (filter (\<lambda>f. fst f = 1) [(0 :: u8, [1 :: u8]), (1, [2, 3]), (0, [4])])) \<and>
    depthSerial h' = depthSerial (NewJetsonHandler []) + of_nat (length (filter (\<lambda>f. fst f = 0) [(0 :: u8, [1 :: u8]), (1, [2, 3]), (0, [4])]))"
  by (rule Handle_jetson_stream) (simp_all add: wf_frames_def)

section \<open>Streams in another format\<close>

text \<open>
  The attempt to read a Jetson frame is not undone. With a Jetson handler configured, as the server
  always does, a stream that does not start with the magic reaches the plain handler without its first
  four bytes, so the handler takes the fifth byte for the stream type; and a stream of fewer than four
  bytes never reaches it.
\<close>

theorem Handle_plain_loses_prefix:
  assumes "length pre = 4" and "pre \<noteq> jetsonMagic"
  shows "Handle env fin ackOK chunk writeOK hnd (Some h) p (pre @ payload) =
    (let (p', out, err) = plainHandle fin chunk writeOK hnd p payload in (Some h, p', out, err)) \<and>
    Handle env None ackOK chunk writeOK hnd (Some h) p (take 3 pre) = (Some h, p, [], None)"
  using assms by (simp add: Handle_def handleJetsonStream.simps jetsonRound_def streamReadFull_def)

theorem Handle_plain_loses_prefix_witness:
  "Handle healthy_os None (\<lambda>_. True) 100 True (\<lambda>p b. (p, EchoHandle b)) (Some (NewJetsonHandler [])) () ([0, 1, 2, 3] @ [4, 5]) =
    (let (p', out, err) = plainHandle None 100 True (\<lambda>p b. (p, EchoHandle b)) () [4, 5] in (Some (NewJetsonHandler []), p', out, err)) \<and>
   Handle healthy_os None (\<lambda>_. True) 100 True (\<lambda>p b. (p, EchoHandle b)) (Some (NewJetsonHandler [])) () (take 3 [0, 1, 2, 3]) = (Some (NewJetsonHandler []), (), [], None)"
  by (rule Handle_plain_loses_prefix) (simp_all add: jetsonMagic_def)

end
