(* ===== verification/Video_Store.thy ===== *)
theory Video_Store
  imports Video_Stream
begin

text \<open>
  What a stream, whatever it contains, can do to the stores of the server: the invariants of the handlers
  behind \<open>StreamHandler.Handle\<close>. The interface \<open>handler.Handler\<close> is a locale whose instances are the three
  handlers of \<^verbatim>\<open>internal/handler\<close>.
\<close>

section \<open>The handler interface\<close>

locale payload_handler =
  fixes hnd :: "'h \<Rightarrow> bytes \<Rightarrow> 'h \<times> (handler_error + bytes)" and inv :: "'h \<Rightarrow> bool"
  assumes hnd_inv: "inv h \<Longrightarrow> inv (fst (hnd h payload))"
begin

lemma plainHandle_inv: "inv p \<Longrightarrow> inv (fst (plainHandle fin chunk writeOK hnd p r))"
  using hnd_inv [of p] by (auto simp: plainHandle_def split: sum.splits prod.splits) (metis fst_conv)+

lemma Handle_inv: "inv p \<Longrightarrow> inv (fst (snd (Handle env fin ackOK chunk writeOK hnd jet p r)))"
  using plainHandle_inv [of p fin chunk writeOK]
  by (auto simp: Handle_def Let_def split: option.splits prod.splits) (metis fst_conv)+

lemma HandleReader_inv: "inv p \<Longrightarrow> inv (fst (HandleReader hnd p payload))"
  using hnd_inv [of p payload] by (auto simp: HandleReader_def split: prod.splits sum.splits)

end

text \<open>The frames a handler keeps are of the kind of their slot; the in-memory handler keeps whole frames only.\<close>

definition multi_inv :: "multi_stream_handler \<Rightarrow> bool" where
  "multi_inv h \<longleftrightarrow>
     (case ms_rgb h of None \<Rightarrow> True | Some f \<Rightarrow> fr_Kind f = FrameKindRGB \<and> (of_nat (length (fr_Data f)) :: u64) = fr_Width f * fr_Height f * 2) \<and>
     (case ms_depth h of None \<Rightarrow> True | Some f \<Rightarrow> fr_Kind f = FrameKindDepth \<and> (of_nat (length (fr_Data f)) :: u64) = fr_Width f * fr_Height f * 2)"

definition image_inv :: "image_handler \<Rightarrow> bool" where
  "image_inv h \<longleftrightarrow> (case lastRGB h of None \<Rightarrow> True | Some f \<Rightarrow> fr_Kind f = FrameKindRGB) \<and>
     (case lastDepth h of None \<Rightarrow> True | Some f \<Rightarrow> fr_Kind f = FrameKindDepth)"

lemma MultiStoreFrame_inv: "multi_inv h \<Longrightarrow> multi_inv (fst (MultiStoreFrame f h))"
  by (auto simp: multi_inv_def MultiStoreFrame_def Let_def)

interpretation multi: payload_handler "\<lambda>h payload. MultiHandle now payload h" multi_inv for now
proof
  fix h payload assume "multi_inv h"
  then show "multi_inv (fst (MultiHandle now payload h))"
    using MultiStoreFrame_inv [of h]
    by (auto simp: MultiHandle_def Let_def split: list.splits prod.splits option.splits) (metis fst_conv)+
qed

lemma ImageStoreFrame_inv:
  "image_inv h \<Longrightarrow> fr_Kind f \<in> {FrameKindRGB, FrameKindDepth} \<Longrightarrow> image_inv (fst (ImageStoreFrame env fmt toPNG f h))"
  by (auto simp: image_inv_def ImageStoreFrame_def Let_def kind_defs split: sum.splits prod.splits)

interpretation image: payload_handler "\<lambda>h payload. ImageHandle env fmt toPNG now payload h" image_inv for env fmt toPNG now
proof
  fix h payload assume "image_inv h"
  then have "fr_Kind f \<in> {FrameKindRGB, FrameKindDepth} \<Longrightarrow> image_inv (fst (ImageStoreFrame env fmt toPNG f h))" for f
    by (rule ImageStoreFrame_inv)
  then show "image_inv (fst (ImageHandle env fmt toPNG now payload h))"
    using \<open>image_inv h\<close>
    by (auto simp: ImageHandle_def Let_def split: list.splits prod.splits option.splits) (metis fst_conv insertCI video_frame.select_convs(1))+
qed

interpretation echo: payload_handler "\<lambda>_ payload. ((), EchoHandle payload)" "\<lambda>_. True"
  by unfold_locales simp

section \<open>What a stream preserves of the Jetson store\<close>

text \<open>
  A frame that is saved keeps \<open>P\<close>; a save that fails, which ends the loop, gives \<open>Q\<close>.
\<close>

lemma jetsonRound_outcome:
  assumes "\<And>img kind h'. HandleJetsonRawStream env img kind h = (h', None) \<Longrightarrow> P h'"
    and "\<And>img kind h' e. HandleJetsonRawStream env img kind h = (h', Some e) \<Longrightarrow> Q h'" and "Q h"
  shows "case jetsonRound env fin h r of Stop h' _ _ \<Rightarrow> Q h' | Stored h' _ \<Rightarrow> P h'"
  using assms by (auto simp: jetsonRound_def Let_def split: prod.splits sum.splits option.splits)

lemma handleJetsonStream_outcome:
  assumes "\<And>img kind h h'. P h \<Longrightarrow> HandleJetsonRawStream env img kind h = (h', None) \<Longrightarrow> P h'"
    and "\<And>img kind h h' e. P h \<Longrightarrow> HandleJetsonRawStream env img kind h = (h', Some e) \<Longrightarrow> Q h'" and "\<And>h. P h \<Longrightarrow> Q h"
  shows "P h \<Longrightarrow> Q (fst (handleJetsonStream env fin ackOK n h out r))"
proof (induction "length r" arbitrary: n h out r rule: less_induct)
  case less
  have "case jetsonRound env fin h r of Stop h' _ _ \<Rightarrow> Q h' | Stored h' _ \<Rightarrow> P h'"
    using jetsonRound_outcome [of env h P Q fin r] assms less.prems by blast
  then show ?case
    using less.hyps jetsonRound_shrinks [of env fin h r] assms(3)
    by (subst handleJetsonStream.simps) (auto split: round_result.splits)
qed

lemma Handle_outcome:
  assumes "\<And>img kind h h'. P h \<Longrightarrow> HandleJetsonRawStream env img kind h = (h', None) \<Longrightarrow> P h'"
    and "\<And>img kind h h' e. P h \<Longrightarrow> HandleJetsonRawStream env img kind h = (h', Some e) \<Longrightarrow> Q h'" and "\<And>h. P h \<Longrightarrow> Q h" and "P h"
    and "Handle env fin ackOK chunk writeOK hnd (Some h) p r = (Some h', p', out, e)"
  shows "Q h'"
  using handleJetsonStream_outcome [where P = P and Q = Q and env = env and h = h and fin = fin and ackOK = ackOK and n = 0 and out = "[]" and r = r,
      OF assms(1-4)] assms(5)
  by (auto simp: Handle_def Let_def split: prod.splits option.splits)

lemma Handle_preserves:
  assumes "\<And>img kind h h' e. P h \<Longrightarrow> HandleJetsonRawStream env img kind h = (h', e) \<Longrightarrow> P h'" and "P h"
    and "Handle env fin ackOK chunk writeOK hnd (Some h) p r = (Some h', p', out, e)"
  shows "P h'"
  by (rule Handle_outcome [where P = P and Q = P, OF _ _ _ assms(2,3)]) (blast intro: assms(1))+

section \<open>The store stays bounded\<close>

definition bounded_store :: "files \<Rightarrow> bool" where
  "bounded_store fs \<longleftrightarrow> wf_map fs \<and> (\<forall>d. length (jpgNames d fs) \<le> maxFrames)"

lemma jpgNames_lookup: "set (jpgNames d fs) = {n. map_of fs (d, n) \<noteq> None \<and> fileExt n = ''.jpg''}"
  by (force simp: jpgNames_def map_of_eq_None_iff)

lemma jpgNames_other:
  assumes "wf_map fs" and "wf_map fs'" and "\<And>n. map_of fs' (d, n) = map_of fs (d, n)"
  shows "length (jpgNames d fs') = length (jpgNames d fs)"
  using distinct_jpgNames [OF assms(1), of d] distinct_jpgNames [OF assms(2), of d] jpgNames_lookup [of d fs] jpgNames_lookup [of d fs'] assms(3)
  by (metis (no_types, lifting) Collect_cong distinct_card)

lemma cleanup_wf: "wf_map fs \<Longrightarrow> wf_map (fst (cleanupOldFrames env d fs))"
proof -
  assume "wf_map fs"
  then have "wf_map (foldl (removeFile env d) fs ns)" for ns
    by (induction ns arbitrary: fs) (simp_all add: removeFile_def)
  then show ?thesis using \<open>wf_map fs\<close> by (simp add: cleanupOldFrames_def Let_def split: option.splits)
qed

abbreviation jpgCount :: "dir \<Rightarrow> jetson_handler \<Rightarrow> nat" where
  "jpgCount d h \<equiv> length (jpgNames d (jet_files h))"

lemma write_cleanup_count:
  assumes "\<And>d. readDirErr env d = None" and "\<And>d n. removeOK env d n" and "wf_map fs"
  shows "length (jpgNames d' (fst (cleanupOldFrames env d (AList.update (d, n) img fs)))) \<le> max maxFrames (length (jpgNames d' fs))"
proof -
  let ?fs = "AList.update (d, n) img fs"
  have wf: "wf_map ?fs" using assms(3) by simp
  note c = cleanupOldFrames_bound [OF assms(1,2) wf, of d]
  show ?thesis
  proof (cases "d' = d")
    case False
    then have "map_of (fst (cleanupOldFrames env d ?fs)) (d', m) = map_of fs (d', m)" for m
      using c [THEN conjunct2, rule_format, of d' m] by simp
    from jpgNames_other [OF assms(3) cleanup_wf [OF wf] this] show ?thesis by simp
  qed (use c in simp)
qed

lemma write_count:
  assumes "wf_map fs"
  shows "length (jpgNames d' (AList.update (d, n) v fs)) \<le> length (jpgNames d' fs) + of_bool (d' = d)"
proof (cases "d' = d")
  case True
  have "card (insert n (set (jpgNames d fs))) \<le> Suc (card (set (jpgNames d fs)))" by (simp add: card_insert_if)
  moreover have "card (set (jpgNames d (AList.update (d, n) v fs))) \<le> card (insert n (set (jpgNames d fs)))"
    by (intro card_mono finite.insertI finite_set) (auto simp: jpgNames_lookup)
  ultimately show ?thesis
    using True assms distinct_card [OF distinct_jpgNames, of _ d] by simp
next
  case False
  then show ?thesis using jpgNames_other [OF assms, of "AList.update (d, n) v fs" d'] assms by simp
qed

text \<open>Directories where a write may fail after the file was created.\<close>

definition stops :: "os_env \<Rightarrow> dir \<Rightarrow> bool" where
  "stops env d \<longleftrightarrow> (\<exists>n k e. writeErr env d n = Some (WriteStops k e))"

definition overfull :: "os_env \<Rightarrow> (dir \<Rightarrow> nat) \<Rightarrow> jetson_handler \<Rightarrow> bool" where
  "overfull env b h \<longleftrightarrow> wf_map (jet_files h) \<and> (\<exists>d0. \<forall>d. jpgCount d h \<le> b d + of_bool (d = d0 \<and> stops env d0))"

lemma overfullI: "wf_map (jet_files h) \<Longrightarrow> (\<And>d. jpgCount d h \<le> b d) \<Longrightarrow> overfull env b h"
  by (simp add: overfull_def trans_le_add1)

lemma HandleJetsonRawStream_count:
  assumes "\<And>d. readDirErr env d = None" and "\<And>d n. removeOK env d n"
    and "wf_map (jet_files h)" and "\<And>d. jpgCount d h \<le> b d" and "\<And>d. maxFrames \<le> b d"
  shows "HandleJetsonRawStream env img kind h = (h', None) \<Longrightarrow> wf_map (jet_files h') \<and> (\<forall>d. jpgCount d h' \<le> b d)"
    and "HandleJetsonRawStream env img kind h = (h', Some e) \<Longrightarrow> overfull env b h'"
proof -
  show "wf_map (jet_files h') \<and> (\<forall>d. jpgCount d h' \<le> b d)" if "HandleJetsonRawStream env img kind h = (h', None)"
    using that
  proof (cases rule: HandleJetsonRawStream_cases)
    case saved
    have "jpgCount d h' \<le> b d" for d
      using write_cleanup_count [OF assms(1-3), of d "frameDir kind" "jpgName (snd (nextSerial kind h))" img] assms(4,5) [of d]
      unfolding saved(3) by simp
    then show ?thesis using assms(3) by (simp add: saved(3) cleanup_wf)
  qed simp_all
  show "overfull env b h'" if "HandleJetsonRawStream env img kind h = (h', Some e)"
    using that
  proof (cases rule: HandleJetsonRawStream_cases)
    case (partial k m)
    have "jpgCount d h' \<le> b d + of_bool (d = frameDir kind)" for d
      using write_count [OF assms(3), of d "frameDir kind" "jpgName (snd (nextSerial kind h))" "take k img"] assms(4) [of d]
      unfolding partial(3) by simp
    moreover have "stops env (frameDir kind)" using partial(2) by (auto simp: stops_def)
    ultimately have "\<forall>d. jpgCount d h' \<le> b d + of_bool (d = frameDir kind \<and> stops env (frameDir kind))" by simp
    moreover have "wf_map (jet_files h')" using assms(3) by (simp add: partial(3))
    ultimately show ?thesis unfolding overfull_def by blast
  qed (use assms(3,4) in \<open>auto intro: overfullI\<close>)
qed

text \<open>
  C16: the server's disk use is bounded. Whatever a stream contains, of any length, well formed or not, as long as
  directories can be listed and files removed, serving it leaves at most 30 JPEG files in each of the two
  directories, or as many as there were before if that was more. If writes can fail after the file was created, in
  one of the directories there may be one file more: the incomplete file of the write that ended the stream, for
  which no cleanup is made. The invariant of the plain handler, whichever it is, is kept: here that the in-memory
  handler holds only frames of the right kind and size.
\<close>

theorem Handle_store_bounded:
  assumes "\<And>d. readDirErr env d = None" and "\<And>d n. removeOK env d n" and "wf_map (jet_files h)" and "multi_inv p"
    and "Handle env fin ackOK chunk writeOK (\<lambda>h payload. MultiHandle now payload h) (Some h) p r = (Some h', p', out, e)"
  shows "(\<exists>d0. \<forall>d. jpgCount d h' \<le> max maxFrames (jpgCount d h) + of_bool (d = d0 \<and> stops env d0)) \<and> wf_map (jet_files h') \<and> multi_inv p'"
proof -
  let ?b = "\<lambda>d. max maxFrames (jpgCount d h)"
  have "overfull env ?b h'"
  proof (rule Handle_outcome [where P = "\<lambda>h. wf_map (jet_files h) \<and> (\<forall>d. jpgCount d h \<le> ?b d)" and h = h, OF _ _ _ _ assms(5)])
    fix img kind g g' err assume "wf_map (jet_files g) \<and> (\<forall>d. jpgCount d g \<le> ?b d)"
    then have g: "wf_map (jet_files g)" "\<And>d. jpgCount d g \<le> ?b d" by simp_all
    note c = HandleJetsonRawStream_count [OF assms(1,2) g, where img = img and kind = kind and h' = g']
    show "HandleJetsonRawStream env img kind g = (g', None) \<Longrightarrow> wf_map (jet_files g') \<and> (\<forall>d. jpgCount d g' \<le> ?b d)"
      and "HandleJetsonRawStream env img kind g = (g', Some err) \<Longrightarrow> overfull env ?b g'"
      using c by simp_all
  qed (auto simp: assms(3) intro: overfullI)
  moreover have "multi_inv p'" using multi.Handle_inv [OF assms(4)] assms(5) by (metis fst_conv snd_conv)
  ultimately show ?thesis by (auto simp: overfull_def)
qed

abbreviation full_disk :: os_env where
  "full_disk \<equiv> healthy_os\<lparr>writeErr := \<lambda>d n. Some (WriteStops 1 ''no space left on device'')\<rparr>"

theorem Handle_store_bounded_witness:
  "(\<exists>d0. \<forall>d. jpgCount d \<lparr>rgbSerial = 2, depthSerial = 1, jet_files = [((RGBDir, ''1.jpg''), [7])]\<rparr> \<le>
      max maxFrames (jpgCount d (NewJetsonHandler [])) + of_bool (d = d0 \<and> stops full_disk d0)) \<and>
   wf_map (jet_files \<lparr>rgbSerial = 2, depthSerial = 1, jet_files = [((RGBDir, ''1.jpg''), [7])]\<rparr>) \<and> multi_inv NewMultiStreamHandler"
proof (rule Handle_store_bounded)
  show "Handle full_disk None (\<lambda>_. True) 1 True (\<lambda>h payload. MultiHandle 0 payload h) (Some (NewJetsonHandler [])) NewMultiStreamHandler (jetsonFrame 1 [7, 8]) =
      (Some \<lparr>rgbSerial = 2, depthSerial = 1, jet_files = [((RGBDir, ''1.jpg''), [7])]\<rparr>, NewMultiStreamHandler, [], None)" by code_simp
qed (simp_all add: healthy_os_def NewJetsonHandler_def multi_inv_def NewMultiStreamHandler_def)

end
