(* ===== verification/Frame_Log.thy ===== *)
theory Frame_Log
  imports Video_Store
begin

text \<open>
  What the Jetson handler keeps of the pictures it is given, for any number of them. The abstract state is a log:
  per directory, all pictures saved since the start. The files are a function of the log: \<open>cleanupOldFrames\<close>
  keeps, of the names \<^verbatim>\<open>1.jpg\<close> up to the last, the 30 greatest in the order of \<open>sort.Strings\<close>. The refinement holds
  for every stream of frames on a working file system, until the 64-bit serial numbers are used up.
\<close>

section \<open>The greatest elements of a set\<close>

definition greatest :: "nat \<Rightarrow> 'a::linorder set \<Rightarrow> 'a set" where
  "greatest k S = {x \<in> S. card {y \<in> S. x < y} < k}"

lemma above_nth:
  fixes xs :: "'a::linorder list"
  assumes "sorted_wrt (<) xs" and "i < length xs"
  shows "{y \<in> set xs. xs ! i < y} = set (drop (Suc i) xs)"
proof -
  define as bs x where "as = take i xs" and "bs = drop (Suc i) xs" and "x = xs ! i"
  have "xs = as @ x # bs" using id_take_nth_drop [OF assms(2)] by (simp add: as_def bs_def x_def)
  then have "\<forall>a \<in> set as. a < x" "\<forall>b \<in> set bs. x < b" "set xs = insert x (set as \<union> set bs)"
    using assms(1) by (auto simp: sorted_wrt_append)
  then show ?thesis by (fold bs_def x_def) auto
qed

lemma greatest_drop:
  fixes xs :: "'a::linorder list"
  assumes "sorted_wrt (<) xs"
  shows "greatest k (set xs) = set (drop (length xs - k) xs)"
proof -
  have dist: "distinct xs" using assms by (simp add: strict_sorted_iff)
  have "card {y \<in> set xs. xs ! i < y} = length xs - Suc i" if "i < length xs" for i
    using above_nth [OF assms that] dist by (simp add: distinct_card)
  then have "xs ! i \<in> greatest k (set xs) \<longleftrightarrow> length xs - k \<le> i" if "i < length xs" for i
    using that by (auto simp: greatest_def)
  then have "greatest k (set xs) = {xs ! i | i. i < length xs \<and> length xs - k \<le> i}"
    by (auto simp: greatest_def set_conv_nth)
  also have "\<dots> = set (drop (length xs - k) xs)"
    by (auto simp: set_conv_nth) (metis add_diff_inverse_nat diff_less_mono not_less)
  finally show ?thesis .
qed

lemma card_greatest:
  fixes S :: "'a::linorder set"
  assumes "finite S"
  shows "card (greatest k S) = min k (card S)"
proof -
  obtain xs where xs: "sorted_wrt (<) xs" "set xs = S" "length xs = card S"
    using assms by (metis sorted_list_of_set.strict_sorted_key_list_of_set sorted_list_of_set.set_sorted_key_list_of_set
        sorted_list_of_set.length_sorted_key_list_of_set)
  then have "distinct (drop (length xs - k) xs)" by (simp add: strict_sorted_iff)
  then show ?thesis using greatest_drop [OF xs(1), of k] xs by (simp add: distinct_card min_def)
qed

text \<open>Dropping all but the greatest after every new element is the same as dropping them at the end.\<close>

lemma greatest_insert:
  fixes S :: "'a::linorder set"
  assumes "finite S"
  shows "greatest k (insert x (greatest k S)) = greatest k (insert x S)" (is "?A = ?B")
proof
  let ?G = "greatest k S"
  have sub: "insert x ?G \<subseteq> insert x S" by (auto simp: greatest_def)
  have mono: "card {z \<in> T. y < z} \<le> card {z \<in> T'. y < z}" if "T \<subseteq> T'" "finite T'" for T T' y
    using that by (intro card_mono) auto
  show "?B \<subseteq> ?A"
  proof
    fix y assume "y \<in> ?B"
    then have y: "y \<in> insert x S" "card {z \<in> insert x S. y < z} < k" by (auto simp: greatest_def)
    then have "y \<in> insert x ?G" using mono [OF subset_insertI [of S x], of y] assms by (auto simp: greatest_def)
    then show "y \<in> ?A" using y(2) mono [OF sub, of y] assms by (simp add: greatest_def)
  qed
  show "?A \<subseteq> ?B"
  proof
    fix y assume "y \<in> ?A"
    then have y: "y \<in> insert x ?G" "card {z \<in> insert x ?G. y < z} < k" by (auto simp: greatest_def)
    have "{z \<in> S. y < z} \<subseteq> ?G"
    proof (rule ccontr)
      assume "\<not> {z \<in> S. y < z} \<subseteq> ?G"
      then obtain z where "z \<in> S" "y < z" "z \<notin> ?G" by blast
      then have z: "z \<in> S" "y < z" "k \<le> card {w \<in> S. z < w}" by (simp_all add: greatest_def)
      have "z < w" if "w \<in> ?G" for w
      proof (rule ccontr)
        assume "\<not> z < w"
        then have "{v \<in> S. z < v} \<subseteq> {v \<in> S. w < v}" by auto
        then have "card {v \<in> S. z < v} \<le> card {v \<in> S. w < v}" using assms by (intro card_mono) auto
        then show False using that z(3) by (simp add: greatest_def)
      qed
      then have "?G \<subseteq> {v \<in> insert x ?G. y < v}" using z(2) by force
      moreover have fin: "finite ?G" using assms by (simp add: greatest_def)
      ultimately have "card ?G < k" using y(2) card_mono [of "{v \<in> insert x ?G. y < v}" ?G] by simp
      moreover have "k \<le> card S" using z(3) card_mono [OF assms, of "{w \<in> S. z < w}"] by auto
      ultimately show False using card_greatest [OF assms, of k] by simp
    qed
    then have "{z \<in> insert x S. y < z} = {z \<in> insert x ?G. y < z}" using sub by auto
    then show "y \<in> ?B" using y sub by (auto simp: greatest_def)
  qed
qed

section \<open>The names that stay\<close>

definition frameName :: "nat \<Rightarrow> string" where
  "frameName i = jpgName (of_nat i)"

definition keptSerials :: "nat \<Rightarrow> nat list" where
  "keptSerials n = filter (\<lambda>i. length (filter (\<lambda>j. frameName i < frameName j) [1..<Suc n]) < maxFrames) [1..<Suc n]"

text \<open>The files of a directory after the pictures \<open>l\<close> were saved in it.\<close>

definition keptFrames :: "bytes list \<Rightarrow> string \<Rightarrow> bytes option" where
  "keptFrames l = map_of (map (\<lambda>i. (frameName i, l ! (i - 1))) (keptSerials (length l)))"

lemma frameName_ext [simp]: "fileExt (frameName i) = ''.jpg''"
  by (simp add: frameName_def jpgName_def fileExt_jpg)

lemma frameName_inj: "inj_on frameName {..<2 ^ 64}"
  by (intro inj_onI) (auto simp: frameName_def jpgName_def unat_of_nat)

lemma frameName_eq: "i < 2 ^ 64 \<Longrightarrow> j < 2 ^ 64 \<Longrightarrow> frameName i = frameName j \<longleftrightarrow> i = j"
  using inj_on_eq_iff [OF frameName_inj] by simp

lemma keptSerials_iff:
  "i \<in> set (keptSerials n) \<longleftrightarrow> 1 \<le> i \<and> i \<le> n \<and> length (filter (\<lambda>j. frameName i < frameName j) [1..<Suc n]) < maxFrames"
  by (auto simp: keptSerials_def simp del: upt_Suc)

lemma keptSerials_range: "i \<in> set (keptSerials n) \<Longrightarrow> 1 \<le> i \<and> i \<le> n"
  by (auto simp: keptSerials_def)

lemma frameName_kept:
  "i < 2 ^ 64 \<Longrightarrow> n < 2 ^ 64 \<Longrightarrow> frameName i \<in> frameName ` set (keptSerials n) \<longleftrightarrow> i \<in> set (keptSerials n)"
  by (intro inj_on_image_mem_iff [OF frameName_inj]) (auto dest: keptSerials_range)

lemma keptSerials_greatest:
  assumes "n < 2 ^ 64"
  shows "frameName ` set (keptSerials n) = greatest maxFrames (frameName ` {1..n})"
proof -
  have inj: "inj_on frameName {1..n}" using assms by (intro inj_on_subset [OF frameName_inj]) auto
  have "card {y \<in> frameName ` {1..n}. x < y} = length (filter (\<lambda>j. x < frameName j) [1..<Suc n])" for x
  proof -
    have "{y \<in> frameName ` {1..n}. x < y} = frameName ` {j \<in> {1..n}. x < frameName j}" by auto
    also have "card \<dots> = card {j \<in> {1..n}. x < frameName j}"
      by (intro card_image inj_on_subset [OF inj]) auto
    also have "\<dots> = card (set (filter (\<lambda>j. x < frameName j) [1..<Suc n]))"
      by (intro arg_cong [of _ _ card]) auto
    also have "\<dots> = length (filter (\<lambda>j. x < frameName j) [1..<Suc n])"
      by (rule distinct_card) (simp del: upt_Suc)
    finally show ?thesis .
  qed
  then show ?thesis by (auto simp: greatest_def keptSerials_def simp del: upt_Suc)
qed

lemma keptFrames_Some:
  assumes "length l < 2 ^ 64"
  shows "keptFrames l n = Some v \<longleftrightarrow> (\<exists>i \<in> set (keptSerials (length l)). n = frameName i \<and> v = l ! (i - 1))"
proof -
  have "inj_on frameName (set (keptSerials (length l)))"
    using assms by (intro inj_on_subset [OF frameName_inj]) (auto dest: keptSerials_range)
  then have "distinct (map frameName (keptSerials (length l)))" by (simp add: distinct_map keptSerials_def)
  then have "distinct (map fst (map (\<lambda>i. (frameName i, l ! (i - 1))) (keptSerials (length l))))" by (simp add: comp_def)
  from map_of_eq_Some_iff [OF this] show ?thesis by (simp only: keptFrames_def set_map image_iff) blast
qed

lemma keptFrames_None: "keptFrames l n = None \<longleftrightarrow> n \<notin> frameName ` set (keptSerials (length l))"
  by (simp add: keptFrames_def map_of_eq_None_iff image_image)

text \<open>Up to 99 pictures the last one is kept: among names of two digits the order of text is that of numbers.\<close>

lemma two_digit_names: "10 \<le> i \<Longrightarrow> i \<le> j \<Longrightarrow> j \<le> 99 \<Longrightarrow> frameName i \<le> frameName j"
proof -
  assume ij: "10 \<le> i" "i \<le> j" "j \<le> 99"
  have "sorted (map frameName [10..<100])" by code_simp
  then have "map frameName [10..<100] ! (i - 10) \<le> map frameName [10..<100] ! (j - 10)"
    using ij by (intro sorted_nth_mono) (simp_all del: upt_rec_numeral)
  then show ?thesis using ij by (simp del: upt_rec_numeral)
qed

lemma last_kept: "1 \<le> n \<Longrightarrow> n \<le> 99 \<Longrightarrow> n \<in> set (keptSerials n)"
proof -
  assume n: "1 \<le> n" "n \<le> 99"
  have "set (filter (\<lambda>j. frameName n < frameName j) [1..<Suc n]) \<subseteq> {1..9}"
    using n two_digit_names [of _ n] by (auto simp: not_less [symmetric] simp del: upt_Suc)
  then have "card (set (filter (\<lambda>j. frameName n < frameName j) [1..<Suc n])) \<le> 9"
    using card_mono [of "{1..9 :: nat}"] by fastforce
  then have "length (filter (\<lambda>j. frameName n < frameName j) [1..<Suc n]) \<le> 9"
    by (subst (asm) distinct_card) (simp_all del: upt_Suc)
  then show ?thesis using n by (simp add: keptSerials_iff maxFrames_def del: upt_Suc)
qed

text \<open>Up to 30 pictures every one is kept.\<close>

lemma keptFrames_all:
  assumes "length l \<le> maxFrames" and "i < length l"
  shows "keptFrames l (frameName (Suc i)) = Some (l ! i)"
proof -
  have "length (filter P [1..<Suc (length l)]) < maxFrames" if "\<not> P (Suc i)" for P
    using that assms length_filter_less [of "Suc i" "[1..<Suc (length l)]" P] by (simp del: upt_Suc)
  then have "Suc i \<in> set (keptSerials (length l))" using assms by (simp add: keptSerials_iff del: upt_Suc)
  then show ?thesis using assms by (force simp: keptFrames_Some maxFrames_def)
qed

section \<open>The handler refines the log\<close>

type_synonym frame_log = "dir \<Rightarrow> bytes list"

fun dirSerial :: "dir \<Rightarrow> jetson_handler \<Rightarrow> nat" where
  "dirSerial RGBDir h = unat (rgbSerial h)"
| "dirSerial DepthDir h = unat (depthSerial h)"

definition log_rel :: "frame_log \<Rightarrow> jetson_handler \<Rightarrow> bool" where
  "log_rel l h \<longleftrightarrow> wf_map (jet_files h) \<and>
     (\<forall>d. dirSerial d h = Suc (length (l d)) \<and> (\<forall>n. map_of (jet_files h) (d, n) = keptFrames (l d) n))"

lemma log_relD:
  assumes "log_rel l h"
  shows "wf_map (jet_files h)" and "dirSerial d h = Suc (length (l d))" and "map_of (jet_files h) (d, n) = keptFrames (l d) n"
    and "Suc (length (l d)) < 2 ^ 64"
proof -
  show "wf_map (jet_files h)" "map_of (jet_files h) (d, n) = keptFrames (l d) n" and ds: "dirSerial d h = Suc (length (l d))"
    using assms by (simp_all add: log_rel_def)
  have "dirSerial d h < 2 ^ 64"
    using unsigned_less [of "rgbSerial h", where 'a = nat] unsigned_less [of "depthSerial h", where 'a = nat] by (cases d) simp_all
  then show "Suc (length (l d)) < 2 ^ 64" using ds by simp
qed

lemma log_rel_New: "log_rel (\<lambda>_. []) (NewJetsonHandler [])"
  by (auto simp: log_rel_def NewJetsonHandler_def keptFrames_def keptSerials_def elim: dirSerial.elims) (case_tac d; simp)+

definition log_append :: "dir \<Rightarrow> bytes \<Rightarrow> frame_log \<Rightarrow> frame_log" where
  "log_append d img l = l(d := l d @ [img])"

lemma nextSerial_log:
  assumes "log_rel l h" and "kind \<in> {FrameKindRGB, FrameKindDepth}" and "Suc (Suc (length (l (frameDir kind)))) < 2 ^ 64"
  shows "jpgName (snd (nextSerial kind h)) = frameName (Suc (length (l (frameDir kind))))"
    and "dirSerial d (fst (nextSerial kind h)) = Suc (length (l d)) + of_bool (d = frameDir kind)"
proof -
  have ds: "dirSerial d h = Suc (length (l d))" for d by (rule log_relD [OF assms(1)])
  have "unat (w + 1) = unat w + 1" if "Suc (unat w) < 2 ^ 64" for w :: u64
    using that by (simp add: unat_word_ariths)
  then show "dirSerial d (fst (nextSerial kind h)) = Suc (length (l d)) + of_bool (d = frameDir kind)"
    using assms(2,3) ds [of RGBDir] ds [of DepthDir] by (cases d) (auto simp: nextSerial_def frameDir_def kind_defs)
  show "jpgName (snd (nextSerial kind h)) = frameName (Suc (length (l (frameDir kind))))"
    using assms(2) ds [of RGBDir, symmetric] ds [of DepthDir, symmetric]
    by (auto simp del: of_nat_Suc simp: nextSerial_def frameDir_def kind_defs frameName_def)
qed

text \<open>One more picture: of the names in the directory and the new one, those stay that the longer log keeps.\<close>

lemma keptSerials_Suc:
  assumes "Suc n < 2 ^ 64"
  shows "greatest maxFrames (insert (frameName (Suc n)) (frameName ` set (keptSerials n))) = frameName ` set (keptSerials (Suc n))"
proof -
  have "frameName ` {1..Suc n} = insert (frameName (Suc n)) (frameName ` {1..n})" by (auto simp: atLeastAtMostSuc_conv)
  then show ?thesis
    using assms keptSerials_greatest [of n] keptSerials_greatest [of "Suc n"] greatest_insert [of "frameName ` {1..n}"] by simp
qed

lemma cleanup_keeps_greatest:
  assumes "wf_map fs"
  shows "map_of (fst (cleanupOldFrames healthy_os d fs)) (d', n) =
    (if d' = d \<and> n \<in> set (jpgNames d fs) - greatest maxFrames (set (jpgNames d fs)) then None else map_of fs (d', n))"
proof -
  let ?xs = "sort (jpgNames d fs)"
  have ok: "readDirErr healthy_os d = None" "\<And>n. removeOK healthy_os d n" by (simp_all add: healthy_os_def)
  have sorted: "sorted_wrt (<) ?xs" using distinct_jpgNames [OF assms, of d] by (simp add: strict_sorted_iff)
  let ?k = "length (jpgNames d fs) - maxFrames"
  have "set (take ?k ?xs) \<union> set (drop ?k ?xs) = set ?xs" by (metis append_take_drop_id set_append)
  moreover have "set (take ?k ?xs) \<inter> set (drop ?k ?xs) = {}"
    using distinct_jpgNames [OF assms, of d] by (intro set_take_disj_set_drop_if_distinct) simp_all
  ultimately have "set (take ?k ?xs) = set (jpgNames d fs) - greatest maxFrames (set (jpgNames d fs))"
    using greatest_drop [OF sorted, of maxFrames] by auto
  then show ?thesis using cleanupOldFrames_cases(2) [OF ok assms] by simp
qed

lemma keptFrames_snoc:
  assumes "Suc (length l) < 2 ^ 64"
  shows "keptFrames (l @ [img]) n =
    (if n \<notin> frameName ` set (keptSerials (Suc (length l))) then None
     else if n = frameName (Suc (length l)) then Some img else keptFrames l n)"
proof (cases "n \<in> frameName ` set (keptSerials (Suc (length l)))")
  case False
  then show ?thesis using keptFrames_None [of "l @ [img]" n] by simp
next
  case True
  then obtain i where i: "n = frameName i" "i \<in> set (keptSerials (Suc (length l)))" by blast
  then have r: "1 \<le> i" "i \<le> Suc (length l)" using keptSerials_range by blast+
  have new: "keptFrames (l @ [img]) n = Some ((l @ [img]) ! (i - 1))"
    using keptFrames_Some [of "l @ [img]" n "(l @ [img]) ! (i - 1)"] assms i by auto
  show ?thesis
  proof (cases "i = Suc (length l)")
    case False
    have "n \<in> insert (frameName (Suc (length l))) (frameName ` set (keptSerials (length l)))"
      using True keptSerials_Suc [OF assms] by (auto simp: greatest_def)
    then obtain j where "j \<in> set (keptSerials (length l))" "frameName j = frameName i"
      using False i(1) r assms frameName_eq [of i "Suc (length l)"] by auto
    moreover from this have "j = i" using r assms frameName_eq [of j i] keptSerials_range [of j "length l"] by auto
    ultimately have "keptFrames l n = Some (l ! (i - 1))" using keptFrames_Some [of l n "l ! (i - 1)"] assms i(1) by auto
    then show ?thesis using True new False r i(1) assms frameName_eq [of i "Suc (length l)"] by (auto simp: nth_append)
  qed (use True new i(1) in simp)
qed

lemma HandleJetsonRawStream_log:
  assumes "log_rel l h" and "kind \<in> {FrameKindRGB, FrameKindDepth}" and "Suc (Suc (length (l (frameDir kind)))) < 2 ^ 64" and "img \<noteq> []"
  shows "\<exists>h'. HandleJetsonRawStream healthy_os img kind h = (h', None) \<and> log_rel (log_append (frameDir kind) img l) h'"
proof -
  let ?d = "frameDir kind" and ?N = "length (l (frameDir kind))"
  let ?fs = "AList.update (?d, frameName (Suc ?N)) img (jet_files h)"
  note rel = log_relD [OF assms(1)] and ns = nextSerial_log [OF assms(1-3)]
  obtain h' e where run: "HandleJetsonRawStream healthy_os img kind h = (h', e)" by fastforce
  then have h': "h' = (fst (nextSerial kind h))\<lparr>jet_files := fst (cleanupOldFrames healthy_os ?d ?fs)\<rparr>" "e = None"
    using assms(4) ns(1) by (cases rule: HandleJetsonRawStream_cases; simp add: healthy_os_def)+
  have wf: "wf_map ?fs" using rel(1) by simp
  have names: "set (jpgNames ?d ?fs) = insert (frameName (Suc ?N)) (frameName ` set (keptSerials ?N))"
    by (auto simp: jpgNames_lookup rel(3) keptFrames_None simp del: not_None_eq)
  have "map_of (jet_files h') (d, n) = keptFrames (log_append ?d img l d) n" for d n
    using cleanup_keeps_greatest [OF wf, of ?d d n] assms(3) keptFrames_snoc [of "l ?d" img n] keptFrames_None [of "l ?d" n]
    unfolding names keptSerials_Suc [OF Suc_lessD [OF assms(3)]]
    by (auto simp: h'(1) log_append_def rel(3) update_conv')
  moreover have "dirSerial d h' = Suc (length (log_append ?d img l d))" for d
    using ns(2) [of d] by (cases d) (auto simp: h'(1) log_append_def)
  moreover have "wf_map (jet_files h')" using cleanup_wf [OF wf] by (simp add: h'(1))
  ultimately show ?thesis using run h'(2) by (simp add: log_rel_def)
qed

section \<open>Streams\<close>

text \<open>The abstract counterpart of a whole stream: every frame is appended to the log of its kind.\<close>

definition frameTarget :: "u8 \<Rightarrow> dir" where
  "frameTarget k = (if k = 0 then DepthDir else RGBDir)"

definition framesFor :: "dir \<Rightarrow> jetson_frames \<Rightarrow> bytes list" where
  "framesFor d fs = map snd (filter (\<lambda>f. frameTarget (fst f) = d) fs)"

definition log_frames :: "jetson_frames \<Rightarrow> frame_log \<Rightarrow> frame_log" where
  "log_frames fs l = (\<lambda>d. l d @ framesFor d fs)"

lemma framesFor_simps [simp]:
  "framesFor d [] = []" "framesFor d ((k, img) # fs) = (if frameTarget k = d then img # framesFor d fs else framesFor d fs)"
  by (simp_all add: framesFor_def)

lemma log_frames_simps: "log_frames [] l = l" "log_frames ((k, img) # fs) l = log_frames fs (log_append (frameTarget k) img l)"
  by (auto simp: log_frames_def log_append_def fun_eq_iff)

abbreviation wire :: "jetson_frames \<Rightarrow> bytes" where
  "wire fs \<equiv> concat (map (\<lambda>(k, img). jetsonFrame k img) fs)"

lemma handleJetsonStream_log:
  assumes "wf_frames fs" and "\<And>k. ackOK k" and "log_rel l h"
    and "\<And>d. Suc (length (l d @ framesFor d fs)) < 2 ^ 64"
  shows "\<exists>h'. handleJetsonStream healthy_os None ackOK n h out (wire fs) = (h', out @ concat (replicate (length fs) ack), [], None) \<and>
    log_rel (log_frames fs l) h'"
  using assms(1,3,4)
proof (induction fs arbitrary: n h l out)
  case Nil
  then show ?case by (simp add: handleJetsonStream.simps jetsonRound_def streamReadFull_def log_frames_simps)
next
  case (Cons f fs)
  obtain k img where f: "f = (k, img)" by fastforce
  then obtain kind where kind: "jetsonKind k = Some kind" "kind \<in> {FrameKindRGB, FrameKindDepth}" "frameDir kind = frameTarget k"
    using Cons.prems(1) by (auto simp: wf_frames_def jetsonKind_def kind_defs frameDir_def frameTarget_def)
  have img: "img \<noteq> []" "length img < 2 ^ 32 - 1" using Cons.prems(1) f by (simp_all add: wf_frames_def)
  have room: "Suc (Suc (length (l (frameTarget k)))) < 2 ^ 64" using Cons.prems(3) [of "frameTarget k"] f by simp
  obtain h1 where h1: "HandleJetsonRawStream healthy_os img kind h = (h1, None)" "log_rel (log_append (frameTarget k) img l) h1"
    using HandleJetsonRawStream_log [OF Cons.prems(2) kind(2) _ img(1)] room kind(3) by auto
  have "Suc (length (log_append (frameTarget k) img l d @ framesFor d fs)) < 2 ^ 64" for d
    using Cons.prems(3) [of d] f by (auto simp: log_append_def split: if_splits)
  moreover have "wf_frames fs" using Cons.prems(1) by (simp add: wf_frames_def)
  ultimately obtain h' where IH: "handleJetsonStream healthy_os None ackOK (n + 1) h1 (out @ ack) (wire fs) =
        (h', (out @ ack) @ concat (replicate (length fs) ack), [], None)" "log_rel (log_frames (f # fs) l) h'"
    using Cons.IH [OF _ h1(2), of "n + 1" "out @ ack"] unfolding f log_frames_simps by blast
  have "handleJetsonStream healthy_os None ackOK n h out (jetsonFrame k img @ r) =
      handleJetsonStream healthy_os None ackOK (n + 1) h1 (out @ ack) r" for r
    using jetsonRound_frame [OF img(2) kind(1)] h1(1) assms(2) by (subst handleJetsonStream.simps) simp
  then show ?case using IH f by auto
qed

text \<open>
  C14: the stored files are a function of the log of all pictures. On a working file system, let a store hold what
  \<open>keptFrames\<close> keeps of a log of pictures per kind, as the empty store of a new handler does. A stream of any number of
  well-formed frames of both kinds, ending cleanly and with its acknowledgements accepted, is taken without an
  error and acknowledged frame by frame; afterwards the store holds exactly what \<open>keptFrames\<close> keeps of the log with
  the pictures of the stream appended: of all serial numbers given out, those of the 30 file names that sort last
  as text, each file with its own picture, and the next serial numbers follow the logs. The only limit is that the
  64-bit serial numbers do not run out.
\<close>

theorem Handle_refines_log:
  assumes "log_rel l h" and "wf_frames fs" and "\<And>k. ackOK k" and "\<And>d. Suc (length (l d @ framesFor d fs)) < 2 ^ 64"
  shows "\<exists>h'. Handle healthy_os None ackOK chunk writeOK hnd (Some h) p (wire fs) =
      (Some h', p, concat (replicate (length fs) ack), None) \<and> log_rel (log_frames fs l) h'"
  using handleJetsonStream_log [where ackOK = ackOK and n = 0 and h = h and out = "[]", OF assms(2,3,1,4)] by (auto simp: Handle_def)

text \<open>A hundred colour pictures, the last of which is not kept.\<close>

theorem Handle_refines_log_witness:
  "\<exists>h'. Handle healthy_os None (\<lambda>_. True) 1 True (\<lambda>p b. (p, EchoHandle b)) (Some (NewJetsonHandler [])) ()
      (wire (replicate 99 (1, [1]) @ [(1, [2])])) = (Some h', (), concat (replicate 100 ack), None) \<and>
    map_of (jet_files h') (RGBDir, ''99.jpg'') = Some [1] \<and> map_of (jet_files h') (RGBDir, ''100.jpg'') = None"
proof -
  let ?fs = "replicate 99 (1, [1]) @ [(1, [2])] :: jetson_frames"
  let ?l = "replicate 99 [1] @ [[2]] :: bytes list"
  have fr: "framesFor d ?fs = (if d = RGBDir then ?l else [])" for d
    by (cases d) (simp_all add: framesFor_def frameTarget_def filter_replicate)
  have "\<exists>h'. Handle healthy_os None (\<lambda>_. True) 1 True (\<lambda>p b. (p, EchoHandle b)) (Some (NewJetsonHandler [])) () (wire ?fs) =
      (Some h', (), concat (replicate (length ?fs) ack), None) \<and> log_rel (log_frames ?fs (\<lambda>_. [])) h'"
    by (rule Handle_refines_log [OF log_rel_New]) (simp_all add: wf_frames_def list_all_iff fr)
  then obtain h' where h': "Handle healthy_os None (\<lambda>_. True) 1 True (\<lambda>p b. (p, EchoHandle b)) (Some (NewJetsonHandler [])) () (wire ?fs) =
      (Some h', (), concat (replicate 100 ack), None)" "log_rel (log_frames ?fs (\<lambda>_. [])) h'" by auto
  have "map_of (jet_files h') (RGBDir, n) = keptFrames ?l n" for n
    using log_relD(3) [OF h'(2), of RGBDir n] by (simp add: log_frames_def fr)
  moreover have "99 \<in> set (keptSerials 100)" "100 \<notin> set (keptSerials 100)"
    unfolding keptSerials_iff by code_simp+
  then have "keptFrames ?l (frameName 99) = Some [1]" "keptFrames ?l (frameName 100) = None"
    by (auto simp: keptFrames_Some keptFrames_None frameName_kept nth_append intro!: bexI [of _ 99])
  moreover have "frameName 99 = ''99.jpg''" "frameName 100 = ''100.jpg''" by code_simp+
  ultimately show ?thesis using h'(1) by metis
qed

end
