(* ===== verification/Concurrent_Store.thy ===== *)
theory Concurrent_Store
  imports Video_Store
begin

text \<open>
  Many streams at once. The server serves every stream in a goroutine of its own, and all of them share one
  \<open>JetsonHandler\<close>. Its mutex protects the serial numbers only: writing the file, listing the directory and
  deleting old files are separate steps, and those of different streams interleave. The steps are the statements
  of \<open>HandleJetsonRawStream\<close> and \<open>cleanupOldFrames\<close> in \<^verbatim>\<open>internal/handler/jetson_handler.go\<close>; each call of the
  operating system is one step.
\<close>

section \<open>The interleaved handler\<close>

text \<open>
  Where a stream is in \<open>HandleJetsonRawStream\<close>: not in it, before the write with its serial number, after
  the write, or in the loop of \<open>cleanupOldFrames\<close> with the names still to delete.
\<close>

datatype saver =
    Idle
  | Numbered dir u64 bytes
  | Written dir
  | Removing dir "string list"

text \<open>\<open>st_failed\<close> only observes: the files whose last write failed.\<close>

record store_state =
  st_handler :: jetson_handler
  st_pc :: "nat \<Rightarrow> saver"
  st_failed :: "(dir \<times> string) set"

abbreviation st_files :: "store_state \<Rightarrow> files" where
  "st_files \<sigma> \<equiv> jet_files (st_handler \<sigma>)"

definition goto :: "nat \<Rightarrow> saver \<Rightarrow> jetson_handler \<Rightarrow> store_state \<Rightarrow> store_state" where
  "goto t c h \<sigma> = \<sigma>\<lparr>st_handler := h, st_pc := (st_pc \<sigma>)(t := c)\<rparr>"

definition settle :: "handler_error option \<Rightarrow> dir \<times> string \<Rightarrow> store_state \<Rightarrow> store_state" where
  "settle err f \<sigma> = \<sigma>\<lparr>st_failed := (if err = None then st_failed \<sigma> - {f} else insert f (st_failed \<sigma>))\<rparr>"

text \<open>\<open>serialOf d\<close> is the counter that numbers the files of directory \<open>d\<close>.\<close>

fun serialOf :: "dir \<Rightarrow> jetson_handler \<Rightarrow> u64" where
  "serialOf RGBDir h = rgbSerial h"
| "serialOf DepthDir h = depthSerial h"

definition oldFrames :: "dir \<Rightarrow> files \<Rightarrow> string list" where
  "oldFrames d fs = take (length (jpgNames d fs) - maxFrames) (sort (jpgNames d fs))"

text \<open>
  \<open>conn/stream.go\<close> passes the two known kinds only. The counters of 64 bits are assumed not to be used up,
  which takes centuries at any frame rate.
\<close>

inductive store_step :: "os_env \<Rightarrow> store_state \<Rightarrow> store_state \<Rightarrow> bool" for env where
  save_number: "st_pc \<sigma> t = Idle \<Longrightarrow> img \<noteq> [] \<Longrightarrow> kind \<in> {FrameKindRGB, FrameKindDepth} \<Longrightarrow>
    serialOf (frameDir kind) (st_handler \<sigma>) \<noteq> - 1 \<Longrightarrow> nextSerial kind (st_handler \<sigma>) = (h, serial) \<Longrightarrow>
    store_step env \<sigma> (goto t (Numbered (frameDir kind) serial img) h \<sigma>)"
| save_write: "st_pc \<sigma> t = Numbered d serial img \<Longrightarrow> WriteFile env d (jpgName serial) img (st_files \<sigma>) = (fs, None) \<Longrightarrow>
    store_step env \<sigma> (goto t (Written d) ((st_handler \<sigma>)\<lparr>jet_files := fs\<rparr>) (settle None (d, jpgName serial) \<sigma>))"
| save_write_error: "st_pc \<sigma> t = Numbered d serial img \<Longrightarrow> WriteFile env d (jpgName serial) img (st_files \<sigma>) = (fs, Some e) \<Longrightarrow>
    store_step env \<sigma> (goto t Idle ((st_handler \<sigma>)\<lparr>jet_files := fs\<rparr>) (settle (Some e) (d, jpgName serial) \<sigma>))"
| save_list: "st_pc \<sigma> t = Written d \<Longrightarrow> readDirErr env d = None \<Longrightarrow>
    store_step env \<sigma> (goto t (Removing d (oldFrames d (st_files \<sigma>))) (st_handler \<sigma>) \<sigma>)"
| save_list_error: "st_pc \<sigma> t = Written d \<Longrightarrow> readDirErr env d = Some e \<Longrightarrow>
    store_step env \<sigma> (goto t Idle (st_handler \<sigma>) \<sigma>)"
| save_remove: "st_pc \<sigma> t = Removing d (n # ns) \<Longrightarrow>
    store_step env \<sigma> (goto t (Removing d ns) ((st_handler \<sigma>)\<lparr>jet_files := removeFile env d (st_files \<sigma>) n\<rparr>) \<sigma>)"
| save_done: "st_pc \<sigma> t = Removing d [] \<Longrightarrow> store_step env \<sigma> (goto t Idle (st_handler \<sigma>) \<sigma>)"

definition store_init :: "files \<Rightarrow> store_state \<Rightarrow> bool" where
  "store_init fs \<sigma> \<longleftrightarrow> st_handler \<sigma> = NewJetsonHandler fs \<and> (\<forall>t. st_pc \<sigma> t = Idle) \<and> st_failed \<sigma> = {}"

lemma goto_simps [simp]:
  "st_handler (goto t c h \<sigma>) = h" "st_pc (goto t c h \<sigma>) u = (if u = t then c else st_pc \<sigma> u)" "st_failed (goto t c h \<sigma>) = st_failed \<sigma>"
  by (simp_all add: goto_def)

lemma settle_simps [simp]:
  "st_handler (settle err f \<sigma>) = st_handler \<sigma>" "st_pc (settle err f \<sigma>) = st_pc \<sigma>"
  "st_failed (settle err f \<sigma>) = (if err = None then st_failed \<sigma> - {f} else insert f (st_failed \<sigma>))"
  by (simp_all add: settle_def)

lemma WriteFile_cases:
  assumes "WriteFile env d n data fs = (fs', err)"
  obtains "fs' = fs" "err \<noteq> None" | v where "fs' = AList.update (d, n) v fs" "err = None \<Longrightarrow> v = data"
  using assms that by (auto simp: WriteFile_def split: option.splits write_fault.splits)

lemma jpgName_eq_iff [simp]: "jpgName a = jpgName b \<longleftrightarrow> a = b"
  by (simp add: jpgName_def word_unat_eq_iff)

lemma jpgName_ext [simp]: "fileExt (jpgName s) = ''.jpg''"
  by (simp add: jpgName_def fileExt_jpg)

section \<open>A stream on its own\<close>

lemma goto_goto [simp]: "goto t c h (goto t c' h' \<sigma>) = goto t c h \<sigma>" "settle err f (goto t c h \<sigma>) = goto t c h (settle err f \<sigma>)"
  by (simp_all add: goto_def settle_def)

lemma save_removes:
  assumes "st_pc \<sigma> t = Removing d ns"
  shows "(store_step env)\<^sup>*\<^sup>* \<sigma> (goto t Idle ((st_handler \<sigma>)\<lparr>jet_files := foldl (removeFile env d) (st_files \<sigma>) ns\<rparr>) \<sigma>)"
  using assms
proof (induction ns arbitrary: \<sigma>)
  case Nil
  then show ?case using save_done [of \<sigma> t d env] by auto
next
  case (Cons n ns)
  let ?\<sigma> = "goto t (Removing d ns) ((st_handler \<sigma>)\<lparr>jet_files := removeFile env d (st_files \<sigma>) n\<rparr>) \<sigma>"
  have "store_step env \<sigma> ?\<sigma>" using Cons.prems by (rule save_remove)
  moreover have "(store_step env)\<^sup>*\<^sup>* ?\<sigma>
      (goto t Idle ((st_handler \<sigma>)\<lparr>jet_files := foldl (removeFile env d) (st_files \<sigma>) (n # ns)\<rparr>) \<sigma>)"
    using Cons.IH [of ?\<sigma>] by simp
  ultimately show ?case by (rule converse_rtranclp_into_rtranclp)
qed

lemma save_cleanup:
  assumes "st_pc \<sigma> t = Written d"
  shows "(store_step env)\<^sup>*\<^sup>* \<sigma> (goto t Idle ((st_handler \<sigma>)\<lparr>jet_files := fst (cleanupOldFrames env d (st_files \<sigma>))\<rparr>) \<sigma>)"
proof (cases "readDirErr env d")
  case None
  let ?\<sigma> = "goto t (Removing d (oldFrames d (st_files \<sigma>))) (st_handler \<sigma>) \<sigma>"
  have "store_step env \<sigma> ?\<sigma>" using assms None by (rule save_list)
  moreover have "fst (cleanupOldFrames env d (st_files \<sigma>)) = foldl (removeFile env d) (st_files \<sigma>) (oldFrames d (st_files \<sigma>))"
    using None by (simp add: cleanupOldFrames_def oldFrames_def Let_def)
  ultimately show ?thesis
    using save_removes [of ?\<sigma> t d "oldFrames d (st_files \<sigma>)" env] by (auto intro: converse_rtranclp_into_rtranclp)
next
  case (Some e)
  then show ?thesis using save_list_error [OF assms Some] by (auto simp: cleanupOldFrames_def)
qed

text \<open>
  The interleaved steps and the handler fit together: a stream that runs alone, with any behaviour of the operating
  system, can take the handler to the state \<open>HandleJetsonRawStream\<close> computes, and leaves the others where they are.
\<close>

lemma solo_run_is_HandleJetsonRawStream:
  assumes "st_pc \<sigma> t = Idle" and "img \<noteq> []" and "kind \<in> {FrameKindRGB, FrameKindDepth}"
    and "serialOf (frameDir kind) (st_handler \<sigma>) \<noteq> - 1"
  shows "\<exists>F. (store_step env)\<^sup>*\<^sup>* \<sigma> (\<sigma>\<lparr>st_handler := fst (HandleJetsonRawStream env img kind (st_handler \<sigma>)), st_failed := F\<rparr>)"
proof -
  obtain h serial where ser: "nextSerial kind (st_handler \<sigma>) = (h, serial)" by fastforce
  let ?d = "frameDir kind" and ?f = "(frameDir kind, jpgName serial)"
  let ?\<sigma>1 = "goto t (Numbered ?d serial img) h \<sigma>"
  have idle: "goto t Idle h' (settle err f \<sigma>) = \<sigma>\<lparr>st_handler := h', st_failed := st_failed (settle err f \<sigma>)\<rparr>" for h' err f
    using assms(1) by (simp add: goto_def settle_def fun_upd_idem)
  have s1: "store_step env \<sigma> ?\<sigma>1" using save_number [OF assms ser] .
  obtain fs err where w: "WriteFile env ?d (jpgName serial) img (st_files ?\<sigma>1) = (fs, err)" by fastforce
  have "(store_step env)\<^sup>*\<^sup>* ?\<sigma>1 (goto t Idle (fst (HandleJetsonRawStream env img kind (st_handler \<sigma>))) (settle err ?f \<sigma>))"
  proof (cases err)
    case None
    let ?\<sigma>2 = "goto t (Written ?d) (h\<lparr>jet_files := fs\<rparr>) (settle None ?f \<sigma>)"
    have "store_step env ?\<sigma>1 ?\<sigma>2" using save_write [of ?\<sigma>1 t ?d serial img env fs] w None by simp
    moreover have "fst (HandleJetsonRawStream env img kind (st_handler \<sigma>)) = h\<lparr>jet_files := fst (cleanupOldFrames env ?d fs)\<rparr>"
      using assms(2) ser w None by (simp add: HandleJetsonRawStream_def)
    ultimately show ?thesis
      using save_cleanup [of ?\<sigma>2 t ?d env] None by simp
  next
    case (Some e)
    then have "store_step env ?\<sigma>1 (goto t Idle (h\<lparr>jet_files := fs\<rparr>) (settle (Some e) ?f \<sigma>))"
      using save_write_error [of ?\<sigma>1 t ?d serial img env fs e] w by simp
    moreover have "fst (HandleJetsonRawStream env img kind (st_handler \<sigma>)) = h\<lparr>jet_files := fs\<rparr>"
      using assms(2) ser w Some by (simp add: HandleJetsonRawStream_def)
    ultimately show ?thesis using Some by simp
  qed
  then show ?thesis using s1 unfolding idle by (blast intro: converse_rtranclp_into_rtranclp)
qed

section \<open>No two streams write the same file\<close>

text \<open>
  The serial number of a stream that is about to write is below the counter and no other stream has it; the file
  it is going to write, and every file with a number not yet given out, is as it was at the start or gone.
\<close>

definition untouched :: "files \<Rightarrow> files \<Rightarrow> dir \<Rightarrow> string \<Rightarrow> bool" where
  "untouched fs0 fs d n \<longleftrightarrow> map_of fs (d, n) = None \<or> map_of fs (d, n) = map_of fs0 (d, n)"

definition serial_inv :: "files \<Rightarrow> store_state \<Rightarrow> bool" where
  "serial_inv fs0 \<sigma> \<longleftrightarrow>
     (\<forall>t d s img. st_pc \<sigma> t = Numbered d s img \<longrightarrow> s < serialOf d (st_handler \<sigma>) \<and>
        untouched fs0 (st_files \<sigma>) d (jpgName s)) \<and>
     (\<forall>t u d s img img'. st_pc \<sigma> t = Numbered d s img \<and> st_pc \<sigma> u = Numbered d s img' \<longrightarrow> t = u) \<and>
     (\<forall>d s. serialOf d (st_handler \<sigma>) \<le> s \<longrightarrow> untouched fs0 (st_files \<sigma>) d (jpgName s))"

lemma serialOf_files [simp]: "serialOf d (h\<lparr>jet_files := fs\<rparr>) = serialOf d h"
  by (cases d) simp_all

lemma nextSerial_counter:
  assumes "kind \<in> {FrameKindRGB, FrameKindDepth}" and "nextSerial kind h = (h', s)"
  shows "s = serialOf (frameDir kind) h" and "jet_files h' = jet_files h"
    and "serialOf d h' = (if d = frameDir kind then serialOf d h + 1 else serialOf d h)"
  using assms by (cases d; auto simp: nextSerial_def frameDir_def kind_defs)+

lemma below_inc:
  fixes s w :: u64
  assumes "w \<noteq> - 1"
  shows "s < w + 1 \<longleftrightarrow> s < w \<or> s = w" and "w + 1 \<le> s \<Longrightarrow> w \<le> s"
proof -
  have "w < - 1" using assms by (simp add: order.not_eq_order_implies_strict)
  then have "unat (w + 1) = unat w + 1" by (rule unat_inc)
  then show "s < w + 1 \<longleftrightarrow> s < w \<or> s = w" and "w + 1 \<le> s \<Longrightarrow> w \<le> s"
    by (auto simp: word_less_nat_alt word_le_nat_alt word_unat_eq_iff)
qed

lemma serial_invI:
  assumes "\<And>t d s img. st_pc \<sigma> t = Numbered d s img \<Longrightarrow> s < serialOf d (st_handler \<sigma>)"
    and "\<And>t d s img. st_pc \<sigma> t = Numbered d s img \<Longrightarrow> untouched fs0 (st_files \<sigma>) d (jpgName s)"
    and "\<And>t u d s img img'. st_pc \<sigma> t = Numbered d s img \<Longrightarrow> st_pc \<sigma> u = Numbered d s img' \<Longrightarrow> t = u"
    and "\<And>d s. serialOf d (st_handler \<sigma>) \<le> s \<Longrightarrow> untouched fs0 (st_files \<sigma>) d (jpgName s)"
  shows "serial_inv fs0 \<sigma>"
  using assms unfolding serial_inv_def by blast

lemma serial_invD:
  assumes "serial_inv fs0 \<sigma>"
  shows "st_pc \<sigma> t = Numbered d s img \<Longrightarrow> s < serialOf d (st_handler \<sigma>)"
    and "st_pc \<sigma> t = Numbered d s img \<Longrightarrow> untouched fs0 (st_files \<sigma>) d (jpgName s)"
    and "st_pc \<sigma> t = Numbered d s img \<Longrightarrow> st_pc \<sigma> u = Numbered d s img' \<Longrightarrow> t = u"
    and "serialOf d (st_handler \<sigma>) \<le> s \<Longrightarrow> untouched fs0 (st_files \<sigma>) d (jpgName s)"
  using assms unfolding serial_inv_def by blast+

text \<open>A step that gives out no number and writes no file.\<close>

lemma serial_inv_shrink:
  assumes "serial_inv fs0 \<sigma>" and "\<And>d. serialOf d h = serialOf d (st_handler \<sigma>)"
    and "\<And>d n. map_of (jet_files h) (d, n) \<in> {None, map_of (st_files \<sigma>) (d, n)}" and "\<And>d s img. c \<noteq> Numbered d s img"
  shows "serial_inv fs0 (goto t c h \<sigma>)"
proof -
  note D = serial_invD [OF assms(1)]
  have keep: "untouched fs0 (st_files \<sigma>) d n \<Longrightarrow> untouched fs0 (jet_files h) d n" for d n
    using assms(3) [of d n] by (auto simp: untouched_def)
  show ?thesis
    by (rule serial_invI; simp only: goto_simps assms(2) split: if_split_asm)
       (use D(1) keep D(2-4) assms(4) in blast)+
qed

text \<open>The write, complete or not: the stream gives up its number.\<close>

lemma serial_inv_write:
  assumes "serial_inv fs0 \<sigma>" and "st_pc \<sigma> t = Numbered d s img" and "WriteFile env d (jpgName s) img (st_files \<sigma>) = (fs, err)"
    and "\<And>d s img. c \<noteq> Numbered d s img"
  shows "serial_inv fs0 (goto t c ((st_handler \<sigma>)\<lparr>jet_files := fs\<rparr>) (settle err' f \<sigma>))"
proof -
  note D = serial_invD [OF assms(1)]
  have old: "\<not> serialOf d (st_handler \<sigma>) \<le> s" using D(1) [OF assms(2)] by simp
  have same: "map_of fs (d', n) = map_of (st_files \<sigma>) (d', n)" if "(d', n) \<noteq> (d, jpgName s)" for d' n
    using that assms(3) by (elim WriteFile_cases) auto
  have keep: "untouched fs0 fs d' (jpgName s')" if "untouched fs0 (st_files \<sigma>) d' (jpgName s')" "(d', s') \<noteq> (d, s)" for d' s'
    using that same [of d' "jpgName s'"] by (auto simp: untouched_def)
  have files: "jet_files ((st_handler \<sigma>)\<lparr>jet_files := fs\<rparr>) = fs" by simp
  show ?thesis
  proof (rule serial_invI; simp only: goto_simps settle_simps serialOf_files files)
    fix u v d' s' im im'
    assume "(if u = t then c else st_pc \<sigma> u) = Numbered d' s' im"
    then have u: "st_pc \<sigma> u = Numbered d' s' im" "u \<noteq> t" using assms(4) by (auto split: if_splits)
    show "s' < serialOf d' (st_handler \<sigma>)" using D(1) u by blast
    show "untouched fs0 fs d' (jpgName s')" using keep [OF D(2) [OF u(1)]] D(3) [OF u(1)] assms(2) u(2) by blast
    show "u = v" if "(if v = t then c else st_pc \<sigma> v) = Numbered d' s' im'"
      using that assms(4) D(3) [OF u(1)] by (auto split: if_splits)
  next
    fix d' s' assume "serialOf d' (st_handler \<sigma>) \<le> s'"
    then show "untouched fs0 fs d' (jpgName s')" using keep [OF D(4)] old by blast
  qed
qed

lemma serial_inv_step: "serial_inv fs0 \<sigma> \<Longrightarrow> store_step env \<sigma> \<sigma>' \<Longrightarrow> serial_inv fs0 \<sigma>'"
proof (erule store_step.cases)
  fix \<sigma>1 t img kind h serial
  assume inv: "serial_inv fs0 \<sigma>" and eq: "\<sigma> = \<sigma>1" "\<sigma>' = goto t (Numbered (frameDir kind) serial img) h \<sigma>1"
    and kind: "kind \<in> {FrameKindRGB, FrameKindDepth}" and ser: "nextSerial kind (st_handler \<sigma>1) = (h, serial)"
    and room: "serialOf (frameDir kind) (st_handler \<sigma>1) \<noteq> - 1"
  note n = nextSerial_counter [OF kind ser] and b = below_inc [OF room] and D = serial_invD [OF inv [unfolded eq(1)]]
  show "serial_inv fs0 \<sigma>'"
    unfolding eq(2)
  proof (rule serial_invI; simp only: goto_simps n(2))
    fix u v d s im im'
    assume u: "(if u = t then Numbered (frameDir kind) serial img else st_pc \<sigma>1 u) = Numbered d s im"
    show "s < serialOf d h" using u D(1) b(1) by (auto simp: n split: if_splits)
    show "untouched fs0 (st_files \<sigma>1) d (jpgName s)"
      using u D(2) [of u d s im] D(4) [of d s] n(1) by (auto split: if_splits)
    show "u = v" if "(if v = t then Numbered (frameDir kind) serial img else st_pc \<sigma>1 v) = Numbered d s im'"
      using that u D(1,3) by (auto simp: n split: if_splits)
  next
    fix d s assume "serialOf d h \<le> s"
    then have "serialOf d (st_handler \<sigma>1) \<le> s" using b(2) by (simp add: n split: if_splits)
    then show "untouched fs0 (st_files \<sigma>1) d (jpgName s)" by (rule D(4))
  qed
next
  fix \<sigma>1 t d s img fs
  assume inv: "serial_inv fs0 \<sigma>" and eq: "\<sigma> = \<sigma>1"
      "\<sigma>' = goto t (Written d) ((st_handler \<sigma>1)\<lparr>jet_files := fs\<rparr>) (settle None (d, jpgName s) \<sigma>1)"
    and pc: "st_pc \<sigma>1 t = Numbered d s img" and w: "WriteFile env d (jpgName s) img (st_files \<sigma>1) = (fs, None)"
  show "serial_inv fs0 \<sigma>'"
    unfolding eq(2) by (rule serial_inv_write [OF inv [unfolded eq(1)] pc w]) simp
next
  fix \<sigma>1 t d s img fs e
  assume inv: "serial_inv fs0 \<sigma>" and eq: "\<sigma> = \<sigma>1"
      "\<sigma>' = goto t Idle ((st_handler \<sigma>1)\<lparr>jet_files := fs\<rparr>) (settle (Some e) (d, jpgName s) \<sigma>1)"
    and pc: "st_pc \<sigma>1 t = Numbered d s img" and w: "WriteFile env d (jpgName s) img (st_files \<sigma>1) = (fs, Some e)"
  show "serial_inv fs0 \<sigma>'"
    unfolding eq(2) by (rule serial_inv_write [OF inv [unfolded eq(1)] pc w]) simp
qed (auto intro!: serial_inv_shrink simp: removeFile_def split: if_splits)

interpretation serials: invariant_system "store_init fs0" "store_step env" "serial_inv fs0" for fs0 env
  by unfold_locales (simp add: store_init_def serial_inv_def untouched_def NewJetsonHandler_def, rule serial_inv_step)

text \<open>
  C7: no frame is overwritten by another stream. However the streams interleave, when a stream is about to write
  its file, no other stream is about to write the same file, and nothing has been written to it since the server
  started: the file is absent, or a leftover of an earlier run.
\<close>

theorem concurrent_writes_disjoint:
  assumes "reach (store_init fs0) (store_step env) \<sigma>" and "st_pc \<sigma> t = Numbered d s img"
  shows "untouched fs0 (st_files \<sigma>) d (jpgName s) \<and>
    (\<forall>u s' img'. st_pc \<sigma> u = Numbered d s' img' \<and> jpgName s' = jpgName s \<longrightarrow> u = t)"
proof -
  note D = serial_invD [OF serials.reach_inv [OF assms(1)]]
  show ?thesis using D(2) [OF assms(2)] D(3) [OF assms(2)] by auto
qed

abbreviation two_streams :: store_state where
  "two_streams \<equiv> goto 2 (Numbered RGBDir 2 [8]) \<lparr>rgbSerial = 3, depthSerial = 1, jet_files = []\<rparr>
     (goto 1 (Numbered RGBDir 1 [7]) \<lparr>rgbSerial = 2, depthSerial = 1, jet_files = []\<rparr>
       \<lparr>st_handler = NewJetsonHandler [], st_pc = \<lambda>_. Idle, st_failed = {}\<rparr>)"

lemma two_streams_reach: "reach (store_init []) (store_step env) two_streams"
proof -
  let ?\<sigma>0 = "\<lparr>st_handler = NewJetsonHandler [], st_pc = \<lambda>_. Idle, st_failed = {}\<rparr> :: store_state"
  let ?\<sigma>1 = "goto 1 (Numbered RGBDir 1 [7]) \<lparr>rgbSerial = 2, depthSerial = 1, jet_files = []\<rparr> ?\<sigma>0"
  have "reach (store_init []) (store_step env) ?\<sigma>0" by (rule reach_init) (simp add: store_init_def)
  moreover have "store_step env ?\<sigma>0 ?\<sigma>1"
    using save_number [of ?\<sigma>0 1 "[7]" FrameKindRGB "\<lparr>rgbSerial = 2, depthSerial = 1, jet_files = []\<rparr>" 1 env]
    by (simp add: NewJetsonHandler_def nextSerial_def frameDir_def kind_defs)
  moreover have "store_step env ?\<sigma>1 two_streams"
    using save_number [of ?\<sigma>1 2 "[8]" FrameKindRGB "\<lparr>rgbSerial = 3, depthSerial = 1, jet_files = []\<rparr>" 2 env]
    by (simp add: nextSerial_def frameDir_def kind_defs)
  ultimately show ?thesis by (blast intro: reach_step)
qed

theorem concurrent_writes_disjoint_witness:
  "untouched [] (st_files two_streams) RGBDir (jpgName 2)"
  using concurrent_writes_disjoint [OF two_streams_reach, of 2 RGBDir 2 "[8]"] by simp

section \<open>How many files there can be at one time\<close>

abbreviation jpgs :: "dir \<Rightarrow> store_state \<Rightarrow> string set" where
  "jpgs d \<sigma> \<equiv> set (jpgNames d (st_files \<sigma>))"

definition complete :: "dir \<Rightarrow> store_state \<Rightarrow> string set" where
  "complete d \<sigma> = {n \<in> jpgs d \<sigma>. (d, n) \<notin> st_failed \<sigma>}"

lemma finite_complete [simp]: "finite (complete d \<sigma>)"
  by (simp add: complete_def)

definition savers :: "dir \<Rightarrow> store_state \<Rightarrow> nat set" where
  "savers d \<sigma> = {t. st_pc \<sigma> t = Written d \<or> (\<exists>ns. st_pc \<sigma> t = Removing d ns)}"

definition reliable :: "os_env \<Rightarrow> bool" where
  "reliable env \<longleftrightarrow> (\<forall>d. readDirErr env d = None) \<and> (\<forall>d n. removeOK env d n)"

text \<open>
  The streams that are deleting, in the order in which they listed the directory: when the one at some
  position is done, at most 30 complete files are left beside those of the streams that listed after it or have
  yet to.
\<close>

fun pending :: "saver \<Rightarrow> string set" where
  "pending (Removing d ns) = set ns"
| "pending _ = {}"

definition queue_bound :: "(nat \<Rightarrow> saver) \<Rightarrow> string set \<Rightarrow> nat \<Rightarrow> nat list \<Rightarrow> bool" where
  "queue_bound pc F b ts \<longleftrightarrow> card F \<le> b + length ts \<and>
     (\<forall>xs t ys. ts = xs @ t # ys \<longrightarrow> card (F - pending (pc t)) \<le> b + length ys)"

lemma queue_bound_snoc:
  assumes "queue_bound pc F (Suc b) ts" and "card (F - pending (pc u)) \<le> b"
  shows "queue_bound pc F b (ts @ [u])"
  unfolding queue_bound_def
proof (intro conjI allI impI)
  show "card F \<le> b + length (ts @ [u])" using assms(1) by (simp add: queue_bound_def)
  fix xs t ys assume eq: "ts @ [u] = xs @ t # ys"
  show "card (F - pending (pc t)) \<le> b + length ys"
  proof (cases ys rule: rev_cases)
    case Nil
    then show ?thesis using eq assms(2) by simp
  next
    case (snoc zs z)
    then have "ts = xs @ t # zs" using eq by simp
    then show ?thesis using assms(1) snoc unfolding queue_bound_def by fastforce
  qed
qed

lemma queue_bound_leave:
  assumes "queue_bound pc F b (as @ u # bs)" and "pending (pc u) = {}" and "finite F"
  shows "queue_bound pc F b (as @ bs)"
  unfolding queue_bound_def
proof (intro conjI allI impI)
  have u: "card F \<le> b + length bs" using assms(1,2) unfolding queue_bound_def by fastforce
  then show "card F \<le> b + length (as @ bs)" by simp
  fix xs t ys assume "as @ bs = xs @ t # ys"
  then consider zs where "as = xs @ t # zs" "ys = zs @ bs" | zs where "bs = zs @ t # ys"
    by (auto simp: append_eq_append_conv2 append_eq_Cons_conv Cons_eq_append_conv)
  then show "card (F - pending (pc t)) \<le> b + length ys"
  proof cases
    case 1
    then show ?thesis using u card_mono [OF assms(3), of "F - pending (pc t)"] by auto
  next
    case 2
    then have "as @ u # bs = (as @ u # zs) @ t # ys" by simp
    then show ?thesis using assms(1) unfolding queue_bound_def by blast
  qed
qed

lemma queue_bound_mono:
  assumes "queue_bound pc F b ts" and "card F' + b \<le> card F + b'"
    and "\<And>t. t \<in> set ts \<Longrightarrow> card (F' - pending (pc' t)) + b \<le> card (F - pending (pc t)) + b'"
  shows "queue_bound pc' F' b' ts"
  unfolding queue_bound_def
proof (intro conjI allI impI)
  show "card F' \<le> b' + length ts" using assms(1,2) by (simp add: queue_bound_def)
  fix xs t ys assume eq: "ts = xs @ t # ys"
  then have "card (F - pending (pc t)) \<le> b + length ys" using assms(1) unfolding queue_bound_def by blast
  then show "card (F' - pending (pc' t)) \<le> b' + length ys" using assms(3) [of t] eq by simp
qed

definition writers :: "dir \<Rightarrow> store_state \<Rightarrow> nat set" where
  "writers d \<sigma> = {t. st_pc \<sigma> t = Written d}"

definition removers :: "dir \<Rightarrow> store_state \<Rightarrow> nat set" where
  "removers d \<sigma> = {t. \<exists>ns. st_pc \<sigma> t = Removing d ns}"

definition bound_inv :: "dir \<Rightarrow> store_state \<Rightarrow> bool" where
  "bound_inv d \<sigma> \<longleftrightarrow> wf_map (st_files \<sigma>) \<and> finite (writers d \<sigma>) \<and>
     (\<exists>ts. distinct ts \<and> set ts = removers d \<sigma> \<and>
        queue_bound (st_pc \<sigma>) (complete d \<sigma>) (maxFrames + card (writers d \<sigma>)) ts)"

lemma bound_invE:
  assumes "bound_inv d \<sigma>"
  obtains ts where "wf_map (st_files \<sigma>)" "finite (writers d \<sigma>)" "distinct ts" "set ts = removers d \<sigma>"
    "queue_bound (st_pc \<sigma>) (complete d \<sigma>) (maxFrames + card (writers d \<sigma>)) ts"
  using assms unfolding bound_inv_def by blast

lemma bound_inv_intro:
  "wf_map (st_files \<sigma>) \<Longrightarrow> finite (writers d \<sigma>) \<Longrightarrow> distinct ts \<Longrightarrow> set ts = removers d \<sigma> \<Longrightarrow>
   queue_bound (st_pc \<sigma>) (complete d \<sigma>) (maxFrames + card (writers d \<sigma>)) ts \<Longrightarrow> bound_inv d \<sigma>"
  unfolding bound_inv_def by blast

lemma writers_goto: "writers d (goto t c h \<sigma>) = (if c = Written d then insert t (writers d \<sigma>) else writers d \<sigma> - {t})"
  by (auto simp: writers_def)

lemma removers_goto:
  "removers d (goto t c h \<sigma>) = (if \<exists>ns. c = Removing d ns then insert t (removers d \<sigma>) else removers d \<sigma> - {t})"
  by (auto simp: removers_def)

text \<open>A step that does not concern the directory: it keeps its files and the stream is not saving in it before or after.\<close>

lemma bound_inv_elsewhere:
  assumes "bound_inv d \<sigma>" and "wf_map (jet_files h)" and "st_pc \<sigma>' = st_pc \<sigma>" and "complete d (goto t c h \<sigma>') \<subseteq> complete d \<sigma>"
    and "t \<notin> writers d \<sigma>" and "t \<notin> removers d \<sigma>" and "c \<noteq> Written d" and "\<nexists>ns. c = Removing d ns"
  shows "bound_inv d (goto t c h \<sigma>')"
  using assms(1)
proof (rule bound_invE)
  fix ts assume ts: "finite (writers d \<sigma>)" "distinct ts" "set ts = removers d \<sigma>"
    "queue_bound (st_pc \<sigma>) (complete d \<sigma>) (maxFrames + card (writers d \<sigma>)) ts"
  have same: "writers d (goto t c h \<sigma>') = writers d \<sigma>" "removers d (goto t c h \<sigma>') = removers d \<sigma>"
    using assms(3,5-8) by (auto simp: writers_def removers_def)
  have "card (complete d (goto t c h \<sigma>') - P) \<le> card (complete d \<sigma> - P)" for P
    using assms(4) by (intro card_mono) auto
  from this this [of "{}"] have "queue_bound (st_pc (goto t c h \<sigma>')) (complete d (goto t c h \<sigma>')) (maxFrames + card (writers d \<sigma>)) ts"
    using ts(3) assms(3,6) by (intro queue_bound_mono [OF ts(4)]) auto
  then show ?thesis using ts assms(2) same by (intro bound_inv_intro [of _ _ ts]) simp_all
qed

lemma bound_inv_write:
  assumes "bound_inv d \<sigma>" and "st_pc \<sigma> t = Numbered d s img"
  shows "bound_inv d (goto t (Written d) ((st_handler \<sigma>)\<lparr>jet_files := AList.update (d, jpgName s) img (st_files \<sigma>)\<rparr>)
    (settle None (d, jpgName s) \<sigma>))"
    (is "bound_inv d ?\<sigma>")
  using assms(1)
proof (rule bound_invE)
  fix ts assume ts: "wf_map (st_files \<sigma>)" "finite (writers d \<sigma>)" "distinct ts" "set ts = removers d \<sigma>"
    "queue_bound (st_pc \<sigma>) (complete d \<sigma>) (maxFrames + card (writers d \<sigma>)) ts"
  have out: "t \<notin> writers d \<sigma>" "t \<notin> removers d \<sigma>" using assms(2) by (simp_all add: writers_def removers_def)
  have W: "writers d ?\<sigma> = insert t (writers d \<sigma>)" "removers d ?\<sigma> = removers d \<sigma>"
    using out by (auto simp: writers_def removers_def)
  have "complete d ?\<sigma> \<subseteq> insert (jpgName s) (complete d \<sigma>)" by (auto simp: complete_def jpgNames_lookup)
  then have "card (complete d ?\<sigma> - P) \<le> card (insert (jpgName s) (complete d \<sigma> - P))" for P by (intro card_mono) auto
  then have "card (complete d ?\<sigma> - P) \<le> Suc (card (complete d \<sigma> - P))" for P
    by (rule order.trans) (simp add: card_insert_if)
  from this this [of "{}"] have "queue_bound (st_pc ?\<sigma>) (complete d ?\<sigma>) (maxFrames + card (writers d ?\<sigma>)) ts"
    using ts(2,4) out by (intro queue_bound_mono [OF ts(5)]) (auto simp: W)
  then show ?thesis using ts W by (intro bound_inv_intro [of _ _ ts]) simp_all
qed

lemma oldFrames_leave: "card (set (jpgNames d fs) - set (oldFrames d fs)) \<le> maxFrames"
proof -
  define xs where "xs = sort (jpgNames d fs)"
  define k where "k = length xs - maxFrames"
  have "set xs = set (take k xs) \<union> set (drop k xs)" by (metis append_take_drop_id set_append)
  then have "set xs - set (take k xs) \<subseteq> set (drop k xs)" by blast
  then have "card (set xs - set (take k xs)) \<le> card (set (drop k xs))" by (rule card_mono [OF finite_set])
  also have "\<dots> \<le> length (drop k xs)" by (rule card_length)
  also have "\<dots> \<le> maxFrames" by (simp add: k_def)
  finally show ?thesis by (simp add: xs_def k_def oldFrames_def)
qed

lemma bound_inv_list:
  assumes "bound_inv d \<sigma>" and "st_pc \<sigma> t = Written d"
  shows "bound_inv d (goto t (Removing d (oldFrames d (st_files \<sigma>))) (st_handler \<sigma>) \<sigma>)" (is "bound_inv d ?\<sigma>")
  using assms(1)
proof (rule bound_invE)
  fix ts assume ts: "wf_map (st_files \<sigma>)" "finite (writers d \<sigma>)" "distinct ts" "set ts = removers d \<sigma>"
    "queue_bound (st_pc \<sigma>) (complete d \<sigma>) (maxFrames + card (writers d \<sigma>)) ts"
  have t: "t \<in> writers d \<sigma>" "t \<notin> set ts" using assms(2) ts(4) by (simp_all add: writers_def removers_def)
  then have W: "card (writers d \<sigma>) = Suc (card (writers d ?\<sigma>))" "finite (writers d ?\<sigma>)"
    using ts(2) card_Suc_Diff1 [OF ts(2) t(1)] by (simp_all add: writers_goto)
  have "card (complete d \<sigma> - set (oldFrames d (st_files \<sigma>))) \<le> maxFrames"
    by (rule order.trans [OF card_mono oldFrames_leave]) (auto simp: complete_def)
  moreover have "complete d ?\<sigma> = complete d \<sigma>" by (simp add: complete_def)
  moreover have "queue_bound (st_pc ?\<sigma>) (complete d \<sigma>) (Suc (maxFrames + card (writers d ?\<sigma>))) ts"
    by (rule queue_bound_mono [OF ts(5)]) (use t(2) W(1) in auto)
  ultimately have "queue_bound (st_pc ?\<sigma>) (complete d ?\<sigma>) (maxFrames + card (writers d ?\<sigma>)) (ts @ [t])"
    by (intro queue_bound_snoc) simp_all
  then show ?thesis
    using ts t W by (intro bound_inv_intro [of _ _ "ts @ [t]"]) (simp_all add: removers_goto)
qed

lemma bound_inv_remove:
  assumes "bound_inv d \<sigma>" and "st_pc \<sigma> t = Removing d (n # ns)"
  shows "bound_inv d (goto t (Removing d ns) ((st_handler \<sigma>)\<lparr>jet_files := AList.delete (d, n) (st_files \<sigma>)\<rparr>) \<sigma>)"
    (is "bound_inv d ?\<sigma>")
  using assms(1)
proof (rule bound_invE)
  fix ts assume ts: "wf_map (st_files \<sigma>)" "finite (writers d \<sigma>)" "distinct ts" "set ts = removers d \<sigma>"
    "queue_bound (st_pc \<sigma>) (complete d \<sigma>) (maxFrames + card (writers d \<sigma>)) ts"
  have same: "writers d ?\<sigma> = writers d \<sigma>" "removers d ?\<sigma> = removers d \<sigma>"
    using assms(2) by (auto simp: writers_goto removers_goto writers_def removers_def)
  have F: "complete d ?\<sigma> = complete d \<sigma> - {n}" by (auto simp: complete_def jpgNames_lookup)
  have "complete d ?\<sigma> - pending (st_pc ?\<sigma> u) \<subseteq> complete d \<sigma> - pending (st_pc \<sigma> u)" for u
    using assms(2) unfolding F by auto
  then have "card (complete d ?\<sigma> - pending (st_pc ?\<sigma> u)) \<le> card (complete d \<sigma> - pending (st_pc \<sigma> u))" for u
    by (simp add: card_mono)
  moreover have "card (complete d ?\<sigma>) \<le> card (complete d \<sigma>)" unfolding F by (simp add: card_Diff1_le)
  ultimately have "queue_bound (st_pc ?\<sigma>) (complete d ?\<sigma>) (maxFrames + card (writers d ?\<sigma>)) ts"
    unfolding same by (intro queue_bound_mono [OF ts(5)]) (simp_all only: add_le_mono1)
  then show ?thesis using ts same by (intro bound_inv_intro [of _ _ ts]) simp_all
qed

lemma bound_inv_done:
  assumes "bound_inv d \<sigma>" and "st_pc \<sigma> t = Removing d []"
  shows "bound_inv d (goto t Idle (st_handler \<sigma>) \<sigma>)" (is "bound_inv d ?\<sigma>")
  using assms(1)
proof (rule bound_invE)
  fix ts assume ts: "wf_map (st_files \<sigma>)" "finite (writers d \<sigma>)" "distinct ts" "set ts = removers d \<sigma>"
    "queue_bound (st_pc \<sigma>) (complete d \<sigma>) (maxFrames + card (writers d \<sigma>)) ts"
  have "t \<in> set ts" using assms(2) ts(4) by (simp add: removers_def)
  then obtain as bs where split: "ts = as @ t # bs" by (meson split_list)
  then have q: "queue_bound (st_pc \<sigma>) (complete d \<sigma>) (maxFrames + card (writers d \<sigma>)) (as @ bs)"
    using ts(5) assms(2) by (auto intro: queue_bound_leave)
  have same: "writers d ?\<sigma> = writers d \<sigma>" "removers d ?\<sigma> = set (as @ bs)" "t \<notin> set (as @ bs)"
    using assms(2) ts(3,4) split by (auto simp: writers_goto removers_goto writers_def)
  moreover have "complete d ?\<sigma> = complete d \<sigma>" by (simp add: complete_def)
  ultimately have "queue_bound (st_pc ?\<sigma>) (complete d ?\<sigma>) (maxFrames + card (writers d ?\<sigma>)) (as @ bs)"
    by (intro queue_bound_mono [OF q]) auto
  then show ?thesis using ts same split by (intro bound_inv_intro [of _ _ "as @ bs"]) auto
qed

lemma bound_inv_step:
  assumes "reliable env" and "bound_inv d \<sigma>" and "store_step env \<sigma> \<sigma>'"
  shows "bound_inv d \<sigma>'"
proof -
  have wf: "wf_map (st_files \<sigma>)" using assms(2) by (rule bound_invE)
  note elsewhere = bound_inv_elsewhere [OF assms(2)]
  from assms(3) show ?thesis
  proof cases
    case (save_number t img kind h serial)
    then have "jet_files h = st_files \<sigma>" using nextSerial_counter(2) by blast
    then show ?thesis using save_number wf by (auto intro!: elsewhere simp: writers_def removers_def complete_def)
  next
    case (save_write t d' serial img fs)
    then have fs: "fs = AList.update (d', jpgName serial) img (st_files \<sigma>)" by (auto elim: WriteFile_cases)
    show ?thesis
    proof (cases "d' = d")
      case True
      then show ?thesis using save_write fs bound_inv_write [OF assms(2)] by simp
    next
      case False
      then show ?thesis unfolding save_write(1) using save_write(2) wf fs
        by (intro elsewhere) (auto simp: writers_def removers_def complete_def jpgNames_lookup)
    qed
  next
    case (save_write_error t d' serial img fs e)
    have "set (jpgNames d fs) \<subseteq> jpgs d \<sigma> \<union> {n. (d, n) = (d', jpgName serial)}"
      using save_write_error(3) by (elim WriteFile_cases) (auto simp: jpgNames_lookup)
    moreover have "wf_map fs" using wf save_write_error(3) by (elim WriteFile_cases) auto
    ultimately show ?thesis unfolding save_write_error(1) using save_write_error(2)
      by (intro elsewhere) (auto simp: writers_def removers_def complete_def)
  next
    case (save_list t d')
    then show ?thesis
      using wf bound_inv_list [OF assms(2)] by (cases "d' = d") (auto intro!: elsewhere simp: writers_def removers_def complete_def)
  next
    case (save_list_error t d' e)
    then show ?thesis using assms(1) by (simp add: reliable_def)
  next
    case (save_remove t d' n ns)
    then have del: "removeFile env d' (st_files \<sigma>) n = AList.delete (d', n) (st_files \<sigma>)" using assms(1) by (simp add: removeFile_def reliable_def)
    show ?thesis
    proof (cases "d' = d")
      case True
      then show ?thesis using save_remove del bound_inv_remove [OF assms(2)] by simp
    next
      case False
      then show ?thesis unfolding save_remove(1) del using save_remove(2) wf
        by (intro elsewhere) (auto simp: writers_def removers_def complete_def jpgNames_lookup)
    qed
  next
    case (save_done t d')
    then show ?thesis
      using wf bound_inv_done [OF assms(2)] by (cases "d' = d") (auto intro!: elsewhere simp: writers_def removers_def complete_def)
  qed
qed

lemma bound_inv_init: "bounded_store fs0 \<Longrightarrow> store_init fs0 \<sigma> \<Longrightarrow> bound_inv d \<sigma>"
  using card_length [of "jpgNames d fs0"]
  by (auto simp: complete_def bound_inv_def store_init_def NewJetsonHandler_def bounded_store_def writers_def removers_def queue_bound_def
      intro: order_trans)

interpretation bounds: invariant_system "\<lambda>\<sigma>. bounded_store fs0 \<and> store_init fs0 \<sigma>" "store_step env"
    "\<lambda>\<sigma>. reliable env \<longrightarrow> (\<forall>d. bound_inv d \<sigma>)" for fs0 env
  by unfold_locales (use bound_inv_init bound_inv_step in blast)+

lemma bound_inv_savers:
  assumes "bound_inv d \<sigma>"
  shows "length (jpgNames d (st_files \<sigma>)) \<le> maxFrames + card (savers d \<sigma>) + card {n \<in> jpgs d \<sigma>. (d, n) \<in> st_failed \<sigma>}"
  using assms
proof (rule bound_invE)
  fix ts assume ts: "wf_map (st_files \<sigma>)" "finite (writers d \<sigma>)" "distinct ts" "set ts = removers d \<sigma>"
    "queue_bound (st_pc \<sigma>) (complete d \<sigma>) (maxFrames + card (writers d \<sigma>)) ts"
  have "savers d \<sigma> = writers d \<sigma> \<union> set ts" "writers d \<sigma> \<inter> set ts = {}"
    unfolding ts(4) by (auto simp: savers_def writers_def removers_def)
  then have "card (savers d \<sigma>) = card (writers d \<sigma>) + length ts"
    using ts(2,3) by (simp add: card_Un_disjoint distinct_card)
  moreover have "length (jpgNames d (st_files \<sigma>)) = card (complete d \<sigma> \<union> {n \<in> jpgs d \<sigma>. (d, n) \<in> st_failed \<sigma>})"
    using distinct_card [OF distinct_jpgNames [OF ts(1), of d], symmetric] by (auto simp: complete_def intro!: arg_cong [of _ _ card])
  moreover have "\<dots> \<le> card (complete d \<sigma>) + card {n \<in> jpgs d \<sigma>. (d, n) \<in> st_failed \<sigma>}" by (rule card_Un_le)
  ultimately show ?thesis using ts(5) by (simp add: queue_bound_def)
qed


text \<open>A stream whose write fails on a full disk.\<close>

abbreviation failed_save :: store_state where
  "failed_save \<equiv> goto 1 Idle \<lparr>rgbSerial = 2, depthSerial = 1, jet_files = [((RGBDir, ''1.jpg''), [7])]\<rparr>
     \<lparr>st_handler = NewJetsonHandler [], st_pc = \<lambda>_. Idle, st_failed = {(RGBDir, ''1.jpg'')}\<rparr>"


section \<open>The in-memory handler under concurrency\<close>

text \<open>
  \<open>MultiStreamHandler.Handle\<close> reads the last serial number before \<open>StoreFrame\<close> takes the lock. The frame it builds, and
  what two streams that both read before either stores do to the handler.
\<close>

definition MultiFrame :: "int \<Rightarrow> u8 \<Rightarrow> bytes \<Rightarrow> multi_stream_handler \<Rightarrow> video_frame" where
  "MultiFrame now kind data h = \<lparr>fr_Kind = kind, fr_Serial = MultiNextSerial kind h, fr_Timestamp = now, fr_Width = 640, fr_Height = 480,
     fr_PixelFmt = PixelFormatYUYV, fr_Data = data\<rparr>"

lemma MultiHandle_two_steps:
  "MultiHandle now (StreamRGB # data) h = (case MultiStoreFrame (MultiFrame now FrameKindRGB data h) h of
      (h', Some e) \<Rightarrow> (h', Inl e) | (h', None) \<Rightarrow> (h', Inr [StreamRGB, 6]))"
  by (simp add: MultiHandle_def MultiFrame_def kind_defs split: prod.split option.split)

text \<open>
  Two frames that are stored one after the other get consecutive serial numbers; when the two streams read the number
  before either stores, both frames get the same one.
\<close>

lemma racing_serials:
  assumes "length a = 614400" and "length b = 614400"
  shows "map_option fr_Serial (ms_rgb (fst (MultiHandle now (StreamRGB # b) (fst (MultiHandle now' (StreamRGB # a) h))))) =
      Some (MultiNextSerial FrameKindRGB h + 1)"
    and "let f1 = MultiFrame now' FrameKindRGB a h; f2 = MultiFrame now FrameKindRGB b h; h1 = fst (MultiStoreFrame f1 h) in
      map_option fr_Serial (ms_rgb h1) = Some (MultiNextSerial FrameKindRGB h) \<and>
      map_option fr_Serial (ms_rgb (fst (MultiStoreFrame f2 h1))) = Some (MultiNextSerial FrameKindRGB h)"
  using assms by (auto simp: MultiHandle_def MultiStoreFrame_def MultiFrame_def MultiNextSerial_def kind_defs Let_def split: option.splits)

end
