(* ===== verification/Config.thy ===== *)
theory Config
  imports Video_Handlers Path_Manager
begin

text \<open>
  The text formats of the configuration and of the RSSI measurements: the mapping of network interfaces
  to paths (\<^verbatim>\<open>internal/server/config.go\<close>), and the environment file and the command output of the RSSI
  provider (\<^verbatim>\<open>internal/rssi/provider.go\<close>). Text is a list of characters; of the white space that
  \<open>strings.TrimSpace\<close> strips, the ASCII characters are modelled. The SSH connection itself is not.
\<close>

section \<open>Strings\<close>

definition is_space :: "char \<Rightarrow> bool" where
  "is_space c \<longleftrightarrow> of_char c \<in> {9, 10, 11, 12, 13, 32 :: nat}"

definition trimBy :: "(char \<Rightarrow> bool) \<Rightarrow> string \<Rightarrow> string" where
  "trimBy P s = rev (dropWhile P (rev (dropWhile P s)))"

definition TrimSpace :: "string \<Rightarrow> string" where
  "TrimSpace s = trimBy is_space s"

text \<open>\<open>strings.Split(s, sep)\<close> with one character as separator.\<close>

fun splitOn :: "char \<Rightarrow> string \<Rightarrow> string list" where
  "splitOn sep [] = [[]]"
| "splitOn sep (c # s) =
     (if c = sep then [] # splitOn sep s
      else case splitOn sep s of [] \<Rightarrow> [[c]] | w # ws \<Rightarrow> (c # w) # ws)"

text \<open>\<open>strings.SplitN(s, sep, 2)\<close>: \<open>None\<close> when the separator does not occur.\<close>

definition SplitN2 :: "char \<Rightarrow> string \<Rightarrow> (string \<times> string) option" where
  "SplitN2 sep s = (if sep \<in> set s then Some (takeWhile (\<lambda>c. c \<noteq> sep) s, tl (dropWhile (\<lambda>c. c \<noteq> sep) s)) else None)"

text \<open>The error of \<open>strconv\<close>; whether it is the syntax or the range does not matter to the callers.\<close>

datatype num_error = NumError

text \<open>\<open>strconv.ParseInt(s, 10, 64)\<close>, and \<open>strconv.Atoi\<close> on a 64-bit platform.\<close>

definition ParseInt :: "string \<Rightarrow> num_error + int" where
  "ParseInt s =
     (let (neg, ds) = (case s of
            c # r \<Rightarrow> if c = CHR ''-'' then (True, r) else if c = CHR ''+'' then (False, r) else (False, s)
          | [] \<Rightarrow> (False, []))
      in if ds = [] \<or> \<not> list_all is_digit ds then Inl NumError
         else
           let v = (if neg then - int (digits_value ds) else int (digits_value ds)) in
           if v < - (2 ^ 63) \<or> 2 ^ 63 - 1 < v then Inl NumError else Inr v)"

section \<open>Path interfaces\<close>

datatype path_interface_error =
    EmptyPair string
  | InvalidPair string
  | EmptyInterface string
  | DuplicateInterface string
  | InvalidPathID string num_error
  | NegativePathID string
  | PathIDOverflow string
  | DuplicatePathID int

text \<open>
  One round of the loop, on the result so far. The sets \<open>ifaceSet\<close> and \<open>pathIDSet\<close> hold the keys and values
  of the result; \<open>single\<close> says that there is only one pair, which may be blank.
\<close>

definition parsePair :: "string \<Rightarrow> bool \<Rightarrow> (string, path_id) gomap \<Rightarrow> string \<Rightarrow> path_interface_error + (string, path_id) gomap" where
  "parsePair input single result originalPair =
     (let pair = TrimSpace originalPair in
      if pair = [] then (if single then Inr result else Inl (EmptyPair input))
      else
        case SplitN2 CHR ''='' pair of
          None \<Rightarrow> Inl (InvalidPair originalPair)
        | Some (left, right) \<Rightarrow>
            let iface = TrimSpace left in
            if iface = [] then Inl (EmptyInterface originalPair)
            else if iface \<in> fst ` set result then Inl (DuplicateInterface iface)
            else
              case ParseInt (TrimSpace right) of
                Inl e \<Rightarrow> Inl (InvalidPathID originalPair e)
              | Inr pathID64 \<Rightarrow>
                  if pathID64 < 0 then Inl (NegativePathID originalPair)
                  else if 0xFFFFFFFF < pathID64 then Inl (PathIDOverflow originalPair)
                  else if of_int pathID64 \<in> snd ` set result then Inl (DuplicatePathID pathID64)
                  else Inr (AList.update iface (of_int pathID64) result))"

fun parsePairs :: "string \<Rightarrow> bool \<Rightarrow> (string, path_id) gomap \<Rightarrow> string list \<Rightarrow> path_interface_error + (string, path_id) gomap" where
  "parsePairs input single result [] = Inr result"
| "parsePairs input single result (p # ps) =
     res_bind (parsePair input single result p) (\<lambda>result. parsePairs input single result ps)"

definition ParsePathInterfaces :: "string \<Rightarrow> path_interface_error + (string, path_id) gomap" where
  "ParsePathInterfaces input =
     (if input = [] then Inr []
      else let pairs = splitOn CHR '','' input in parsePairs input (length pairs = 1) [] pairs)"

section \<open>Lines\<close>

datatype rssi_error =
    LineTooLong
  | InvalidLine string
  | EmptyIface string
  | BadValue string num_error
  | NoValues string
  | OpenFailed string
  | IncompleteConfig string

text \<open>
  \<open>bufio.Scanner\<close> by lines: a final empty line is not delivered, a carriage return at the end is stripped,
  and a line that does not fit the buffer of 64 KiB ends the scan with an error.
\<close>

definition dropCR :: "string \<Rightarrow> string" where
  "dropCR s = (if s \<noteq> [] \<and> last s = CHR 0x0D then butlast s else s)"

definition scanLines :: "string \<Rightarrow> string list" where
  "scanLines s = (let ls = splitOn CHR 0x0A s in if last ls = [] then butlast ls else ls)"

definition tooLong :: "string \<Rightarrow> bool" where
  "tooLong rawLine \<longleftrightarrow> 65536 \<le> length rawLine"

section \<open>The output of the RSSI command\<close>

definition parseRSSILine :: "(string, int) gomap \<Rightarrow> string \<Rightarrow> rssi_error + (string, int) gomap" where
  "parseRSSILine result rawLine =
     (if tooLong rawLine then Inl LineTooLong
      else
        let line = TrimSpace (dropCR rawLine) in
        if line = [] then Inr result
        else
          case SplitN2 CHR '':'' line of
            None \<Rightarrow> Inl (InvalidLine line)
          | Some (left, right) \<Rightarrow>
              let iface = TrimSpace left in
              if iface = [] then Inl (EmptyIface line)
              else
                case ParseInt (TrimSpace right) of
                  Inl e \<Rightarrow> Inl (BadValue iface e)
                | Inr val \<Rightarrow> Inr (AList.update iface val result))"

fun parseRSSILines :: "(string, int) gomap \<Rightarrow> string list \<Rightarrow> rssi_error + (string, int) gomap" where
  "parseRSSILines result [] = Inr result"
| "parseRSSILines result (l # ls) = res_bind (parseRSSILine result l) (\<lambda>result. parseRSSILines result ls)"

definition parseRSSIOutput :: "string \<Rightarrow> rssi_error + (string, int) gomap" where
  "parseRSSIOutput output =
     res_bind (parseRSSILines [] (scanLines (TrimSpace output))) (\<lambda>result.
       if result = [] then Inl (NoValues (TrimSpace output)) else Inr result)"

section \<open>The environment file\<close>

record edge_config =
  Address :: string
  User :: string
  Password :: string
  Command :: string
  Timeout :: int
  EnvPath :: string

abbreviation (input) sq :: string where "sq \<equiv> [CHR 0x27]"
abbreviation (input) dq :: string where "dq \<equiv> [CHR 0x22]"

definition defaultRSSICommand :: string where
  "defaultRSSICommand =
      ''bash -lc '' @ sq @ ''for iface in $(iw dev 2>/dev/null | awk '' @ sq @ dq @ sq @ dq @ sq @ ''$1=='' @
      dq @ ''Interface'' @ dq @ ''{print $2}'' @ sq @ dq @ sq @ dq @ sq @ ''); do val=$(iw dev '' @ dq @
      ''$iface'' @ dq @ '' link 2>/dev/null | awk '' @ sq @ dq @ sq @ dq @ sq @
      ''/signal:/ {print int($2); exit}'' @ sq @ dq @ sq @ dq @ sq @ ''); if [ -n '' @ dq @ ''$val'' @ dq @
      '' ]; then echo '' @ dq @ ''$iface:$val'' @ dq @ ''; fi; done'' @ sq"

definition trimEnvValue :: "string \<Rightarrow> string" where
  "trimEnvValue raw = trimBy (\<lambda>c. c = CHR 0x22 \<or> c = CHR 0x27) (TrimSpace raw)"

definition edgeConfigLine :: "string \<Rightarrow> edge_config \<Rightarrow> edge_config" where
  "edgeConfigLine rawLine conf =
     (let line = TrimSpace (dropCR rawLine) in
      if line = [] \<or> hd line = CHR ''#'' then conf
      else
        case SplitN2 CHR ''='' line of
          None \<Rightarrow> conf
        | Some (left, right) \<Rightarrow>
            let key = TrimSpace left; value = trimEnvValue right in
            if key = ''ssh_address'' then conf\<lparr>Address := value\<rparr>
            else if key = ''ssh_id'' then conf\<lparr>User := value\<rparr>
            else if key = ''ssh_password'' then conf\<lparr>Password := value\<rparr>
            else if key = ''ssh_command'' \<and> value \<noteq> [] then conf\<lparr>Command := value\<rparr>
            else conf)"

fun edgeConfigLines :: "string list \<Rightarrow> edge_config \<Rightarrow> rssi_error + edge_config" where
  "edgeConfigLines [] conf = Inr conf"
| "edgeConfigLines (l # ls) conf = (if tooLong l then Inl LineTooLong else edgeConfigLines ls (edgeConfigLine l conf))"

text \<open>The content of the file is an argument, or the error of opening it.\<close>

definition LoadEdgeConfig :: "string \<Rightarrow> string + string \<Rightarrow> rssi_error + edge_config" where
  "LoadEdgeConfig path file =
     (case file of
        Inl e \<Rightarrow> Inl (OpenFailed e)
      | Inr content \<Rightarrow>
          res_bind (edgeConfigLines (scanLines content)
            \<lparr>Address = [], User = [], Password = [], Command = defaultRSSICommand, Timeout = 5 * 1000000000, EnvPath = path\<rparr>) (\<lambda>conf.
            if Address conf = [] \<or> User conf = [] \<or> Password conf = [] then Inl (IncompleteConfig path) else Inr conf))"

section \<open>What the mapping parser accepts\<close>

definition injective_map :: "(string, path_id) gomap \<Rightarrow> bool" where
  "injective_map m \<longleftrightarrow> distinct (map fst m) \<and> distinct (map snd m) \<and> [] \<notin> fst ` set m"

lemma update_new: "k \<notin> fst ` set m \<Longrightarrow> AList.update k v m = m @ [(k, v)]"
  by (induction m) auto

lemma parsePair_injective: "parsePair input single m p = Inr m' \<Longrightarrow> injective_map m \<Longrightarrow> injective_map m'"
  by (auto simp: parsePair_def Let_def injective_map_def update_new split: if_splits option.splits sum.splits prod.splits)

lemma parsePairs_injective: "parsePairs input single m ps = Inr m' \<Longrightarrow> injective_map m \<Longrightarrow> injective_map m'"
  by (induction ps arbitrary: m) (auto dest: parsePair_injective)

text \<open>
  Whatever configuration string is accepted, the resulting mapping names every interface once, gives
  no two interfaces the same path, and has no empty interface name. So configuring a session manager with
  it, in any order, makes the forward and the reverse map inverse to each other.
\<close>

theorem ParsePathInterfaces_injective:
  assumes "ParsePathInterfaces input = Inr m"
  shows "distinct (map fst m) \<and> distinct (map snd m) \<and> [] \<notin> fst ` set m"
proof -
  have "injective_map []" by (simp add: injective_map_def)
  then have "injective_map m"
    using assms parsePairs_injective by (auto simp: ParsePathInterfaces_def Let_def split: if_splits)
  then show ?thesis by (simp add: injective_map_def)
qed

section \<open>Round trip of the mapping\<close>

definition formatPair :: "string \<times> path_id \<Rightarrow> string" where
  "formatPair kv = fst kv @ ''='' @ dec_string (unat (snd kv))"

fun joinWith :: "char \<Rightarrow> string list \<Rightarrow> string" where
  "joinWith sep [] = []"
| "joinWith sep [w] = w"
| "joinWith sep (w # ws) = w @ sep # joinWith sep ws"

definition formatPathInterfaces :: "(string, path_id) gomap \<Rightarrow> string" where
  "formatPathInterfaces m = joinWith CHR '','' (map formatPair m)"

definition wf_iface :: "string \<Rightarrow> bool" where
  "wf_iface i \<longleftrightarrow> i \<noteq> [] \<and> \<not> is_space (hd i) \<and> \<not> is_space (last i) \<and> CHR '','' \<notin> set i \<and> CHR ''='' \<notin> set i"

lemma splitOn_none: "sep \<notin> set w \<Longrightarrow> splitOn sep w = [w]"
  by (induction w) auto

lemma splitOn_append: "sep \<notin> set w \<Longrightarrow> splitOn sep (w @ sep # s) = w # splitOn sep s"
  by (induction w) auto

lemma splitOn_joinWith: "ws \<noteq> [] \<Longrightarrow> \<forall>w \<in> set ws. sep \<notin> set w \<Longrightarrow> splitOn sep (joinWith sep ws) = ws"
  by (induction sep ws rule: joinWith.induct) (simp_all add: splitOn_none splitOn_append)

lemma SplitN2_append: "sep \<notin> set w \<Longrightarrow> SplitN2 sep (w @ sep # s) = Some (w, s)"
  by (auto simp: SplitN2_def takeWhile_append dropWhile_append intro!: takeWhile_eq_all_conv [THEN iffD2])

lemma TrimSpace_id: "s \<noteq> [] \<Longrightarrow> \<not> is_space (hd s) \<Longrightarrow> \<not> is_space (last s) \<Longrightarrow> TrimSpace s = s"
proof -
  assume s: "s \<noteq> []" "\<not> is_space (hd s)" "\<not> is_space (last s)"
  then have "dropWhile is_space s = s" by (cases s) auto
  moreover have "dropWhile is_space (rev s) = rev s" using s by (cases s rule: rev_cases) auto
  ultimately show ?thesis by (simp add: TrimSpace_def trimBy_def)
qed

lemma is_digit_not: "is_digit c \<Longrightarrow> \<not> is_space c \<and> c \<noteq> CHR ''-'' \<and> c \<noteq> CHR ''+'' \<and> c \<noteq> CHR '',''"
  by (auto simp: is_digit_def is_space_def)

lemma ParseInt_dec: "n < 2 ^ 63 \<Longrightarrow> ParseInt (dec_string n) = Inr (int n)"
proof -
  assume n: "n < 2 ^ 63"
  obtain c r where c: "dec_string n = c # r" using dec_string_digits_only(2) [of n] by (cases "dec_string n") auto
  then have "c \<noteq> CHR ''-''" "c \<noteq> CHR ''+''" using dec_string_digits_only(1) [of n] is_digit_not [of c] by auto
  then show ?thesis
    using dec_string_digits_only [of n] n c by (simp add: ParseInt_def Let_def)
qed

lemma TrimSpace_dec: "TrimSpace (dec_string n) = dec_string n"
proof (rule TrimSpace_id)
  have "hd (dec_string n) \<in> set (dec_string n)" "last (dec_string n) \<in> set (dec_string n)"
    using dec_string_digits_only(2) by simp_all
  then show "\<not> is_space (hd (dec_string n))" "\<not> is_space (last (dec_string n))"
    using dec_string_digits_only(1) [of n] is_digit_not by (auto simp: list_all_iff)
qed (rule dec_string_digits_only(2))

lemma TrimSpace_pair:
  assumes "wf_iface i"
  shows "TrimSpace (i @ CHR ''='' # dec_string n) = i @ CHR ''='' # dec_string n"
proof (rule TrimSpace_id)
  have "last (dec_string n) \<in> set (dec_string n)" using dec_string_digits_only(2) by simp
  then show "\<not> is_space (last (i @ CHR ''='' # dec_string n))"
    using dec_string_digits_only(1,2) [of n] is_digit_not by (auto simp: list_all_iff)
  show "\<not> is_space (hd (i @ CHR ''='' # dec_string n))" using assms by (simp add: wf_iface_def)
qed simp

lemma parsePair_format:
  assumes "wf_iface i" and "i \<notin> fst ` set m" and "pid \<notin> snd ` set m"
  shows "parsePair input single m (formatPair (i, pid)) = Inr (m @ [(i, pid)])"
proof -
  have b: "unat pid < 2 ^ 32" using unsigned_less [of pid, where 'a = nat] by simp
  have "uint pid \<le> 4294967295" using unsigned_less [of pid, where 'a = int] by simp
  moreover have "TrimSpace i = i" using assms(1) by (intro TrimSpace_id) (simp_all add: wf_iface_def)
  moreover have "SplitN2 CHR ''='' (i @ CHR ''='' # dec_string (unat pid)) = Some (i, dec_string (unat pid))"
    using assms(1) by (intro SplitN2_append) (simp add: wf_iface_def)
  moreover have "i \<noteq> []" using assms(1) by (simp add: wf_iface_def)
  ultimately show ?thesis
    using assms(2,3) b ParseInt_dec [of "unat pid"]
    by (simp add: parsePair_def formatPair_def TrimSpace_pair [OF assms(1)] TrimSpace_dec update_new)
qed

lemma parsePairs_format:
  "list_all (\<lambda>kv. wf_iface (fst kv)) kvs \<Longrightarrow> distinct (map fst (m @ kvs)) \<Longrightarrow> distinct (map snd (m @ kvs)) \<Longrightarrow>
     parsePairs input single m (map formatPair kvs) = Inr (m @ kvs)"
proof (induction kvs arbitrary: m)
  case (Cons kv kvs)
  obtain i pid where kv: "kv = (i, pid)" by fastforce
  then have "parsePair input single m (formatPair kv) = Inr (m @ [(i, pid)])"
    using Cons.prems by (auto intro!: parsePair_format)
  then show ?case using Cons.IH [of "m @ [(i, pid)]"] Cons.prems kv by simp
qed simp

text \<open>
  C23: a mapping written in the documented form, interfaces and path IDs joined by equals signs and commas,
  is read back exactly, for any number of entries with distinct interfaces and distinct path IDs and
  interface names without commas, equals signs and surrounding white space.
\<close>

theorem ParsePathInterfaces_format:
  assumes "list_all (\<lambda>kv. wf_iface (fst kv)) m" and "distinct (map fst m)" and "distinct (map snd m)"
  shows "ParsePathInterfaces (formatPathInterfaces m) = Inr m"
proof (cases m)
  case Nil
  then show ?thesis by (simp add: ParsePathInterfaces_def formatPathInterfaces_def)
next
  case (Cons kv kvs)
  have "CHR '','' \<notin> set (formatPair kv)" if "kv \<in> set m" for kv
    using that assms(1) dec_string_digits_only(1) is_digit_not
    by (fastforce simp: formatPair_def wf_iface_def list_all_iff)
  then have split: "splitOn CHR '','' (formatPathInterfaces m) = map formatPair m"
    unfolding formatPathInterfaces_def using Cons by (intro splitOn_joinWith) auto
  have "joinWith CHR '','' (w # ws) = [] \<Longrightarrow> w = []" for w ws by (cases ws) auto
  then have "formatPathInterfaces m \<noteq> []"
    using Cons by (auto simp: formatPathInterfaces_def formatPair_def)
  then show ?thesis
    using parsePairs_format [of m "[]"] assms split by (simp add: ParsePathInterfaces_def)
qed

theorem ParsePathInterfaces_format_witness:
  "ParsePathInterfaces (formatPathInterfaces [(''wlan0'', 0), (''eth1'', 12)]) = Inr [(''wlan0'', 0), (''eth1'', 12)]"
  by (rule ParsePathInterfaces_format) (simp_all add: wf_iface_def is_space_def)

theorem ParsePathInterfaces_injective_witness:
  "distinct (map fst [(''wlan0'', 0 :: path_id)]) \<and> distinct (map snd [(''wlan0'', 0 :: path_id)]) \<and>
     [] \<notin> fst ` set [(''wlan0'', 0 :: path_id)]"
  by (rule ParsePathInterfaces_injective [of "''wlan0 = 0''"]) code_simp

end
