(* ===== verification/File_Paths.thy ===== *)
theory File_Paths
  imports Config
begin

text \<open>
  \<open>filepath.Clean\<close> and \<open>filepath.Join\<close> of the Go library on Unix, which the server and the viewer use to locate
  the stored frames and the certificates, with the fact that joining plain components is concatenation.
\<close>

text \<open>One component of the path; the components already accepted are in reverse order.\<close>

definition cleanStep :: "bool \<Rightarrow> string list \<Rightarrow> string \<Rightarrow> string list" where
  "cleanStep rooted out c =
     (if c = [] \<or> c = ''.'' then out
      else if c = ''..'' then
        (case out of
           o1 # os \<Rightarrow> if o1 = ''..'' then c # out else os
         | [] \<Rightarrow> if rooted then [] else [c])
      else c # out)"

definition isRooted :: "string \<Rightarrow> bool" where
  "isRooted p \<longleftrightarrow> p \<noteq> [] \<and> hd p = CHR ''/''"

definition filepathClean :: "string \<Rightarrow> string" where
  "filepathClean p =
     (let out = rev (foldl (cleanStep (isRooted p)) [] (splitOn CHR ''/'' p))
      in if isRooted p then CHR ''/'' # joinWith CHR ''/'' out
         else if out = [] then ''.'' else joinWith CHR ''/'' out)"

definition filepathJoin :: "string list \<Rightarrow> string" where
  "filepathJoin es =
     (let ws = dropWhile (\<lambda>e. e = []) es in if ws = [] then [] else filepathClean (joinWith CHR ''/'' ws))"

section \<open>Plain components\<close>

definition plain :: "string \<Rightarrow> bool" where
  "plain c \<longleftrightarrow> c \<noteq> [] \<and> c \<noteq> ''.'' \<and> c \<noteq> ''..'' \<and> CHR ''/'' \<notin> set c"

lemma cleanStep_plain: "list_all plain cs \<Longrightarrow> foldl (cleanStep b) out cs = rev cs @ out"
  by (induction cs arbitrary: out) (auto simp: cleanStep_def plain_def)

lemma joinWith_append: "ws \<noteq> [] \<Longrightarrow> vs \<noteq> [] \<Longrightarrow> joinWith sep (ws @ vs) = joinWith sep ws @ sep # joinWith sep vs"
  by (induction sep ws rule: joinWith.induct) (cases vs; simp)+

lemma joinWith_Nil_iff: "list_all plain cs \<Longrightarrow> joinWith sep cs = [] \<longleftrightarrow> cs = []"
  by (cases "(sep, cs)" rule: joinWith.cases) (auto simp: plain_def)

lemma splitOn_plain: "list_all plain cs \<Longrightarrow> splitOn CHR ''/'' (joinWith CHR ''/'' cs) = (if cs = [] then [[]] else cs)"
  by (simp add: splitOn_joinWith plain_def list_all_iff)

lemma not_isRooted_plain: "list_all plain cs \<Longrightarrow> \<not> isRooted (joinWith CHR ''/'' cs)"
  by (cases "(CHR ''/'', cs)" rule: joinWith.cases) (auto simp: plain_def isRooted_def hd_append dest: hd_in_set)

lemma filepathClean_rooted: "list_all plain cs \<Longrightarrow> filepathClean (CHR ''/'' # joinWith CHR ''/'' cs) = CHR ''/'' # joinWith CHR ''/'' cs"
  by (simp add: filepathClean_def isRooted_def splitOn_plain cleanStep_plain) (simp add: cleanStep_def cleanStep_plain)

lemma filepathClean_relative: "list_all plain cs \<Longrightarrow> cs \<noteq> [] \<Longrightarrow> filepathClean (joinWith CHR ''/'' cs) = joinWith CHR ''/'' cs"
  by (simp add: filepathClean_def not_isRooted_plain splitOn_plain cleanStep_plain)

lemma filepathJoin_rooted:
  assumes "list_all plain (rs @ cs)" and "rs \<noteq> []" and "cs \<noteq> []"
  shows "filepathJoin [CHR ''/'' # joinWith CHR ''/'' rs, joinWith CHR ''/'' cs] = CHR ''/'' # joinWith CHR ''/'' (rs @ cs)"
  using filepathClean_rooted [OF assms(1)] assms by (simp add: filepathJoin_def joinWith_append)

lemma filepathJoin_relative: "list_all plain cs \<Longrightarrow> cs \<noteq> [] \<Longrightarrow> filepathJoin cs = joinWith CHR ''/'' cs"
  using filepathClean_relative by (cases cs) (auto simp: filepathJoin_def plain_def)

end
