(* ===== verification/Server.thy ===== *)
theory Server
  imports Session File_Paths Video_Stream
begin

text \<open>
  \<^verbatim>\<open>internal/server\<close>, \<^verbatim>\<open>cmd/server\<close>, the accept loop of \<^verbatim>\<open>internal/mpquic/session\<close> and the constructor of the RSSI
  provider: how the server is put together from its configuration, started, and what it does with
  incoming connections. The file system, the resolver, TLS, the sockets and the QUIC listener answer through
  arguments; contexts are the flags that say whether they are cancelled.
\<close>

section \<open>Configuration\<close>

record server_config =
  ListenAddr :: string
  MaxIdleTimeout :: int
  MaxStreamNum :: int
  sc_InitialMaxPathID :: u32
  sc_MaxPathID :: u32
  ServerName :: string
  EdgeEnvFile :: string
  PathInterfaces :: string
  PathAddresses :: "string list"
  CertFile :: string
  KeyFile :: string

definition DefaultConfig :: server_config where
  "DefaultConfig =
     \<lparr>ListenAddr = '':4433'', MaxIdleTimeout = 30 * 1000000000, MaxStreamNum = 100, sc_InitialMaxPathID = 1, sc_MaxPathID = 4,
      ServerName = ''mp-quic-server'', EdgeEnvFile = [], PathInterfaces = [], PathAddresses = [],
      CertFile = filepathJoin [''config'', ''tls'', ''cert.pem''], KeyFile = filepathJoin [''config'', ''tls'', ''key.pem'']\<rparr>"

definition LoadConfig :: server_config where
  "LoadConfig = DefaultConfig"

definition ALPN :: string where "ALPN = ''mp-quic''"

section \<open>Construction\<close>

datatype server_error =
    ImageHandlerError string
  | JetsonHandlerError string
  | RSSIProviderError rssi_error
  | ManagerError session_error
  | PathInterfacesError path_interface_error
  | ContextCancelled
  | TLSError string
  | ResolveError string
  | ListenError string
  | QUICError string

text \<open>The two directories that \<open>NewImageFrameHandler\<close> and \<open>NewJetsonHandler\<close> create; \<open>mkdir\<close> is the error of \<open>os.MkdirAll\<close>.\<close>

definition makeFrameDirs :: "(string \<Rightarrow> string option) \<Rightarrow> string \<Rightarrow> string option" where
  "makeFrameDirs mkdir baseDir =
     (case mkdir (filepathJoin [baseDir, ''rgb'']) of
        Some e \<Rightarrow> Some e
      | None \<Rightarrow> mkdir (filepathJoin [baseDir, ''depth'']))"

definition NewSSHProviderFromEnv :: "(string \<Rightarrow> string + string) \<Rightarrow> string \<Rightarrow> rssi_error + edge_config" where
  "NewSSHProviderFromEnv readFile path = LoadEdgeConfig path (readFile path)"

text \<open>\<open>FetchRSSI\<close>: the dialer, the session and the command answer in turn.\<close>

datatype fetch_error = FetchCancelled | DialFailed string | SessionFailed string | CommandFailed string | BadOutput rssi_error

definition FetchRSSI :: "bool \<Rightarrow> (string \<Rightarrow> string \<Rightarrow> string \<Rightarrow> string option) \<Rightarrow> string option \<Rightarrow> (string \<Rightarrow> string + string) \<Rightarrow> edge_config \<Rightarrow>
    fetch_error + (string, int) gomap" where
  "FetchRSSI cancelled dial newSession runCommand conf =
     (if cancelled then Inl FetchCancelled
      else case dial (Address conf @ '':22'') (User conf) (Password conf) of
          Some e \<Rightarrow> Inl (DialFailed e)
        | None \<Rightarrow>
            (case newSession of
               Some e \<Rightarrow> Inl (SessionFailed e)
             | None \<Rightarrow>
                 (case runCommand (Command conf) of
                    Inl e \<Rightarrow> Inl (CommandFailed e)
                  | Inr output \<Rightarrow> (case parseRSSIOutput output of Inl e \<Rightarrow> Inl (BadOutput e) | Inr r \<Rightarrow> Inr r))))"

record server =
  sv_config :: server_config
  sv_sessions :: session_manager
  sv_rssi :: "edge_config option"
  sv_streams :: image_handler
  sv_jetsonStreams :: jetson_handler
  sv_cancelled :: bool
  sv_listening :: bool

text \<open>The order in which Go ranges over the parsed map is an argument.\<close>

definition configureInterfaces :: "(string \<times> path_id) list \<Rightarrow> session_manager \<Rightarrow> session_manager" where
  "configureInterfaces kvs m = foldl (\<lambda>m (iface, pid). SetInterfaceMapping iface pid m) m kvs"

definition server_New :: "(string \<Rightarrow> string option) \<Rightarrow> (string \<Rightarrow> string + string) \<Rightarrow> ((string, path_id) gomap \<Rightarrow> (string \<times> path_id) list) \<Rightarrow>
    files \<Rightarrow> server_config \<Rightarrow> server_error + server" where
  "server_New mkdir readFile order fs conf =
     (let baseDir = filepathJoin [''.'', ''frames''] in
      case makeFrameDirs mkdir baseDir of
        Some e \<Rightarrow> Inl (ImageHandlerError e)
      | None \<Rightarrow>
          (case makeFrameDirs mkdir baseDir of
             Some e \<Rightarrow> Inl (JetsonHandlerError e)
           | None \<Rightarrow>
               (case (if EdgeEnvFile conf = [] then Inr None else map_sum id Some (NewSSHProviderFromEnv readFile (EdgeEnvFile conf))) of
                  Inl e \<Rightarrow> Inl (RSSIProviderError e)
                | Inr provider \<Rightarrow>
                    (case NewSessionManager \<lparr>InitialMaxPathID = sc_InitialMaxPathID conf, par_MaxPathID = sc_MaxPathID conf\<rparr> (Some PrimaryPathScheduler) of
                       Inl e \<Rightarrow> Inl (ManagerError e)
                     | Inr sessions \<Rightarrow>
                         (let made = (\<lambda>sessions. \<lparr>sv_config = conf, sv_sessions = sessions, sv_rssi = provider,
                                sv_streams = \<lparr>lastRGB = None, lastDepth = None, img_files = fs\<rparr>,
                                sv_jetsonStreams = NewJetsonHandler fs, sv_cancelled = False, sv_listening = False\<rparr>)
                          in if PathInterfaces conf = [] then Inr (made sessions)
                             else case ParsePathInterfaces (PathInterfaces conf) of
                                 Inl e \<Rightarrow> Inl (PathInterfacesError e)
                               | Inr ifaceMap \<Rightarrow> Inr (made (configureInterfaces (order ifaceMap) sessions)))))))"

section \<open>Start, connections, stop\<close>

record quic_config =
  qc_MaxIdleTimeout :: int
  qc_MaxIncomingStreams :: int
  qc_KeepAlivePeriod :: int
  qc_InitialMaxPathID :: u32
  qc_PathSelector :: "scheduler option"

text \<open>What the environment answers to \<open>Start\<close>: each is \<open>None\<close> for success or the error.\<close>

record start_env =
  loadTLS :: "string \<Rightarrow> string \<Rightarrow> string option"
  resolveUDP :: "string \<Rightarrow> string option"
  listenUDP :: "string \<Rightarrow> string option"
  listenQUIC :: "string list \<Rightarrow> quic_config \<Rightarrow> string option"

definition quicConfigOf :: "server \<Rightarrow> quic_config" where
  "quicConfigOf s =
     \<lparr>qc_MaxIdleTimeout = MaxIdleTimeout (sv_config s), qc_MaxIncomingStreams = MaxStreamNum (sv_config s),
      qc_KeepAlivePeriod = 30 * 1000000000, qc_InitialMaxPathID = sc_InitialMaxPathID (sv_config s),
      qc_PathSelector = mgr_scheduler (sv_sessions s)\<rparr>"

text \<open>\<open>Start\<close> up to the accept loop.\<close>

definition Start :: "start_env \<Rightarrow> bool \<Rightarrow> server \<Rightarrow> server \<times> server_error option" where
  "Start env cancelled s =
     (if cancelled then (s, Some ContextCancelled)
      else case loadTLS env (CertFile (sv_config s)) (KeyFile (sv_config s)) of
          Some e \<Rightarrow> (s, Some (TLSError e))
        | None \<Rightarrow>
            (case resolveUDP env (ListenAddr (sv_config s)) of
               Some e \<Rightarrow> (s, Some (ResolveError e))
             | None \<Rightarrow>
                 (case listenUDP env (ListenAddr (sv_config s)) of
                    Some e \<Rightarrow> (s, Some (ListenError e))
                  | None \<Rightarrow>
                      (case listenQUIC env [ALPN] (quicConfigOf s) of
                         Some e \<Rightarrow> (s, Some (QUICError e))
                       | None \<Rightarrow> (s\<lparr>sv_listening := True, sv_cancelled := False\<rparr>, None)))))"

text \<open>The accept loop: the connections it starts a handler for; an error that is not the end of the context is skipped.\<close>

datatype 'c accepted = Connection 'c | AcceptFailed string | AcceptCancelled

fun acceptLoop :: "'c accepted list \<Rightarrow> 'c list" where
  "acceptLoop [] = []"
| "acceptLoop (Connection c # as) = c # acceptLoop as"
| "acceptLoop (AcceptFailed e # as) = acceptLoop as"
| "acceptLoop (AcceptCancelled # as) = []"

text \<open>The accept loop at the end of \<open>Session.Run\<close>: the streams it starts a handler for, and how it returns.\<close>

fun acceptStreams :: "'s accepted list \<Rightarrow> 's list \<times> string option" where
  "acceptStreams [] = ([], None)"
| "acceptStreams (Connection st # as) = (let (sts, err) = acceptStreams as in (st # sts, err))"
| "acceptStreams (AcceptFailed e # as) = ([], Some e)"
| "acceptStreams (AcceptCancelled # as) = ([], None)"

text \<open>\<open>Manager.Handle\<close>: a fresh session, its start, and the streams it hands to the stream handler.\<close>

datatype handle_error = SessionError session_error | AcceptStreamError string

definition managerHandle :: "(real \<Rightarrow> real) \<Rightarrow> int \<Rightarrow> int \<Rightarrow> int \<Rightarrow> string \<Rightarrow> (string + (string \<times> int) list) option \<Rightarrow> 's accepted list \<Rightarrow>
    scheduler \<Rightarrow> session_manager \<Rightarrow> 's list \<times> handle_error option" where
  "managerHandle fl now1 now2 now3 remoteAddr answer streams sched m =
     (case NewSession m of
        Inl e \<Rightarrow> ([], Some (SessionError e))
      | Inr sess \<Rightarrow>
          (case Run fl now1 now2 now3 remoteAddr answer sched sess of
             (_, _, Inl e) \<Rightarrow> ([], Some (SessionError e))
           | (_, _, Inr _) \<Rightarrow> (case acceptStreams streams of (sts, err) \<Rightarrow> (sts, map_option AcceptStreamError err))))"

text \<open>\<open>handleConnection\<close>: the paths added before the session starts.\<close>

fun addPaths :: "(string \<Rightarrow> string option) \<Rightarrow> (string \<Rightarrow> path_id \<Rightarrow> bool) \<Rightarrow> nat \<Rightarrow> string list \<Rightarrow> (path_id \<times> string) list" where
  "addPaths resolve addPath i [] = []"
| "addPaths resolve addPath i (a # as) =
     (case resolve a of
        None \<Rightarrow> addPaths resolve addPath (Suc i) as
      | Some addr \<Rightarrow>
          (let pid = of_nat (i + 1)
           in if addPath addr pid then (pid, addr) # addPaths resolve addPath (Suc i) as
              else addPaths resolve addPath (Suc i) as))"

definition handleConnection :: "(string \<Rightarrow> string option) \<Rightarrow> (string \<Rightarrow> path_id \<Rightarrow> bool) \<Rightarrow> (real \<Rightarrow> real) \<Rightarrow> int \<Rightarrow> int \<Rightarrow> int \<Rightarrow> string \<Rightarrow>
    (string + (string \<times> int) list) option \<Rightarrow> 's accepted list \<Rightarrow> scheduler \<Rightarrow> server \<Rightarrow>
    (path_id \<times> string) list \<times> 's list \<times> handle_error option" where
  "handleConnection resolve addPath fl now1 now2 now3 remoteAddr answer streams sched s =
     (addPaths resolve addPath 0 (PathAddresses (sv_config s)),
      managerHandle fl now1 now2 now3 remoteAddr answer streams sched (sv_sessions s))"

definition Stop :: "string option \<Rightarrow> server \<Rightarrow> server \<times> string option" where
  "Stop closeErr s =
     (if sv_listening s then (s\<lparr>sv_cancelled := True\<rparr>, closeErr) else (s\<lparr>sv_cancelled := True\<rparr>, None))"

section \<open>The interface mapping of the sessions\<close>

lemma update_fresh_all:
  "distinct (map fst (m @ kvs)) \<Longrightarrow> foldl (\<lambda>m (k, v). AList.update k v m) m kvs = m @ kvs"
  by (induction kvs arbitrary: m) (auto simp: update_new)

lemma configureInterfaces_maps:
  "mgr_interfaceMap (configureInterfaces kvs m) = foldl (\<lambda>m (k, v). AList.update k v m) (mgr_interfaceMap m) kvs"
  "mgr_ifaceByPath (configureInterfaces kvs m) = foldl (\<lambda>m (k, v). AList.update k v m) (mgr_ifaceByPath m) (map prod.swap kvs)"
  "mgr_params (configureInterfaces kvs m) = mgr_params m"
  unfolding configureInterfaces_def by (induction kvs arbitrary: m) (auto simp: SetInterfaceMapping_def)

lemma copyMapping_maps:
  "interfaceMap (copyMapping kvs s) = foldl (\<lambda>m (k, v). AList.update k v m) (interfaceMap s) kvs"
  "ifaceByPath (copyMapping kvs s) = foldl (\<lambda>m (k, v). AList.update k v m) (ifaceByPath s) (map prod.swap kvs)"
  unfolding copyMapping_def by (induction kvs arbitrary: s) auto

lemma distinct_swap: "distinct (map snd kvs) \<Longrightarrow> distinct (map fst (map prod.swap kvs))"
  by (simp add: comp_def)

lemma update_all: "distinct (map fst kvs) \<Longrightarrow> foldl (\<lambda>m (k, v). AList.update k v m) [] kvs = kvs"
  using update_fresh_all [of "[]" kvs] by simp

lemma update_all_swap: "distinct (map snd kvs) \<Longrightarrow> foldl (\<lambda>m (k, v). AList.update k v m) [] (map prod.swap kvs) = map prod.swap kvs"
  by (intro update_all distinct_swap)

lemma NewSession_mapping:
  assumes "Validate (mgr_params m) = None" and "mgr_interfaceMap m = kvs" and "distinct (map fst kvs)" and "distinct (map snd kvs)"
  shows "\<exists>sess. NewSession m = Inr sess \<and> interfaceMap sess = kvs \<and> ifaceByPath sess = map prod.swap kvs"
proof -
  obtain s0 where s0: "session_New (mgr_params m) = Inr s0" "interfaceMap s0 = []" "ifaceByPath s0 = []"
    using assms(1) by (simp add: session_New_def)
  then show ?thesis
    using assms(2-4) by (simp add: NewSession_def copyMapping_maps update_all update_all_swap)
qed

lemma map_of_swap:
  assumes "distinct (map fst kvs)" and "distinct (map snd kvs)"
  shows "map_of kvs k = Some v \<longleftrightarrow> map_of (map prod.swap kvs) v = Some k"
  using assms distinct_swap [OF assms(2)] by (force simp: map_of_eq_Some_iff)

lemma server_New_manager:
  assumes "server_New mkdir readFile order fs conf = Inr s" and "\<And>m. mset (order m) = mset m"
  obtains m kvs where "ParsePathInterfaces (PathInterfaces conf) = Inr m" "mset kvs = mset m"
    "mgr_interfaceMap (sv_sessions s) = kvs" "mgr_ifaceByPath (sv_sessions s) = map prod.swap kvs"
    "distinct (map fst kvs)" "distinct (map snd kvs)" "Validate (mgr_params (sv_sessions s)) = None"
proof -
  obtain sessions where new: "NewSessionManager \<lparr>InitialMaxPathID = sc_InitialMaxPathID conf, par_MaxPathID = sc_MaxPathID conf\<rparr> (Some PrimaryPathScheduler) = Inr sessions"
    using assms(1) by (auto simp: server_New_def Let_def split: option.splits sum.splits if_splits)
  then have fresh: "mgr_interfaceMap sessions = []" "mgr_ifaceByPath sessions = []" "Validate (mgr_params sessions) = None"
    by (auto simp: NewSessionManager_def split: option.splits)
  show ?thesis
  proof (cases "PathInterfaces conf = []")
    case True
    then have "sv_sessions s = sessions"
      using assms(1) new by (auto simp: server_New_def Let_def split: option.splits sum.splits if_splits)
    then show ?thesis using that [of "[]" "[]"] True fresh by (simp add: ParsePathInterfaces_def)
  next
    case False
    then obtain m where m: "ParsePathInterfaces (PathInterfaces conf) = Inr m" "sv_sessions s = configureInterfaces (order m) sessions"
      using assms(1) new by (auto simp: server_New_def Let_def split: option.splits sum.splits if_splits)
    have "injective_map m"
      using m(1) parsePairs_injective [of _ _ "[]"] by (auto simp: ParsePathInterfaces_def injective_map_def Let_def split: if_splits)
    then have d: "distinct (map fst (order m))" "distinct (map snd (order m))"
      using assms(2) [of m] unfolding injective_map_def by (metis mset_map mset_eq_imp_distinct_iff)+
    show ?thesis
      using that [OF m(1) assms(2) _ _ d] fresh m(2) d by (simp add: configureInterfaces_maps update_all update_all_swap)
  qed
qed

text \<open>
  C22: from the configuration string to the session. For every configuration the server accepts, and whatever
  the order in which Go ranges over its maps, each incoming connection gets a session, and in it an
  interface belongs to a path exactly when the configuration says so and exactly when the path belongs to
  the interface: the two maps are inverse to each other.
\<close>

theorem server_sessions_interfaces:
  assumes "server_New mkdir readFile order fs conf = Inr s" and "\<And>m. mset (order m) = mset m"
  shows "\<exists>m sess. ParsePathInterfaces (PathInterfaces conf) = Inr m \<and>
    NewSession (sv_sessions s) = Inr sess \<and>
    (\<forall>i p. (map_of (interfaceMap sess) i = Some p) = (map_of m i = Some p) \<and>
       (InterfaceForPath p sess = Some i) = (map_of m i = Some p))"
proof -
  obtain m kvs where m: "ParsePathInterfaces (PathInterfaces conf) = Inr m" "mset kvs = mset m"
      "mgr_interfaceMap (sv_sessions s) = kvs" "distinct (map fst kvs)" "distinct (map snd kvs)" "Validate (mgr_params (sv_sessions s)) = None"
    using server_New_manager [OF assms] by metis
  then obtain sess where sess: "NewSession (sv_sessions s) = Inr sess" "interfaceMap sess = kvs" "ifaceByPath sess = map prod.swap kvs"
    using NewSession_mapping by blast
  have "map_of kvs = map_of m"
    using m(2,4) by (metis map_of_inject_set mset_eq_setD mset_map mset_eq_imp_distinct_iff)
  then show ?thesis
    using m(1) sess map_of_swap [OF m(4,5)] by (auto simp: InterfaceForPath_def)
qed

section \<open>The streams of a connection\<close>

text \<open>The streams accepted before the loop ends.\<close>

definition streamsBefore :: "'s accepted list \<Rightarrow> 's list" where
  "streamsBefore as = map (\<lambda>a. case a of Connection st \<Rightarrow> st) (takeWhile (\<lambda>a. case a of Connection st \<Rightarrow> True | _ \<Rightarrow> False) as)"

lemma acceptStreams_before: "fst (acceptStreams as) = streamsBefore as"
  by (induction as rule: acceptStreams.induct) (simp_all add: streamsBefore_def split_def)

text \<open>
  C10: a connection of a server that was accepted at construction is always served. For every accepted
  configuration, and whatever the RSSI provider answers, creating and starting the session of a connection does
  not fail: exactly the streams that arrive before the first failed accept are handed to the stream
  handler, and the only error that can end the connection is the one of that accept.
\<close>

theorem server_serves_streams:
  assumes "server_New mkdir readFile order fs conf = Inr s" and "\<And>m. mset (order m) = mset m"
  shows "snd (handleConnection resolve addPath fl now1 now2 now3 a answer streams sched s) =
    (streamsBefore streams, map_option AcceptStreamError (snd (acceptStreams streams)))"
proof -
  obtain kvs where m: "mgr_interfaceMap (sv_sessions s) = kvs" "distinct (map fst kvs)" "distinct (map snd kvs)"
      "Validate (mgr_params (sv_sessions s)) = None"
    using server_New_manager [OF assms] by metis
  obtain sess where sess: "NewSession (sv_sessions s) = Inr sess" using NewSession_mapping [OF m(4,1-3)] by blast
  then have "session_init sess" by (auto simp: session_init_def)
  from Run_initial [OF this] obtain s' sched' p where "Run fl now1 now2 now3 a answer sched sess = (s', sched', Inr p)" by metis
  then show ?thesis using sess acceptStreams_before [of streams] by (simp add: handleConnection_def managerHandle_def split_def)
qed

section \<open>The paths of a connection\<close>

lemma addPaths_ids:
  "i + length as < 2 ^ 32 \<Longrightarrow> (pid, addr) \<in> set (addPaths resolve addPath i as) \<longleftrightarrow>
     (\<exists>j < length as. pid = of_nat (i + j + 1) \<and> resolve (as ! j) = Some addr \<and> addPath addr pid)"
proof (induction as arbitrary: i)
  case (Cons a as)
  have split: "(\<exists>j < length (a # as). P j) \<longleftrightarrow> P 0 \<or> (\<exists>j < length as. P (Suc j))" for P by (auto simp: less_Suc_eq_0_disj)
  show ?case unfolding split using Cons by (auto simp: Let_def add.assoc split: option.splits)
qed simp

text \<open>
  The extra paths of a connection. With fewer than \<open>2 ^ 32 - 1\<close> configured addresses, the address at position
  \<open>j\<close> (from 0) becomes path \<open>j + 1\<close> exactly when it resolves and the connection accepts the path; a failed
  address uses up its number, so the numbers of the others do not depend on it, and path 0 is never added.
\<close>

theorem handleConnection_paths:
  assumes "length (PathAddresses (sv_config s)) < 2 ^ 32 - 1"
  shows "((pid, addr) \<in> set (fst (handleConnection resolve addPath fl now1 now2 now3 a answer streams sched s))) =
      (\<exists>j < length (PathAddresses (sv_config s)). unat pid = j + 1 \<and> resolve (PathAddresses (sv_config s) ! j) = Some addr \<and> addPath addr pid)"
proof -
  let ?as = "PathAddresses (sv_config s)"
  have "pid = of_nat (j + 1) \<longleftrightarrow> unat pid = j + 1" if "j < length ?as" for j
    using that assms by (auto simp: unat_of_nat word_unat_eq_iff simp del: of_nat_Suc of_nat_add)
  then show ?thesis
    using assms addPaths_ids [of 0 ?as pid addr resolve addPath] by (auto simp: handleConnection_def)
qed

section \<open>An example server\<close>

definition sample_config :: server_config where
  "sample_config = DefaultConfig\<lparr>PathInterfaces := ''wlan0=1, eth0=2'', PathAddresses := [''a'', ''b'']\<rparr>"

definition sample_server :: server where
  "sample_server = projr (server_New (\<lambda>_. None) (\<lambda>_. Inl ''none'') (\<lambda>m. m) [] sample_config)"

lemma sample_server_New: "server_New (\<lambda>_. None) (\<lambda>_. Inl ''none'') (\<lambda>m. m) [] sample_config = Inr sample_server"
proof -
  have "\<not> isl (server_New (\<lambda>_. None) (\<lambda>_. Inl ''none'') (\<lambda>m. m) [] sample_config)" by code_simp
  then show ?thesis by (simp add: sample_server_def)
qed

theorem server_sessions_interfaces_witness:
  "\<exists>m sess. ParsePathInterfaces (PathInterfaces sample_config) = Inr m \<and>
    NewSession (sv_sessions sample_server) = Inr sess \<and>
    (\<forall>i p. (map_of (interfaceMap sess) i = Some p) = (map_of m i = Some p) \<and>
       (InterfaceForPath p sess = Some i) = (map_of m i = Some p))"
  by (rule server_sessions_interfaces [OF sample_server_New]) simp

theorem server_serves_streams_witness:
  "snd (handleConnection Some (\<lambda>_ _. True) fl64 0 1 2 ''peer'' None [Connection ''s1'', Connection ''s2'', AcceptFailed ''reset''] PrimaryPathScheduler sample_server) =
    ([''s1'', ''s2''], Some (AcceptStreamError ''reset''))"
proof -
  have "snd (handleConnection Some (\<lambda>_ _. True) fl64 0 1 2 ''peer'' None [Connection ''s1'', Connection ''s2'', AcceptFailed ''reset''] PrimaryPathScheduler sample_server) =
    (streamsBefore [Connection ''s1'', Connection ''s2'', AcceptFailed ''reset''],
     map_option AcceptStreamError (snd (acceptStreams [Connection ''s1'', Connection ''s2'', AcceptFailed ''reset''])))"
    by (rule server_serves_streams [OF sample_server_New]) simp
  then show ?thesis by (simp add: streamsBefore_def)
qed

theorem handleConnection_paths_witness:
  "((2, ''b'') \<in> set (fst (handleConnection (\<lambda>a. if a = ''b'' then Some a else None) (\<lambda>_ _. True) fl64 0 1 2 ''peer'' None [AcceptFailed ''reset'' :: nat accepted] PrimaryPathScheduler sample_server))) = True"
proof -
  have conf: "PathAddresses (sv_config sample_server) = [''a'', ''b'']" by code_simp
  then have "((2, ''b'') \<in> set (fst (handleConnection (\<lambda>a. if a = ''b'' then Some a else None) (\<lambda>_ _. True) fl64 0 1 2 ''peer'' None [AcceptFailed ''reset'' :: nat accepted] PrimaryPathScheduler sample_server))) =
      (\<exists>j < length (PathAddresses (sv_config sample_server)). unat (2 :: path_id) = j + 1 \<and>
        (if PathAddresses (sv_config sample_server) ! j = ''b'' then Some (PathAddresses (sv_config sample_server) ! j) else None) = Some ''b'' \<and> True)"
    by (intro handleConnection_paths) simp
  then show ?thesis unfolding conf by (auto intro: exI [of _ 1])
qed

end
