(* ===== verification/Camera.thy ===== *)
theory Camera
  imports Video_Handlers Float64 "HOL-Library.Signed_Division"
begin

text \<open>
  \<^verbatim>\<open>internal/camera\<close>: the frame sources of the sender. \<^verbatim>\<open>types.go\<close> and \<^verbatim>\<open>source.go\<close> (a test source with checked
  configuration), \<^verbatim>\<open>v4l2.go\<close> (configuration of a Video4Linux source and the source itself), \<^verbatim>\<open>pattern.go\<close>
  (synthetic depth and colour pictures). The real cameras are in \<open>Camera_Devices\<close>.

  A Go \<open>int\<close> is a 64-bit word that the comparisons read as signed.
\<close>

section \<open>Frames and pixel formats\<close>

record cam_frame =
  cf_Kind :: u8
  cf_Data :: bytes
  cf_Width :: u64
  cf_Height :: u64
  cf_Channels :: u64
  cf_PixelFmt :: bytes
  cf_Serial :: u64
  cf_Timestamp :: int

definition zero_frame :: cam_frame where
  "zero_frame = \<lparr>cf_Kind = 0, cf_Data = [], cf_Width = 0, cf_Height = 0, cf_Channels = 0, cf_PixelFmt = [], cf_Serial = 0,
     cf_Timestamp = 0\<rparr>"

datatype camera_error =
    ContextDone
  | InvalidWidth u64
  | InvalidHeight u64
  | EmptyPixelFormat
  | EmptyDevicePath
  | InvalidFrameRate u64
  | BadFrameKind u8
  | UnsupportedPixelFormat bytes
  | RGBWithZ16
  | DepthWithColour bytes
  | NotStarted
  | NotImplemented
  | OpenDevice string
  | PanicMakeFrame

definition IsSupportedV4L2PixelFormat :: "bytes \<Rightarrow> bool" where
  "IsSupportedV4L2PixelFormat f \<longleftrightarrow> f = PixelFormatYUYV \<or> f = PixelFormatZ16 \<or> f = PixelFormatRGB24"

text \<open>\<open>make([]byte, n)\<close> panics for a negative or unaddressable size.\<close>

definition makeBytes :: "u64 \<Rightarrow> camera_error + bytes" where
  "makeBytes n = (if sint n < 0 \<or> 2 ^ 48 < sint n then Inl PanicMakeFrame else Inr (replicate (unat n) 0))"

section \<open>The test pattern source\<close>

record test_pattern_config =
  tp_Kind :: u8
  tp_Width :: u64
  tp_Height :: u64
  tp_PixelFmt :: bytes
  tp_FrameRate :: u64

record test_pattern_source =
  tps_config :: test_pattern_config
  tps_started :: bool
  tps_serial :: u64

definition NewTestPatternSource :: "test_pattern_config \<Rightarrow> test_pattern_source" where
  "NewTestPatternSource c = \<lparr>tps_config = c, tps_started = False, tps_serial = 0\<rparr>"

definition tpsStart :: "bool \<Rightarrow> test_pattern_source \<Rightarrow> test_pattern_source \<times> camera_error option" where
  "tpsStart done s =
     (let c = tps_config s in
      if done then (s, Some ContextDone)
      else if sint (tp_Width c) \<le> 0 then (s, Some (InvalidWidth (tp_Width c)))
      else if sint (tp_Height c) \<le> 0 then (s, Some (InvalidHeight (tp_Height c)))
      else if tp_PixelFmt c = [] then (s, Some EmptyPixelFormat)
      else if sint (tp_FrameRate c) \<le> 0 then (s, Some (InvalidFrameRate (tp_FrameRate c)))
      else if tp_Kind c \<noteq> FrameKindRGB \<and> tp_Kind c \<noteq> FrameKindDepth then (s, Some (BadFrameKind (tp_Kind c)))
      else if \<not> IsSupportedV4L2PixelFormat (tp_PixelFmt c) then (s, Some (UnsupportedPixelFormat (tp_PixelFmt c)))
      else if tp_Kind c = FrameKindRGB \<and> tp_PixelFmt c = PixelFormatZ16 then (s, Some RGBWithZ16)
      else if tp_Kind c = FrameKindDepth \<and> (tp_PixelFmt c = PixelFormatYUYV \<or> tp_PixelFmt c = PixelFormatRGB24) then
        (s, Some (DepthWithColour (tp_PixelFmt c)))
      else (s\<lparr>tps_started := True\<rparr>, None))"

definition frameSizeOf :: "bytes \<Rightarrow> u64 \<Rightarrow> u64 \<Rightarrow> u64" where
  "frameSizeOf f w h =
     (if f = PixelFormatYUYV \<or> f = PixelFormatZ16 then w * h * 2 else if f = PixelFormatRGB24 then w * h * 3 else 0)"

text \<open>\<open>byte((i + int(serial)) % 256)\<close>, with Go's remainder, which has the sign of the dividend.\<close>

definition patternByte :: "u64 \<Rightarrow> nat \<Rightarrow> u8" where
  "patternByte serial i = word_of_int (sint (of_nat i + serial) smod 256)"

definition tpsReadFrame :: "bool \<Rightarrow> int \<Rightarrow> test_pattern_source \<Rightarrow> test_pattern_source \<times> (camera_error + cam_frame)" where
  "tpsReadFrame done now s =
     (if done then (s, Inl ContextDone)
      else if \<not> tps_started s then (s, Inl NotStarted)
      else
        let s = s\<lparr>tps_serial := tps_serial s + 1\<rparr>;
            c = tps_config s
        in case makeBytes (frameSizeOf (tp_PixelFmt c) (tp_Width c) (tp_Height c)) of
             Inl e \<Rightarrow> (s, Inl e)
           | Inr data \<Rightarrow>
               (s, Inr \<lparr>cf_Kind = tp_Kind c, cf_Data = map (patternByte (tps_serial s)) [0..<length data],
                        cf_Width = tp_Width c, cf_Height = tp_Height c, cf_Channels = 2, cf_PixelFmt = tp_PixelFmt c,
                        cf_Serial = tps_serial s, cf_Timestamp = now\<rparr>))"

definition tpsClose :: "test_pattern_source \<Rightarrow> test_pattern_source" where
  "tpsClose s = s\<lparr>tps_started := False\<rparr>"

definition ExpectedTestPatternFrameSize :: "test_pattern_config \<Rightarrow> camera_error + u64" where
  "ExpectedTestPatternFrameSize c =
     (if \<not> IsSupportedV4L2PixelFormat (tp_PixelFmt c) then Inl (UnsupportedPixelFormat (tp_PixelFmt c))
      else if tp_PixelFmt c = PixelFormatYUYV \<or> tp_PixelFmt c = PixelFormatZ16 then Inr (tp_Width c * tp_Height c * 2)
      else if tp_PixelFmt c = PixelFormatRGB24 then Inr (tp_Width c * tp_Height c * 3)
      else Inl (UnsupportedPixelFormat (tp_PixelFmt c)))"

section \<open>The Video4Linux source\<close>

record v4l2_config =
  DevicePath :: string
  v4_Kind :: u8
  v4_Width :: u64
  v4_Height :: u64
  v4_PixelFmt :: bytes
  v4_FrameRate :: u64

definition ValidateV4L2Config :: "v4l2_config \<Rightarrow> camera_error option" where
  "ValidateV4L2Config c =
     (if DevicePath c = [] then Some EmptyDevicePath
      else if sint (v4_Width c) \<le> 0 then Some (InvalidWidth (v4_Width c))
      else if sint (v4_Height c) \<le> 0 then Some (InvalidHeight (v4_Height c))
      else if sint (v4_FrameRate c) \<le> 0 then Some (InvalidFrameRate (v4_FrameRate c))
      else if \<not> IsSupportedV4L2PixelFormat (v4_PixelFmt c) then Some (UnsupportedPixelFormat (v4_PixelFmt c))
      else if v4_Kind c \<noteq> FrameKindRGB \<and> v4_Kind c \<noteq> FrameKindDepth then Some (BadFrameKind (v4_Kind c))
      else if v4_Kind c = FrameKindRGB \<and> v4_PixelFmt c = PixelFormatZ16 then Some RGBWithZ16
      else if v4_Kind c = FrameKindDepth \<and> (v4_PixelFmt c = PixelFormatYUYV \<or> v4_PixelFmt c = PixelFormatRGB24) then
        Some (DepthWithColour (v4_PixelFmt c))
      else None)"

record v4l2_source =
  v4s_config :: v4l2_config
  v4s_file :: bool
  v4s_started :: bool

definition NewV4L2Source :: "v4l2_config \<Rightarrow> v4l2_source" where
  "NewV4L2Source c = \<lparr>v4s_config = c, v4s_file = False, v4s_started = False\<rparr>"

text \<open>\<open>openErr\<close> is the error of opening the device, if there is one.\<close>

definition v4l2Start :: "(string \<Rightarrow> string option) \<Rightarrow> v4l2_source \<Rightarrow> v4l2_source \<times> camera_error option" where
  "v4l2Start openErr s =
     (case ValidateV4L2Config (v4s_config s) of
        Some e \<Rightarrow> (s, Some e)
      | None \<Rightarrow>
          (case openErr (DevicePath (v4s_config s)) of
             Some e \<Rightarrow> (s, Some (OpenDevice e))
           | None \<Rightarrow> (s\<lparr>v4s_file := True, v4s_started := True\<rparr>, None)))"

definition v4l2ReadFrame :: "v4l2_source \<Rightarrow> camera_error + cam_frame" where
  "v4l2ReadFrame s = (if \<not> v4s_started s then Inl NotStarted else Inl NotImplemented)"

definition v4l2Close :: "string option \<Rightarrow> v4l2_source \<Rightarrow> v4l2_source \<times> string option" where
  "v4l2Close closeErr s = (s\<lparr>v4s_started := False\<rparr>, if v4s_file s then closeErr else None)"

definition ExpectedV4L2FrameSize :: "v4l2_config \<Rightarrow> camera_error + u64" where
  "ExpectedV4L2FrameSize c =
     (if \<not> IsSupportedV4L2PixelFormat (v4_PixelFmt c) then Inl (UnsupportedPixelFormat (v4_PixelFmt c))
      else if v4_PixelFmt c = PixelFormatYUYV \<or> v4_PixelFmt c = PixelFormatZ16 then Inr (v4_Width c * v4_Height c * 2)
      else if v4_PixelFmt c = PixelFormatRGB24 then Inr (v4_Width c * v4_Height c * 3)
      else Inl (UnsupportedPixelFormat (v4_PixelFmt c)))"

section \<open>Synthetic pictures\<close>

definition clampU16 :: "u16 \<Rightarrow> u8" where
  "clampU16 v = (if 255 < v then 255 else ucast v)"

definition clampU32 :: "u32 \<Rightarrow> u16" where
  "clampU32 v = (if 65535 < v then 65535 else ucast v)"

text \<open>\<open>rgbToYCbCr\<close> in \<open>int32\<close>: the intermediate values stay far below \<open>2 ^ 31\<close>, so integers are exact; \<open>>>\<close> rounds down.\<close>

definition luma :: "int \<Rightarrow> int \<Rightarrow> int \<Rightarrow> int" where
  "luma r g b = (19595 * r + 38470 * g + 7471 * b + 32768) div 65536"

definition chromaB :: "int \<Rightarrow> int \<Rightarrow> int \<Rightarrow> int" where
  "chromaB r g b = (- 11058 * r - 21710 * g + 32768 * b + 8421376) div 65536"

definition chromaR :: "int \<Rightarrow> int \<Rightarrow> int \<Rightarrow> int" where
  "chromaR r g b = (32768 * r - 27439 * g - 5329 * b + 8421376) div 65536"

definition rgbToYCbCr :: "u8 \<Rightarrow> u8 \<Rightarrow> u8 \<Rightarrow> u8 \<times> u8 \<times> u8" where
  "rgbToYCbCr r g b =
     (let r1 = uint r; g1 = uint g; b1 = uint b
      in (word_of_int (luma r1 g1 b1), word_of_int (chromaB r1 g1 b1), word_of_int (chromaR r1 g1 b1)))"

text \<open>
  Conversion of a float to an unsigned integer truncates; outside the range of the type Go leaves the
  result to the implementation, here \<open>oob\<close>.
\<close>

definition toUnsigned :: "(real \<Rightarrow> 'a::len word) \<Rightarrow> real \<Rightarrow> 'a word" where
  "toUnsigned oob v = (if -1 < v \<and> v < 2 ^ LENGTH('a) then word_of_int (if 0 \<le> v then \<lfloor>v\<rfloor> else \<lceil>v\<rceil>) else oob v)"

definition sin8 :: "(real \<Rightarrow> real) \<Rightarrow> real \<Rightarrow> real" where
  "sin8 fl v =
     (let x = fl (fl (v * fl 3.14159) * 2);
          x3 = fl (fl (x * x) * x);
          x5 = fl (fl (x3 * x) * x);
          s = fl (fl (x - fl (x3 / 6)) + fl (x5 / 120))
      in if 1 < s then 1 else if s < -1 then -1 else s)"

definition phaseOf :: "(real \<Rightarrow> real) \<Rightarrow> u64 \<Rightarrow> real" where
  "phaseOf fl serial = fl (of_nat (unat serial mod 100) / 100)"

definition depthPixel :: "(real \<Rightarrow> real) \<Rightarrow> (real \<Rightarrow> u32) \<Rightarrow> nat \<Rightarrow> nat \<Rightarrow> u64 \<Rightarrow> nat \<Rightarrow> nat \<Rightarrow> u16" where
  "depthPixel fl oob w h serial y x =
     (let v = toUnsigned oob (fl (fl (fl (of_nat x / of_nat w) * 60000) + 2000));
          wave = toUnsigned oob (fl (2000 * sin8 fl (fl (phaseOf fl serial + fl (fl (of_nat y / of_nat h) * 2)))))
      in clampU32 (v + wave))"

definition genDepth :: "(real \<Rightarrow> real) \<Rightarrow> (real \<Rightarrow> u32) \<Rightarrow> nat \<Rightarrow> nat \<Rightarrow> u64 \<Rightarrow> cam_frame" where
  "genDepth fl oob w h serial =
     zero_frame\<lparr>cf_Kind := FrameKindDepth,
       cf_Data := concat (map (\<lambda>y. concat (map (\<lambda>x.
           let depth = depthPixel fl oob w h serial y x in [ucast depth, ucast (drop_bit 8 depth)]) [0..<w])) [0..<h]),
       cf_Width := of_nat w, cf_Height := of_nat h, cf_Channels := 1, cf_Serial := serial\<rparr>"

definition bars :: "(u8 \<times> u8 \<times> u8) list" where
  "bars = [(255, 0, 0), (0, 255, 0), (0, 0, 255), (255, 255, 0), (255, 0, 255), (0, 255, 255)]"

definition rgbPixel :: "u8 \<Rightarrow> nat \<Rightarrow> nat \<Rightarrow> bytes" where
  "rgbPixel scan barW x =
     (let (r, g, b) = bars ! ((x div barW) mod length bars);
          add = (\<lambda>c. clampU16 (ucast c + ucast scan));
          (yy, cb, cr) = rgbToYCbCr (add r) (add g) (add b)
      in if x mod 2 = 0 then [yy, cb] else [yy, cr])"

text \<open>\<open>genRGB\<close>: with a width below 6 the bars have width 0 and the division panics.\<close>

definition genRGB :: "(real \<Rightarrow> real) \<Rightarrow> (real \<Rightarrow> u8) \<Rightarrow> nat \<Rightarrow> nat \<Rightarrow> u64 \<Rightarrow> cam_frame option" where
  "genRGB fl oob w h serial =
     (let barW = w div 6 in
      if barW = 0 \<and> 0 < w \<and> 0 < h then None
      else Some (zero_frame\<lparr>cf_Kind := FrameKindRGB,
        cf_Data := concat (map (\<lambda>y.
            let scan = toUnsigned oob (fl (20 * sin8 fl (fl (phaseOf fl serial + fl (fl (of_nat y / of_nat h) * 4)))))
            in concat (map (rgbPixel scan barW) [0..<w])) [0..<h]),
        cf_Width := of_nat w, cf_Height := of_nat h, cf_Channels := 2, cf_Serial := serial\<rparr>))"

record pattern_provider =
  pp_width :: nat
  pp_height :: nat
  pp_serial :: u64

definition NewPatternProviderWithSize :: "nat \<Rightarrow> nat \<Rightarrow> pattern_provider" where
  "NewPatternProviderWithSize w h = \<lparr>pp_width = w, pp_height = h, pp_serial = 0\<rparr>"

definition NewPatternProvider :: pattern_provider where
  "NewPatternProvider = NewPatternProviderWithSize 320 240"

definition patternNext :: "(real \<Rightarrow> real) \<Rightarrow> (real \<Rightarrow> u32) \<Rightarrow> (real \<Rightarrow> u8) \<Rightarrow> pattern_provider \<Rightarrow>
    pattern_provider \<times> (cam_frame \<times> cam_frame) option" where
  "patternNext fl oob32 oob8 p =
     (let serial = pp_serial p + 1;
          p = p\<lparr>pp_serial := serial\<rparr>
      in (p, map_option (\<lambda>rgb. (genDepth fl oob32 (pp_width p) (pp_height p) serial, rgb))
               (genRGB fl oob8 (pp_width p) (pp_height p) serial)))"

section \<open>The two configuration checks agree\<close>

lemma not_empty_format: "IsSupportedV4L2PixelFormat f \<Longrightarrow> f \<noteq> []"
  by (auto simp: IsSupportedV4L2PixelFormat_def PixelFormatYUYV_def PixelFormatZ16_def PixelFormatRGB24_def)

text \<open>
  C24: the two checks of a configuration, written separately and in different orders, accept the same
  settings: a test pattern source starts exactly when the same settings with some device path pass
  \<open>ValidateV4L2Config\<close>. Both then promise the same frame size, and every accepted setting has one.
\<close>

theorem config_checks_agree:
  assumes "DevicePath c \<noteq> []" and "v4_Kind c = tp_Kind d" and "v4_Width c = tp_Width d" and "v4_Height c = tp_Height d"
    and "v4_PixelFmt c = tp_PixelFmt d" and "v4_FrameRate c = tp_FrameRate d"
  shows "(snd (tpsStart False (NewTestPatternSource d)) = None \<longleftrightarrow> ValidateV4L2Config c = None) \<and>
    ExpectedV4L2FrameSize c = ExpectedTestPatternFrameSize d \<and>
    (ValidateV4L2Config c = None \<longrightarrow> ExpectedV4L2FrameSize c = Inr (frameSizeOf (v4_PixelFmt c) (v4_Width c) (v4_Height c)))"
proof (intro conjI impI)
  show "snd (tpsStart False (NewTestPatternSource d)) = None \<longleftrightarrow> ValidateV4L2Config c = None"
    using assms not_empty_format [of "tp_PixelFmt d"]
    by (simp add: tpsStart_def ValidateV4L2Config_def NewTestPatternSource_def Let_def)
  show "ExpectedV4L2FrameSize c = ExpectedTestPatternFrameSize d"
    using assms by (simp add: ExpectedV4L2FrameSize_def ExpectedTestPatternFrameSize_def)
  assume "ValidateV4L2Config c = None"
  then have "IsSupportedV4L2PixelFormat (v4_PixelFmt c)" by (auto simp: ValidateV4L2Config_def split: if_splits)
  then show "ExpectedV4L2FrameSize c = Inr (frameSizeOf (v4_PixelFmt c) (v4_Width c) (v4_Height c))"
    by (auto simp: ExpectedV4L2FrameSize_def frameSizeOf_def IsSupportedV4L2PixelFormat_def)
qed

abbreviation depth_config :: test_pattern_config where
  "depth_config \<equiv> \<lparr>tp_Kind = 1, tp_Width = 4, tp_Height = 2, tp_PixelFmt = PixelFormatZ16, tp_FrameRate = 30\<rparr>"

theorem config_checks_agree_witness:
  "ValidateV4L2Config \<lparr>DevicePath = ''/dev/video0'', v4_Kind = 1, v4_Width = 4, v4_Height = 2, v4_PixelFmt = PixelFormatZ16,
     v4_FrameRate = 30\<rparr> = None"
proof -
  have "snd (tpsStart False (NewTestPatternSource depth_config)) = None" by code_simp
  then show ?thesis
    using config_checks_agree [of "\<lparr>DevicePath = ''/dev/video0'', v4_Kind = 1, v4_Width = 4, v4_Height = 2,
      v4_PixelFmt = PixelFormatZ16, v4_FrameRate = 30\<rparr>" depth_config] by simp
qed

section \<open>Frames of the test source\<close>

text \<open>The header with which a frame of a source is sent.\<close>

definition headerOf :: "cam_frame \<Rightarrow> frame_header" where
  "headerOf f = \<lparr>Kind = cf_Kind f, Serial = cf_Serial f, Timestamp = word_of_int (cf_Timestamp f), Width = cf_Width f,
     Height = cf_Height f, PixelFmt = cf_PixelFmt f, Size = of_nat (length (cf_Data f))\<rparr>"

lemma makeBytes_length: "makeBytes n = Inr data \<Longrightarrow> length data = unat n"
  by (auto simp: makeBytes_def split: if_splits)

lemma tpsStart_ok:
  assumes "tpsStart done s = (s', None)"
  shows "s' = s\<lparr>tps_started := True\<rparr>" and "tp_Kind (tps_config s) = FrameKindRGB \<or> tp_Kind (tps_config s) = FrameKindDepth"
    and "IsSupportedV4L2PixelFormat (tp_PixelFmt (tps_config s))"
  using assms by (auto simp: tpsStart_def Let_def split: if_splits)

text \<open>
  A test source that has started produces consistent frames. The frame it reads next has the data size
  that \<open>ExpectedTestPatternFrameSize\<close> announces and the next serial number, and, as long as the size fits
  the 32-bit field, its header passes the receiver's size check.
\<close>

theorem tpsReadFrame_consistent:
  assumes "tpsStart False s = (s1, None)" and "tpsReadFrame False now s1 = (s2, Inr f)"
    and "length (cf_Data f) < 2 ^ 32"
  shows "ExpectedTestPatternFrameSize (tps_config s) = Inr (of_nat (length (cf_Data f))) \<and>
    cf_Serial f = tps_serial s + 1 \<and> tps_serial s2 = cf_Serial f \<and> ValidateFramePayloadSize (headerOf f) = None"
proof -
  let ?c = "tps_config s" and ?n = "frameSizeOf (tp_PixelFmt (tps_config s)) (tp_Width (tps_config s)) (tp_Height (tps_config s))"
  note st = tpsStart_ok [OF assms(1)]
  have f: "length (cf_Data f) = unat ?n" "cf_Kind f = tp_Kind ?c" "cf_Width f = tp_Width ?c" "cf_Height f = tp_Height ?c"
      "cf_PixelFmt f = tp_PixelFmt ?c" "cf_Serial f = tps_serial s + 1" "tps_serial s2 = tps_serial s + 1"
    using assms(2) st(1) by (auto simp: tpsReadFrame_def Let_def makeBytes_def split: sum.splits if_splits)
  have n: "of_nat (length (cf_Data f)) = ?n" using f(1) by simp
  have "unat (ucast (of_nat (length (cf_Data f)) :: u32) :: u64) = unat ?n"
    unfolding unat_widen using assms(3) f(1) by (simp only: unat_of_nat) simp
  then have "(ucast (of_nat (length (cf_Data f)) :: u32) :: u64) = ?n" by (simp only: word_unat_eq_iff)
  then have "ValidateFramePayloadSize (headerOf f) = None"
    using f st(2,3) by (auto simp: ValidateFramePayloadSize_def headerOf_def frameSizeOf_def kind_defs
        IsSupportedV4L2PixelFormat_def Let_def split: if_splits)
  moreover have "ExpectedTestPatternFrameSize ?c = Inr ?n"
    using st(3) by (auto simp: ExpectedTestPatternFrameSize_def frameSizeOf_def IsSupportedV4L2PixelFormat_def)
  ultimately show ?thesis using f n by simp
qed

theorem tpsReadFrame_consistent_witness:
  "ValidateFramePayloadSize (headerOf (projr (snd (tpsReadFrame False 7 (fst (tpsStart False (NewTestPatternSource depth_config))))))) = None"
proof -
  let ?s = "NewTestPatternSource depth_config"
  let ?s1 = "fst (tpsStart False ?s)"
  have s1: "?s1 = ?s\<lparr>tps_started := True\<rparr>" "tpsStart False ?s = (?s1, None)"
    by (simp_all add: tpsStart_def NewTestPatternSource_def kind_defs IsSupportedV4L2PixelFormat_def PixelFormatZ16_def
        PixelFormatYUYV_def PixelFormatRGB24_def Let_def)
  have "tpsReadFrame False 7 ?s1 = (fst (tpsReadFrame False 7 ?s1), Inr (projr (snd (tpsReadFrame False 7 ?s1))))"
    "length (cf_Data (projr (snd (tpsReadFrame False 7 ?s1)))) < 2 ^ 32"
    unfolding s1(1) by (simp_all add: tpsReadFrame_def NewTestPatternSource_def makeBytes_def frameSizeOf_def Let_def)
  then show ?thesis using tpsReadFrame_consistent [OF s1(2)] by blast
qed

section \<open>Synthetic pictures\<close>

lemma concat_const_length: "(\<And>x. length (f x) = k) \<Longrightarrow> length (concat (map f xs)) = k * length xs"
  by (induction xs) simp_all

lemma length_rgbPixel: "length (rgbPixel scan barW x) = 2"
  by (simp add: rgbPixel_def Let_def split_def)

text \<open>
  The synthetic provider delivers a depth and a colour picture of the size it was created with, two
  bytes per pixel each, under a serial number one above the previous; it fails (by a division by zero)
  exactly when the picture is not empty and narrower than the six colour bars.
\<close>

theorem patternNext_frames:
  "case patternNext fl oob32 oob8 p of
     (p', None) \<Rightarrow> pp_width p < 6 \<and> 0 < pp_width p \<and> 0 < pp_height p
   | (p', Some (depth, rgb)) \<Rightarrow>
       length (cf_Data depth) = pp_width p * pp_height p * 2 \<and> length (cf_Data rgb) = pp_width p * pp_height p * 2 \<and>
       cf_Serial depth = pp_serial p + 1 \<and> cf_Serial rgb = pp_serial p + 1 \<and> pp_serial p' = pp_serial p + 1 \<and>
       cf_Kind depth = FrameKindDepth \<and> cf_Kind rgb = FrameKindRGB"
proof -
  have row: "length (concat (map (rgbPixel scan barW) [0..<w])) = w * 2" for scan barW w
    using concat_const_length [of "rgbPixel scan barW" 2 "[0..<w]"] length_rgbPixel by simp
  have rgb: "length (cf_Data f) = w * h * 2 \<and> cf_Serial f = serial \<and> cf_Kind f = FrameKindRGB"
    if "genRGB fl oob8 w h serial = Some f" for w h serial f
    using that concat_const_length [of "\<lambda>y. concat (map (rgbPixel (toUnsigned oob8
      (fl (20 * sin8 fl (fl (phaseOf fl serial + fl (fl (of_nat y / of_nat h) * 4)))))) (w div 6)) [0..<w])" "w * 2" "[0..<h]"] row
    by (auto simp: genRGB_def Let_def split: if_splits)
  have drow: "length (concat (map (\<lambda>x. let d = depthPixel fl oob32 w h serial y x in [ucast d :: u8, ucast (drop_bit 8 d)]) [0..<w])) = w * 2"
    for w h serial y
    using concat_const_length [of "\<lambda>x. let d = depthPixel fl oob32 w h serial y x in [ucast d :: u8, ucast (drop_bit 8 d)]" 2 "[0..<w]"]
    by (simp add: Let_def)
  have depth: "length (cf_Data (genDepth fl oob32 w h serial)) = w * h * 2 \<and> cf_Serial (genDepth fl oob32 w h serial) = serial \<and>
      cf_Kind (genDepth fl oob32 w h serial) = FrameKindDepth" for w h serial
    using concat_const_length [where f = "\<lambda>y. concat (map (\<lambda>x. let d = depthPixel fl oob32 w h serial y x
        in [ucast d :: u8, ucast (drop_bit 8 d)]) [0..<w])" and xs = "[0..<h]", OF drow] by (simp add: genDepth_def)
  have none: "genRGB fl oob8 w h serial = None \<longleftrightarrow> w < 6 \<and> 0 < w \<and> 0 < h" for w h serial
    by (auto simp: genRGB_def Let_def div_eq_0_iff)
  show ?thesis
    using rgb depth none by (auto simp: patternNext_def Let_def split: option.splits)
qed

lemma div_bounds: "65536 * (a div 65536) \<le> a \<and> a < 65536 * (a div 65536) + 65536" for a :: int
  by presburger

lemma luma_range:
  assumes "0 \<le> r" "r \<le> 255" "0 \<le> g" "g \<le> 255" "0 \<le> b" "b \<le> 255"
  shows "0 \<le> luma r g b" and "luma r g b \<le> 255"
  using div_bounds [of "19595 * r + 38470 * g + 7471 * b + 32768"] assms unfolding luma_def by linarith+

lemma chroma_range:
  assumes "0 \<le> r" "r \<le> 255" "0 \<le> g" "g \<le> 255" "0 \<le> b" "b \<le> 255"
  shows "0 \<le> chromaB r g b" and "chromaB r g b \<le> 256" and "chromaB r g b = 256 \<longleftrightarrow> r = 0 \<and> g = 0 \<and> b = 255"
    and "0 \<le> chromaR r g b" and "chromaR r g b \<le> 256" and "chromaR r g b = 256 \<longleftrightarrow> r = 255 \<and> g = 0 \<and> b = 0"
proof -
  note B = div_bounds [of "- 11058 * r - 21710 * g + 32768 * b + 8421376"]
  note R = div_bounds [of "32768 * r - 27439 * g - 5329 * b + 8421376"]
  show "0 \<le> chromaB r g b" "chromaB r g b \<le> 256" using B assms unfolding chromaB_def by linarith+
  show "0 \<le> chromaR r g b" "chromaR r g b \<le> 256" using R assms unfolding chromaR_def by linarith+
  show "chromaB r g b = 256 \<longleftrightarrow> r = 0 \<and> g = 0 \<and> b = 255"
  proof
    assume "chromaB r g b = 256"
    then have "16777216 \<le> - 11058 * r - 21710 * g + 32768 * b + 8421376" using B unfolding chromaB_def by linarith
    then show "r = 0 \<and> g = 0 \<and> b = 255" using assms by linarith
  qed (simp add: chromaB_def)
  show "chromaR r g b = 256 \<longleftrightarrow> r = 255 \<and> g = 0 \<and> b = 0"
  proof
    assume "chromaR r g b = 256"
    then have "16777216 \<le> 32768 * r - 27439 * g - 5329 * b + 8421376" using R unfolding chromaR_def by linarith
    then show "r = 255 \<and> g = 0 \<and> b = 0" using assms by linarith
  qed (simp add: chromaR_def)
qed

text \<open>
  The colour conversion. The luma value always fits a byte. Each chroma value fits a byte except for one
  colour each: pure blue has a blue chroma of 256 and pure red a red chroma of 256, which the conversion to
  a byte turns into 0, the opposite end of the scale.
\<close>

theorem rgbToYCbCr_range:
  fixes r g b :: u8
  shows "0 \<le> luma (uint r) (uint g) (uint b) \<and> luma (uint r) (uint g) (uint b) \<le> 255 \<and>
   0 \<le> chromaB (uint r) (uint g) (uint b) \<and> chromaB (uint r) (uint g) (uint b) \<le> 256 \<and>
   0 \<le> chromaR (uint r) (uint g) (uint b) \<and> chromaR (uint r) (uint g) (uint b) \<le> 256 \<and>
   (chromaB (uint r) (uint g) (uint b) = 256 \<longleftrightarrow> r = 0 \<and> g = 0 \<and> b = 255) \<and>
   (chromaR (uint r) (uint g) (uint b) = 256 \<longleftrightarrow> r = 255 \<and> g = 0 \<and> b = 0) \<and>
   rgbToYCbCr 0 0 255 = (29, 0, 107) \<and> rgbToYCbCr 255 0 0 = (76, 85, 0)"
proof -
  have range: "0 \<le> uint c \<and> uint c \<le> 255" for c :: u8 using unsigned_less [of c, where 'a = int] by simp
  have eq: "c = of_int k \<longleftrightarrow> uint c = k" if "0 \<le> k" "k \<le> 255" for c :: u8 and k
    using that by (auto simp: word_uint_eq_iff uint_word_of_int)
  have "r = 0 \<longleftrightarrow> uint r = 0" "g = 0 \<longleftrightarrow> uint g = 0" "b = 0 \<longleftrightarrow> uint b = 0" "b = 255 \<longleftrightarrow> uint b = 255" "r = 255 \<longleftrightarrow> uint r = 255"
    using eq [of 0] eq [of 255] by simp_all
  moreover have "rgbToYCbCr 0 0 255 = (29, 0, 107)" "rgbToYCbCr 255 0 0 = (76, 85, 0)" by code_simp+
  ultimately show ?thesis
    using luma_range [of "uint r" "uint g" "uint b"] chroma_range [of "uint r" "uint g" "uint b"]
      range [of r] range [of g] range [of b] by simp
qed

end
