(* ===== verification/Camera_Devices.thy ===== *)
theory Camera_Devices
  imports Camera
begin

text \<open>
  The real cameras of \<^verbatim>\<open>internal/camera\<close>: \<^verbatim>\<open>provider_opencv.go\<close> (opening, capturing, closing) and \<^verbatim>\<open>orbbec.go\<close> (the
  search for the devices). The C++ library behind them is an argument; what the Go code owes it, to close every
  handle it opened, once, is the state \<open>cams\<close> that the operations pass along.
\<close>

section \<open>The camera library\<close>

type_synonym device = "nat \<times> bool"

text \<open>
  The answers of the library: \<open>opens busy i isDepth\<close> whether device \<open>i\<close> can be opened in this mode while the
  devices \<open>busy\<close> are open, \<open>dims\<close> its picture size, \<open>isDepthDevice\<close> the result of \<open>cam_is_depth_device\<close>;
  \<open>present i\<close> is the existence of the device file.
\<close>

record cam_lib =
  opens :: "device list \<Rightarrow> nat \<Rightarrow> bool \<Rightarrow> bool"
  dims :: "nat \<Rightarrow> bool \<Rightarrow> u64 \<times> u64"
  isDepthDevice :: "nat \<Rightarrow> int"
  present :: "nat \<Rightarrow> bool"

text \<open>The handles that are open, with their devices; \<open>badClose\<close> records a close of a handle that is not open.\<close>

record cams =
  live :: "(nat, device) gomap"
  nextHandle :: nat
  badClose :: bool

definition no_cams :: cams where
  "no_cams = \<lparr>live = [], nextHandle = 0, badClose = False\<rparr>"

definition camOpen :: "cam_lib \<Rightarrow> nat \<Rightarrow> bool \<Rightarrow> cams \<Rightarrow> cams \<times> nat option" where
  "camOpen lib i isDepth w =
     (if opens lib (map snd (live w)) i isDepth
      then (w\<lparr>live := (nextHandle w, (i, isDepth)) # live w, nextHandle := nextHandle w + 1\<rparr>, Some (nextHandle w))
      else (w, None))"

definition camClose :: "nat option \<Rightarrow> cams \<Rightarrow> cams" where
  "camClose h w =
     (case h of
        None \<Rightarrow> w
      | Some k \<Rightarrow> if map_of (live w) k \<noteq> None then w\<lparr>live := AList.delete k (live w)\<rparr> else w\<lparr>badClose := True\<rparr>)"

definition camIsDepthDevice :: "cam_lib \<Rightarrow> nat \<Rightarrow> int" where
  "camIsDepthDevice lib i = isDepthDevice lib i"

section \<open>The provider\<close>

record opencv_provider =
  depthHandle :: "nat option"
  rgbHandle :: "nat option"
  depthW :: u64
  depthH :: u64
  rgbW :: u64
  rgbH :: u64
  depthSeq :: u64
  rgbSeq :: u64

datatype open_error = DepthOpenFailed nat | RGBOpenFailed nat

definition NewOpenCVProvider :: "cam_lib \<Rightarrow> nat \<Rightarrow> nat \<Rightarrow> cams \<Rightarrow> cams \<times> (open_error + opencv_provider)" where
  "NewOpenCVProvider lib depthIdx rgbIdx w =
     (case camOpen lib depthIdx True w of
        (w, None) \<Rightarrow> (w, Inl (DepthOpenFailed depthIdx))
      | (w, Some dh) \<Rightarrow>
          (case camOpen lib rgbIdx False w of
             (w, None) \<Rightarrow> (camClose (Some dh) w, Inl (RGBOpenFailed rgbIdx))
           | (w, Some rh) \<Rightarrow>
               (w, Inr \<lparr>depthHandle = Some dh, rgbHandle = Some rh,
                  depthW = fst (dims lib depthIdx True), depthH = snd (dims lib depthIdx True),
                  rgbW = fst (dims lib rgbIdx False), rgbH = snd (dims lib rgbIdx False), depthSeq = 0, rgbSeq = 0\<rparr>)))"

definition NewOrbbecProvider :: "cam_lib \<Rightarrow> nat \<Rightarrow> nat \<Rightarrow> cams \<Rightarrow> cams \<times> (open_error + opencv_provider)" where
  "NewOrbbecProvider lib depthIdx rgbIdx w = NewOpenCVProvider lib depthIdx rgbIdx w"

text \<open>One round of the search through the device files, on the indices found so far.\<close>

definition scanDevice :: "cam_lib \<Rightarrow> cams \<times> nat option \<times> nat option \<Rightarrow> nat \<Rightarrow> cams \<times> nat option \<times> nat option" where
  "scanDevice lib acc i =
     (let (w, depthIdx, rgbIdx) = acc;
          rgbPart = (\<lambda>w.
            if rgbIdx = None \<and> Some i \<noteq> depthIdx then
              if camIsDepthDevice lib i \<noteq> 0 then (w, depthIdx, rgbIdx)
              else
                (case camOpen lib i False w of
                   (w, Some h) \<Rightarrow> (camClose (Some h) w, depthIdx, Some i)
                 | (w, None) \<Rightarrow> (w, depthIdx, rgbIdx))
            else (w, depthIdx, rgbIdx))
      in if \<not> present lib i then (w, depthIdx, rgbIdx)
         else if depthIdx = None then
           (case camOpen lib i True w of
              (w, Some h) \<Rightarrow> (camClose (Some h) w, Some i, rgbIdx)
            | (w, None) \<Rightarrow> rgbPart w)
         else rgbPart w)"

definition tryOpenCVProvider :: "cam_lib \<Rightarrow> cams \<Rightarrow> cams \<times> opencv_provider option" where
  "tryOpenCVProvider lib w =
     (case foldl (scanDevice lib) (w, None, None) [0..<64] of
        (w, None, None) \<Rightarrow> (w, None)
      | (w, depthIdx, rgbIdx) \<Rightarrow>
          let d = (case depthIdx of Some d \<Rightarrow> d | None \<Rightarrow> the rgbIdx);
              r = (case rgbIdx of Some r \<Rightarrow> r | None \<Rightarrow> d)
          in case NewOpenCVProvider lib d r w of (w, Inl _) \<Rightarrow> (w, None) | (w, Inr p) \<Rightarrow> (w, Some p))"

datatype provider = OpenCV opencv_provider | Pattern pattern_provider

definition NewProvider :: "cam_lib \<Rightarrow> cams \<Rightarrow> cams \<times> provider" where
  "NewProvider lib w =
     (case tryOpenCVProvider lib w of
        (w, Some p) \<Rightarrow> (w, OpenCV p)
      | (w, None) \<Rightarrow> (w, Pattern NewPatternProvider))"

text \<open>
  \<open>cam_capture\<close> on a null handle is \<open>-1\<close>; otherwise \<open>ans\<close> is its result and the content of the buffer afterwards.
  \<open>buf[:n]\<close> panics when \<open>n\<close> exceeds the buffer.
\<close>

definition bufSize :: nat where "bufSize = 2 ^ 20"

definition captured :: "nat option \<Rightarrow> int \<times> bytes \<Rightarrow> int \<times> bytes" where
  "captured h ans = (case h of None \<Rightarrow> (-1, replicate bufSize 0) | Some _ \<Rightarrow> ans)"

datatype next_result = NextPanic | NextFrames cam_frame cam_frame

definition nextFallback :: "(real \<Rightarrow> real) \<Rightarrow> (real \<Rightarrow> u32) \<Rightarrow> (real \<Rightarrow> u8) \<Rightarrow> next_result" where
  "nextFallback fl oob32 oob8 =
     (case snd (patternNext fl oob32 oob8 (NewPatternProviderWithSize 320 240)) of
        None \<Rightarrow> NextPanic
      | Some (depth, rgb) \<Rightarrow> NextFrames depth rgb)"

definition opencvNext :: "(real \<Rightarrow> real) \<Rightarrow> (real \<Rightarrow> u32) \<Rightarrow> (real \<Rightarrow> u8) \<Rightarrow> int \<Rightarrow> int \<times> bytes \<Rightarrow> int \<times> bytes \<Rightarrow> opencv_provider \<Rightarrow>
    opencv_provider \<times> next_result" where
  "opencvNext fl oob32 oob8 now ansD ansR p =
     (let p = p\<lparr>depthSeq := depthSeq p + 1\<rparr>;
          (n, buf) = captured (depthHandle p) ansD
      in if n \<le> 0 then (p, nextFallback fl oob32 oob8)
         else if int (length buf) < n then (p, NextPanic)
         else
           let depthData = take (nat n) buf;
               p = p\<lparr>rgbSeq := rgbSeq p + 1\<rparr>;
               (n, buf) = captured (rgbHandle p) ansR
           in if n \<le> 0 then (p, nextFallback fl oob32 oob8)
              else if int (length buf) < n then (p, NextPanic)
              else (p, NextFrames
                (zero_frame\<lparr>cf_Kind := FrameKindDepth, cf_Data := depthData, cf_Width := depthW p, cf_Height := depthH p,
                   cf_Channels := 1, cf_Serial := depthSeq p\<rparr>)
                (zero_frame\<lparr>cf_Kind := FrameKindRGB, cf_Data := take (nat n) buf, cf_Width := rgbW p, cf_Height := rgbH p,
                   cf_Channels := 3, cf_Serial := rgbSeq p, cf_Timestamp := now\<rparr>)))"

definition opencvClose :: "opencv_provider \<Rightarrow> cams \<Rightarrow> opencv_provider \<times> cams" where
  "opencvClose p w =
     (let (p, w) = (if depthHandle p \<noteq> None then (p\<lparr>depthHandle := None\<rparr>, camClose (depthHandle p) w) else (p, w))
      in if rgbHandle p \<noteq> None then (p\<lparr>rgbHandle := None\<rparr>, camClose (rgbHandle p) w) else (p, w))"

section \<open>Every handle is closed, once\<close>

definition wf_cams :: "cams \<Rightarrow> bool" where
  "wf_cams w \<longleftrightarrow> wf_map (live w) \<and> (\<forall>k \<in> fst ` set (live w). k < nextHandle w) \<and> \<not> badClose w"

lemma camOpen_Some:
  assumes "camOpen lib i m w = (w', Some h)" and "wf_cams w"
  shows "wf_cams w'" and "live w' = (h, (i, m)) # live w" and "h \<notin> fst ` set (live w)" and "opens lib (map snd (live w)) i m"
    and "live (camClose (Some h) w') = live w" and "wf_cams (camClose (Some h) w')"
proof -
  have w': "w' = w\<lparr>live := (nextHandle w, (i, m)) # live w, nextHandle := nextHandle w + 1\<rparr>" and h: "h = nextHandle w"
    and "opens lib (map snd (live w)) i m"
    using assms(1) by (auto simp: camOpen_def split: if_splits)
  then show "opens lib (map snd (live w)) i m" "live w' = (h, (i, m)) # live w" by simp_all
  show fresh: "h \<notin> fst ` set (live w)" using assms(2) unfolding h wf_cams_def by blast
  then show close: "live (camClose (Some h) w') = live w" by (simp add: w' h camClose_def delete_idem)
  have "\<forall>k \<in> fst ` set (live w). k < Suc (nextHandle w)" using assms(2) less_Suc_eq unfolding wf_cams_def by blast
  then show "wf_cams w'" using assms(2) fresh by (simp add: wf_cams_def w' h)
  then show "wf_cams (camClose (Some h) w')"
    using close by (simp add: wf_cams_def w' h camClose_def)
qed

lemma camOpen_None: "camOpen lib i m w = (w', None) \<Longrightarrow> w' = w \<and> \<not> opens lib (map snd (live w)) i m"
  by (auto simp: camOpen_def split: if_splits)

text \<open>The search leaves the cameras as they were; what it found can be opened, in the mode it was found in.\<close>

definition scan_ok :: "cam_lib \<Rightarrow> cams \<Rightarrow> cams \<times> nat option \<times> nat option \<Rightarrow> bool" where
  "scan_ok lib w0 acc \<longleftrightarrow> (case acc of (w, depthIdx, rgbIdx) \<Rightarrow> wf_cams w \<and> live w = live w0 \<and>
     (\<forall>d. depthIdx = Some d \<longrightarrow> opens lib (map snd (live w0)) d True) \<and>
     (\<forall>r. rgbIdx = Some r \<longrightarrow> opens lib (map snd (live w0)) r False))"

text \<open>Opening a device to see whether it can be opened, and closing it again.\<close>

lemma probe_closes:
  assumes "camOpen lib i m w = (w1, h)" and "wf_cams w"
  shows "wf_cams (camClose h w1)" and "live (camClose h w1) = live w"
    and "h \<noteq> None \<longleftrightarrow> opens lib (map snd (live w)) i m" and "h = None \<Longrightarrow> w1 = w"
  using assms camOpen_Some [OF _ assms(2), of lib i m w1] camOpen_None [of lib i m w w1]
  by (cases h; simp add: camClose_def)+

lemma scan_ok_step: "scan_ok lib w0 acc \<Longrightarrow> scan_ok lib w0 (scanDevice lib acc i)"
proof (cases acc)
  case (fields w depthIdx rgbIdx)
  assume "scan_ok lib w0 acc"
  then have w: "wf_cams w" "live w = live w0" by (simp_all add: scan_ok_def fields)
  obtain wd hd wr hr where probes: "camOpen lib i True w = (wd, hd)" "camOpen lib i False w = (wr, hr)" by fastforce
  note D = probe_closes [OF probes(1) w(1)] and R = probe_closes [OF probes(2) w(1)]
  show ?thesis
    using \<open>scan_ok lib w0 acc\<close> w probes D R
    by (cases hd; cases hr) (auto simp: scan_ok_def fields scanDevice_def Let_def)
qed

lemma scan_ok_all: "wf_cams w \<Longrightarrow> scan_ok lib w (foldl (scanDevice lib) (w, None, None) is)"
proof -
  have "scan_ok lib w acc \<Longrightarrow> scan_ok lib w (foldl (scanDevice lib) acc is)" for acc
    by (induction "is" arbitrary: acc) (simp_all add: scan_ok_step)
  then show "wf_cams w \<Longrightarrow> ?thesis" by (simp add: scan_ok_def)
qed

lemma NewOpenCVProvider_handles:
  assumes "NewOpenCVProvider lib d r w = (w', res)" and "wf_cams w"
  shows "wf_cams w' \<and> (case res of Inl e \<Rightarrow> live w' = live w
    | Inr p \<Rightarrow> \<exists>dh rh. depthHandle p = Some dh \<and> rgbHandle p = Some rh \<and> live w' = (rh, (r, False)) # (dh, (d, True)) # live w)"
proof (cases "camOpen lib d True w")
  case (Pair w1 dh)
  show ?thesis
  proof (cases dh)
    case None
    then show ?thesis using assms Pair camOpen_None [of lib d True w w1] by (auto simp: NewOpenCVProvider_def)
  next
    case (Some k)
    note one = camOpen_Some [OF Pair [unfolded Some] assms(2)]
    obtain w2 rh where two: "camOpen lib r False w1 = (w2, rh)" by fastforce
    show ?thesis
    proof (cases rh)
      case None
      then have "w2 = w1" using two camOpen_None by blast
      then show ?thesis using assms(1) Pair Some two None one by (auto simp: NewOpenCVProvider_def)
    next
      case (Some k')
      note camOpen_Some [OF two [unfolded Some] one(1)]
      then show ?thesis using assms(1) Pair \<open>dh = Some k\<close> two Some one by (auto simp: NewOpenCVProvider_def)
    qed
  qed
qed

lemma opencvClose_handles:
  assumes "depthHandle p = Some dh" and "rgbHandle p = Some rh" and "live w = (rh, b) # (dh, a) # rest" and "wf_cams w"
  shows "live (snd (opencvClose p w)) = rest" and "wf_cams (snd (opencvClose p w))"
    and "opencvClose (fst (opencvClose p w)) v = (fst (opencvClose p w), v)"
proof -
  have fresh: "dh \<noteq> rh" "dh \<notin> fst ` set rest" "rh \<notin> fst ` set rest" using assms(3,4) by (auto simp: wf_cams_def)
  then have "opencvClose p w = (p\<lparr>depthHandle := None, rgbHandle := None\<rparr>, w\<lparr>live := rest\<rparr>)"
    using assms(1-3) by (simp add: opencvClose_def camClose_def delete_idem)
  then show "live (snd (opencvClose p w)) = rest" "wf_cams (snd (opencvClose p w))"
    "opencvClose (fst (opencvClose p w)) v = (fst (opencvClose p w), v)"
    using assms(3,4) by (simp_all add: wf_cams_def opencvClose_def)
qed

lemma NewProvider_handles:
  assumes "NewProvider lib w = (w', prov)" and "wf_cams w"
  shows "wf_cams w' \<and> (case prov of Pattern _ \<Rightarrow> live w' = live w
    | OpenCV p \<Rightarrow> \<exists>dh rh d r. depthHandle p = Some dh \<and> rgbHandle p = Some rh \<and>
        live w' = (rh, (r, False)) # (dh, (d, True)) # live w)"
proof -
  obtain w1 di ri where scan: "foldl (scanDevice lib) (w, None, None) [0..<64] = (w1, di, ri)" by (metis prod.exhaust)
  then have ok: "wf_cams w1" "live w1 = live w" using scan_ok_all [OF assms(2), of lib "[0..<64]"] by (simp_all add: scan_ok_def)
  show ?thesis
  proof (cases "di = None \<and> ri = None")
    case True
    then show ?thesis using assms(1) scan ok by (auto simp: NewProvider_def tryOpenCVProvider_def)
  next
    case False
    then obtain d r where "tryOpenCVProvider lib w =
        (case NewOpenCVProvider lib d r w1 of (w, Inl _) \<Rightarrow> (w, None) | (w, Inr p) \<Rightarrow> (w, Some p))"
      using scan by (cases di; cases ri) (auto simp: tryOpenCVProvider_def Let_def)
    moreover obtain w2 res where new: "NewOpenCVProvider lib d r w1 = (w2, res)" by fastforce
    ultimately show ?thesis
      using assms(1) NewOpenCVProvider_handles [OF new ok(1)] ok(2)
      by (cases res) (auto simp: NewProvider_def)
  qed
qed

text \<open>
  C12: cameras are not leaked. Whatever devices exist and whatever the library answers, \<open>NewProvider\<close> closes every
  handle it opened while searching: with the pattern provider as result, exactly the handles of before are open,
  with a camera provider exactly two more. Closing that provider closes both, once each, and closing it again does
  nothing.
\<close>

theorem NewProvider_no_leak:
  assumes "wf_cams w" and "NewProvider lib w = (w', prov)"
  shows "case prov of
      Pattern pp \<Rightarrow> live w' = live w \<and> \<not> badClose w'
    | OpenCV p \<Rightarrow> length (live w') = length (live w) + 2 \<and> \<not> badClose w' \<and>
        (case opencvClose p w' of (p1, w1) \<Rightarrow> live w1 = live w \<and> \<not> badClose w1 \<and> opencvClose p1 w1 = (p1, w1))"
proof (cases prov)
  case (OpenCV p)
  then obtain dh rh d r where h: "depthHandle p = Some dh" "rgbHandle p = Some rh"
    "live w' = (rh, (r, False)) # (dh, (d, True)) # live w" "wf_cams w'"
    using NewProvider_handles [OF assms(2,1)] by auto
  note c = opencvClose_handles [OF h]
  obtain p1 w1 where pw: "opencvClose p w' = (p1, w1)" by fastforce
  show ?thesis using c h OpenCV by (simp add: pw wf_cams_def)
next
  case (Pattern pp)
  then show ?thesis using NewProvider_handles [OF assms(2,1)] by (simp add: wf_cams_def)
qed

text \<open>A library with a depth camera at 0 and a colour camera at 4, each of which can be open once.\<close>

abbreviation two_cameras :: cam_lib where
  "two_cameras \<equiv> \<lparr>opens = \<lambda>busy i m. i \<notin> fst ` set busy \<and> (i = 0 \<and> m \<or> i = 4 \<and> \<not> m), dims = \<lambda>i m. (640, 480),
     isDepthDevice = \<lambda>i. if i = 0 then 1 else 0, present = \<lambda>i. i = 0 \<or> i = 4\<rparr>"

theorem NewProvider_no_leak_witness:
  "\<exists>w' p. NewProvider two_cameras no_cams = (w', OpenCV p) \<and>
     (case opencvClose p w' of (p1, w1) \<Rightarrow> live w1 = live no_cams \<and> \<not> badClose w1 \<and> opencvClose p1 w1 = (p1, w1))"
proof -
  have "\<exists>w' p. NewProvider two_cameras no_cams = (w', OpenCV p)"
    by (simp add: NewProvider_def tryOpenCVProvider_def upt_rec scanDevice_def camOpen_def camClose_def camIsDepthDevice_def
        no_cams_def NewOpenCVProvider_def ex_bool_eq all_bool_eq)
  then obtain w' p where new: "NewProvider two_cameras no_cams = (w', OpenCV p)" by blast
  then show ?thesis using NewProvider_no_leak [OF _ new] by (auto simp: wf_cams_def no_cams_def)
qed

section \<open>A colour camera alone is not used\<close>

lemma scan_without_depth:
  assumes "wf_cams w" and "\<And>i. i < 64 \<Longrightarrow> present lib i \<Longrightarrow> \<not> opens lib (map snd (live w)) i True" and "set is \<subseteq> {0..<64}"
  shows "\<exists>w' rgbIdx. foldl (scanDevice lib) (w, None, None) is = (w', None, rgbIdx) \<and> wf_cams w' \<and> live w' = live w \<and>
    (\<forall>r. rgbIdx = Some r \<longrightarrow> r < 64 \<and> present lib r)"
  using assms(3)
proof (induction "is" rule: rev_induct)
  case Nil
  then show ?case using assms(1) by simp
next
  case (snoc i "is")
  then obtain w1 rgbIdx where ih: "foldl (scanDevice lib) (w, None, None) is = (w1, None, rgbIdx)" "wf_cams w1" "live w1 = live w"
    "\<forall>r. rgbIdx = Some r \<longrightarrow> r < 64 \<and> present lib r" by auto
  have i: "i < 64" using snoc.prems by simp
  obtain wr hr where probe: "camOpen lib i False w1 = (wr, hr)" by fastforce
  note R = probe_closes [OF probe ih(2)]
  have none: "present lib i \<Longrightarrow> camOpen lib i True w1 = (w1, None)" using assms(2) [OF i] ih(3) by (simp add: camOpen_def)
  have step: "foldl (scanDevice lib) (w, None, None) (is @ [i]) = scanDevice lib (w1, None, rgbIdx) i" by (simp add: ih(1))
  show ?case
    unfolding step using none ih(2-4) i R probe by (cases hr; cases rgbIdx; cases "present lib i") (auto simp: scanDevice_def Let_def)
qed

text \<open>
  C40: a machine with colour cameras only is left without a camera. When no device can be opened as a depth camera,
  \<open>tryOpenCVProvider\<close> uses the index of the colour camera for the depth camera too, but opens it in depth mode, which
  it has just seen fail; so \<open>NewProvider\<close> always falls back to the test pattern, even if a colour camera was found.
\<close>

theorem colour_camera_alone_is_ignored:
  assumes "wf_cams w" and "\<And>i. i < 64 \<Longrightarrow> present lib i \<Longrightarrow> \<not> opens lib (map snd (live w)) i True"
  shows "snd (NewProvider lib w) = Pattern NewPatternProvider"
proof -
  obtain w' rgbIdx where scan: "foldl (scanDevice lib) (w, None, None) [0..<64] = (w', None, rgbIdx)" "live w' = live w"
    "\<forall>r. rgbIdx = Some r \<longrightarrow> r < 64 \<and> present lib r"
    using scan_without_depth [OF assms, of "[0..<64]"] by fastforce
  have "NewOpenCVProvider lib r r' w' = (w', Inl (DepthOpenFailed r))" if "rgbIdx = Some r" for r r'
    using assms(2) [of r] scan that by (simp add: NewOpenCVProvider_def camOpen_def)
  then show ?thesis using scan by (cases rgbIdx) (simp_all add: NewProvider_def tryOpenCVProvider_def)
qed

theorem colour_camera_alone_is_ignored_witness:
  "opens (two_cameras\<lparr>present := \<lambda>i. i = 4\<rparr>) [] 4 False \<and>
   snd (NewProvider (two_cameras\<lparr>present := \<lambda>i. i = 4\<rparr>) no_cams) = Pattern NewPatternProvider"
  using colour_camera_alone_is_ignored [of no_cams "two_cameras\<lparr>present := \<lambda>i. i = 4\<rparr>"]
  by (simp add: wf_cams_def no_cams_def)

section \<open>Frames of the provider\<close>

lemma nextFallback_frames:
  "\<exists>d r. nextFallback fl oob32 oob8 = NextFrames d r \<and> cf_Kind d = FrameKindDepth \<and> cf_Kind r = FrameKindRGB \<and>
     cf_Serial d = 1 \<and> cf_Serial r = 1"
  by (auto simp: nextFallback_def patternNext_def NewPatternProviderWithSize_def genRGB_def genDepth_def Let_def)

text \<open>
  \<open>Next\<close> always delivers a depth and a colour frame, as long as the library reports no more bytes than the buffer
  holds: the captured bytes with the provider's next sequence numbers, or, when a capture fails, a synthetic pair with
  serial number 1; after \<open>Close\<close> it is always the synthetic pair.
\<close>

theorem opencvNext_frames:
  assumes "fst ansD \<le> int (length (snd ansD))" and "fst ansR \<le> int (length (snd ansR))"
  shows "\<exists>d r. snd (opencvNext fl oob32 oob8 now ansD ansR p) = NextFrames d r \<and> cf_Kind d = FrameKindDepth \<and> cf_Kind r = FrameKindRGB \<and>
    (if 0 < fst ansD \<and> 0 < fst ansR \<and> depthHandle p \<noteq> None \<and> rgbHandle p \<noteq> None
     then cf_Data d = take (nat (fst ansD)) (snd ansD) \<and> cf_Data r = take (nat (fst ansR)) (snd ansR) \<and>
          cf_Serial d = depthSeq p + 1 \<and> cf_Serial r = rgbSeq p + 1
     else cf_Serial d = 1 \<and> cf_Serial r = 1)"
  using assms nextFallback_frames [of fl oob32 oob8]
  by (cases ansD; cases ansR; cases "depthHandle p"; cases "rgbHandle p") (auto simp: opencvNext_def captured_def Let_def)

theorem opencvNext_frames_witness:
  "\<exists>d r. snd (opencvNext fl64 (\<lambda>_. 0) (\<lambda>_. 0) 5 (2, [1, 2, 3]) (1, [4, 5]) \<lparr>depthHandle = Some 0, rgbHandle = Some 1, depthW = 1, depthH = 1,
     rgbW = 1, rgbH = 1, depthSeq = 8, rgbSeq = 8\<rparr>) = NextFrames d r \<and> cf_Data d = [1, 2] \<and> cf_Serial d = 9"
  using opencvNext_frames [of "(2, [1, 2, 3])" "(1, [4, 5])" fl64 "\<lambda>_. 0" "\<lambda>_. 0" 5 "\<lparr>depthHandle = Some 0, rgbHandle = Some 1,
     depthW = 1, depthH = 1, rgbW = 1, rgbH = 1, depthSeq = 8, rgbSeq = 8\<rparr>"]
  by (fastforce simp: numeral_2_eq_2)

end
