(* ===== verification/V4l2.thy ===== *)
theory V4l2
  imports Camera
begin

text \<open>
  The system call layer of \<^verbatim>\<open>internal/camera/v4l2.go\<close>: the structures passed to the Video4Linux driver, their
  layout in memory under Go's rules for a 64-bit platform, the request numbers, and the wrappers of the
  requests. The driver is an argument of each wrapper: on a file descriptor, a request number and the
  structure it returns an error or the structure as it left it.
\<close>

section \<open>Memory layout\<close>

text \<open>Go types as far as the structures use them; fields are laid out in order, each at a multiple of its alignment.\<close>

datatype gotype = GoU8 | GoU32 | GoU64 | GoI64 | GoArray nat gotype | GoStruct "gotype list"

definition alignUp :: "nat \<Rightarrow> nat \<Rightarrow> nat" where
  "alignUp a n = ((n + a - 1) div a) * a"

fun alignOf :: "gotype \<Rightarrow> nat" where
  "alignOf GoU8 = 1"
| "alignOf GoU32 = 4"
| "alignOf GoU64 = 8"
| "alignOf GoI64 = 8"
| "alignOf (GoArray n t) = alignOf t"
| "alignOf (GoStruct ts) = foldr max (map alignOf ts) 1"

fun sizeOf :: "gotype \<Rightarrow> nat" where
  "sizeOf GoU8 = 1"
| "sizeOf GoU32 = 4"
| "sizeOf GoU64 = 8"
| "sizeOf GoI64 = 8"
| "sizeOf (GoArray n t) = n * sizeOf t"
| "sizeOf (GoStruct ts) = alignUp (foldr max (map alignOf ts) 1) (foldl (\<lambda>off f. f off) 0 (map (\<lambda>t off. alignUp (alignOf t) off + sizeOf t) ts))"

fun offsetsFrom :: "nat \<Rightarrow> gotype list \<Rightarrow> nat list" where
  "offsetsFrom off [] = []"
| "offsetsFrom off (t # ts) = alignUp (alignOf t) off # offsetsFrom (alignUp (alignOf t) off + sizeOf t) ts"

definition capability_layout :: gotype where
  "capability_layout = GoStruct [GoArray 16 GoU8, GoArray 32 GoU8, GoArray 32 GoU8, GoU32, GoU32, GoU32, GoArray 3 GoU32]"

definition fmtdesc_layout :: gotype where
  "fmtdesc_layout = GoStruct [GoU32, GoU32, GoU32, GoArray 32 GoU8, GoU32, GoArray 4 GoU32]"

definition pix_format_layout :: gotype where
  "pix_format_layout = GoStruct [GoU32, GoU32, GoU32, GoU32, GoU32, GoU32, GoU32, GoU32, GoU32, GoU32, GoU32, GoU32]"

definition fmt_layout :: gotype where
  "fmt_layout = GoStruct [GoU32, pix_format_layout, GoArray 152 GoU8]"

definition requestbuffers_layout :: gotype where
  "requestbuffers_layout = GoStruct [GoU32, GoU32, GoU32, GoU32, GoArray 4 GoU32]"

definition timecode_layout :: gotype where
  "timecode_layout = GoStruct [GoU32, GoU32, GoU8, GoU8, GoU8, GoU8, GoArray 4 GoU8]"

definition buffer_fields :: "gotype list" where
  "buffer_fields = [GoU32, GoU32, GoU32, GoU32, GoU32, GoArray 4 GoU8, GoI64, GoI64, timecode_layout, GoU32, GoU32, GoU64, GoU32, GoU32, GoU32]"

section \<open>Request numbers\<close>

definition VIDIOC_QUERYCAP :: u64 where "VIDIOC_QUERYCAP = 0x80685600"
definition VIDIOC_ENUM_FMT :: u64 where "VIDIOC_ENUM_FMT = 0xc0405602"
definition VIDIOC_G_FMT :: u64 where "VIDIOC_G_FMT = 0xc0cc5604"
definition VIDIOC_S_FMT :: u64 where "VIDIOC_S_FMT = 0xc0cc5605"
definition VIDIOC_REQBUFS :: u64 where "VIDIOC_REQBUFS = 0xc0145608"
definition VIDIOC_QUERYBUF :: u64 where "VIDIOC_QUERYBUF = 0xc0545609"
definition VIDIOC_QBUF :: u64 where "VIDIOC_QBUF = 0xc054560f"
definition VIDIOC_DQBUF :: u64 where "VIDIOC_DQBUF = 0xc0545611"
definition VIDIOC_STREAMON :: u64 where "VIDIOC_STREAMON = 0x40045612"
definition VIDIOC_STREAMOFF :: u64 where "VIDIOC_STREAMOFF = 0x40045613"
definition V4L2_MEMORY_MMAP :: u32 where "V4L2_MEMORY_MMAP = 1"
definition V4L2_PIX_FMT_YUYV :: u32 where "V4L2_PIX_FMT_YUYV = 0x56595559"
definition V4L2_PIX_FMT_Y16 :: u32 where "V4L2_PIX_FMT_Y16 = 0x20363159"
definition V4L2_BUF_TYPE_VIDEO_CAPTURE :: u32 where "V4L2_BUF_TYPE_VIDEO_CAPTURE = 1"

text \<open>Linux encodes the size of the argument in bits 16 to 29 of the request; so many bytes are copied.\<close>

definition iocSize :: "u64 \<Rightarrow> nat" where
  "iocSize req = unat req div 2 ^ 16 mod 2 ^ 14"

section \<open>Structures and requests\<close>

record v4l2_capability =
  vc_driver :: bytes
  vc_card :: bytes
  vc_bus_info :: bytes
  vc_version :: u32
  vc_capability :: u32
  vc_device_caps :: u32
  vc_reserved :: "u32 list"

record v4l2_fmtdesc =
  fd_index :: u32
  fd_ctype :: u32
  fd_flags :: u32
  fd_description :: bytes
  fd_pixfmt :: u32
  fd_reserved :: "u32 list"

record v4l2_pix_format =
  pf_Width :: u32
  pf_Height :: u32
  pf_PixelFormat :: u32
  pf_Field :: u32
  pf_BytesPerLine :: u32
  pf_SizeImage :: u32
  pf_ColorSpace :: u32
  pf_Priv :: u32
  pf_Flags :: u32
  pf_YCbCrEnc :: u32
  pf_Quantization :: u32
  pf_XferFunc :: u32

record v4l2_fmt =
  vf_Ctype :: u32
  vf_Pix :: v4l2_pix_format
  vf_Pad :: bytes

record v4l2_requestbuffers =
  rb_count :: u32
  rb_ctype :: u32
  rb_memory :: u32
  rb_capability :: u32
  rb_reserved :: "u32 list"

record v4l2_timecode =
  tc_Type :: u32
  tc_Flags :: u32
  tc_Frames :: u8
  tc_Seconds :: u8
  tc_Minutes :: u8
  tc_Hours :: u8
  tc_Userbits :: bytes

record v4l2_buffer =
  vb_Index :: u32
  vb_Type :: u32
  vb_ByeUsed :: u32
  vb_Flags :: u32
  vb_Field :: u32
  vb_TvSec :: u64
  vb_TvUsec :: u64
  vb_Timecode :: v4l2_timecode
  vb_Sequence :: u32
  vb_Memory :: u32
  vb_M_raw :: u64
  vb_Length :: u32
  vb_Reserved1 :: u32
  vb_Reserved2 :: u32

text \<open>The zero values that \<open>var\<close> gives.\<close>

definition zero_pix :: v4l2_pix_format where
  "zero_pix = \<lparr>pf_Width = 0, pf_Height = 0, pf_PixelFormat = 0, pf_Field = 0, pf_BytesPerLine = 0, pf_SizeImage = 0, pf_ColorSpace = 0,
     pf_Priv = 0, pf_Flags = 0, pf_YCbCrEnc = 0, pf_Quantization = 0, pf_XferFunc = 0\<rparr>"

definition zero_timecode :: v4l2_timecode where
  "zero_timecode = \<lparr>tc_Type = 0, tc_Flags = 0, tc_Frames = 0, tc_Seconds = 0, tc_Minutes = 0, tc_Hours = 0, tc_Userbits = replicate 4 0\<rparr>"

definition zero_buffer :: v4l2_buffer where
  "zero_buffer = \<lparr>vb_Index = 0, vb_Type = 0, vb_ByeUsed = 0, vb_Flags = 0, vb_Field = 0, vb_TvSec = 0, vb_TvUsec = 0,
     vb_Timecode = zero_timecode, vb_Sequence = 0, vb_Memory = 0, vb_M_raw = 0, vb_Length = 0, vb_Reserved1 = 0, vb_Reserved2 = 0\<rparr>"

type_synonym 'a driver = "int \<Rightarrow> u64 \<Rightarrow> 'a \<Rightarrow> int \<times> 'a"

text \<open>\<open>v4l2_ioctl\<close>: a non-zero error number is the error.\<close>

definition v4l2_ioctl :: "'a driver \<Rightarrow> int \<Rightarrow> u64 \<Rightarrow> 'a \<Rightarrow> int + 'a" where
  "v4l2_ioctl drv fd req arg = (let (errno, arg') = drv fd req arg in if errno \<noteq> 0 then Inl errno else Inr arg')"

definition v4l2_querycap :: "v4l2_capability driver \<Rightarrow> int \<Rightarrow> int + v4l2_capability" where
  "v4l2_querycap drv fd =
     v4l2_ioctl drv fd VIDIOC_QUERYCAP
       \<lparr>vc_driver = replicate 16 0, vc_card = replicate 32 0, vc_bus_info = replicate 32 0, vc_version = 0, vc_capability = 0,
        vc_device_caps = 0, vc_reserved = replicate 3 0\<rparr>"

definition v4l2_enum_fmt :: "v4l2_fmtdesc driver \<Rightarrow> int \<Rightarrow> u32 \<Rightarrow> u32 \<Rightarrow> int + v4l2_fmtdesc" where
  "v4l2_enum_fmt drv fd index pixfmt =
     v4l2_ioctl drv fd VIDIOC_ENUM_FMT
       \<lparr>fd_index = index, fd_ctype = V4L2_BUF_TYPE_VIDEO_CAPTURE, fd_flags = 0, fd_description = replicate 32 0, fd_pixfmt = pixfmt,
        fd_reserved = replicate 4 0\<rparr>"

definition v4l2_set_fmt :: "v4l2_fmt driver \<Rightarrow> int \<Rightarrow> u32 \<Rightarrow> u64 \<Rightarrow> u64 \<Rightarrow> int + unit" where
  "v4l2_set_fmt drv fd pixelformat width height =
     res_bind (v4l2_ioctl drv fd VIDIOC_S_FMT
       \<lparr>vf_Ctype = V4L2_BUF_TYPE_VIDEO_CAPTURE,
        vf_Pix = zero_pix\<lparr>pf_Width := ucast width, pf_Height := ucast height, pf_PixelFormat := pixelformat, pf_Field := 0,
          pf_BytesPerLine := ucast width * 2, pf_SizeImage := ucast (width * height * 2)\<rparr>, vf_Pad = replicate 152 0\<rparr>) (\<lambda>_. Inr ())"

definition v4l2_get_fmt :: "v4l2_fmt driver \<Rightarrow> int \<Rightarrow> int + v4l2_fmt" where
  "v4l2_get_fmt drv fd =
     v4l2_ioctl drv fd VIDIOC_G_FMT
       \<lparr>vf_Ctype = V4L2_BUF_TYPE_VIDEO_CAPTURE, vf_Pix = zero_pix, vf_Pad = replicate 152 0\<rparr>"

definition v4l2_reqbufs :: "v4l2_requestbuffers driver \<Rightarrow> int \<Rightarrow> u32 \<Rightarrow> int + unit" where
  "v4l2_reqbufs drv fd cnt =
     res_bind (v4l2_ioctl drv fd VIDIOC_REQBUFS \<lparr>rb_count = cnt, rb_ctype = V4L2_BUF_TYPE_VIDEO_CAPTURE, rb_memory = V4L2_MEMORY_MMAP,
       rb_capability = 0, rb_reserved = replicate 4 0\<rparr>) (\<lambda>_. Inr ())"

definition newBuffer :: "u32 \<Rightarrow> v4l2_buffer" where
  "newBuffer index = zero_buffer\<lparr>vb_Index := index, vb_Type := V4L2_BUF_TYPE_VIDEO_CAPTURE, vb_Memory := V4L2_MEMORY_MMAP\<rparr>"

definition m_offset :: "v4l2_buffer \<Rightarrow> u32" where
  "m_offset b = ucast (vb_M_raw b)"

definition v4l2_querybuf :: "v4l2_buffer driver \<Rightarrow> int \<Rightarrow> u32 \<Rightarrow> int + (u32 \<times> u32)" where
  "v4l2_querybuf drv fd index = res_bind (v4l2_ioctl drv fd VIDIOC_QUERYBUF (newBuffer index)) (\<lambda>b. Inr (m_offset b, vb_Length b))"

definition v4l2_qbuf :: "v4l2_buffer driver \<Rightarrow> int \<Rightarrow> u32 \<Rightarrow> int + unit" where
  "v4l2_qbuf drv fd index = res_bind (v4l2_ioctl drv fd VIDIOC_QBUF (newBuffer index)) (\<lambda>_. Inr ())"

definition v4l2_dqbuf :: "v4l2_buffer driver \<Rightarrow> int \<Rightarrow> int + u32" where
  "v4l2_dqbuf drv fd = res_bind (v4l2_ioctl drv fd VIDIOC_DQBUF (newBuffer 0)) (\<lambda>b. Inr (vb_Index b))"

definition v4l2_streamon :: "u32 driver \<Rightarrow> int \<Rightarrow> int + unit" where
  "v4l2_streamon drv fd = res_bind (v4l2_ioctl drv fd VIDIOC_STREAMON V4L2_BUF_TYPE_VIDEO_CAPTURE) (\<lambda>_. Inr ())"

definition v4l2_streamoff :: "u32 driver \<Rightarrow> int \<Rightarrow> int + unit" where
  "v4l2_streamoff drv fd = res_bind (v4l2_ioctl drv fd VIDIOC_STREAMOFF V4L2_BUF_TYPE_VIDEO_CAPTURE) (\<lambda>_. Inr ())"

section \<open>Buffers mapped into memory\<close>

text \<open>
  \<open>syscall.Mmap\<close> and \<open>syscall.Munmap\<close> of the Go library keep a table of the mapped slices, here by address and length: a
  length of 0 is refused, and only a slice exactly as it was mapped can be unmapped. \<open>kernelMap\<close> gives the error number
  or the address, \<open>kernelUnmap\<close> the error number.
\<close>

type_synonym mapping = "nat \<times> nat"

definition EINVAL :: int where "EINVAL = 22"

definition syscallMmap :: "(int \<Rightarrow> int \<Rightarrow> int \<Rightarrow> int + nat) \<Rightarrow> int \<Rightarrow> int \<Rightarrow> int \<Rightarrow> mapping list \<Rightarrow> mapping list \<times> (int + mapping)" where
  "syscallMmap kernelMap fd off len ms =
     (if len \<le> 0 then (ms, Inl EINVAL)
      else case kernelMap fd off len of
          Inl e \<Rightarrow> (ms, Inl e)
        | Inr addr \<Rightarrow> ((addr, nat len) # ms, Inr (addr, nat len)))"

definition mmap_v4l2 :: "(int \<Rightarrow> int \<Rightarrow> int \<Rightarrow> int + nat) \<Rightarrow> int \<Rightarrow> u32 \<Rightarrow> u32 \<Rightarrow> mapping list \<Rightarrow> mapping list \<times> (int + mapping)" where
  "mmap_v4l2 kernelMap fd offset len ms = syscallMmap kernelMap fd (uint offset) (uint len) ms"

definition munmap_v4l2 :: "(mapping \<Rightarrow> int) \<Rightarrow> mapping \<Rightarrow> mapping list \<Rightarrow> mapping list \<times> int" where
  "munmap_v4l2 kernelUnmap m ms =
     (if snd m = 0 \<or> m \<notin> set ms then (ms, EINVAL)
      else let errno = kernelUnmap m in if errno \<noteq> 0 then (ms, errno) else (remove1 m ms, 0))"

text \<open>
  A buffer described by \<open>v4l2_querybuf\<close> can be mapped as described and is unmapped again, which leaves the mappings of
  before; a part of it cannot be unmapped, and a buffer of length 0 cannot be mapped.
\<close>

lemma mmap_munmap:
  assumes "v4l2_querybuf drv fd index = Inr (off, len)" and "0 < len" and "kernelMap fd (uint off) (uint len) = Inr addr"
    and "kernelUnmap (addr, unat len) = 0"
  shows "\<exists>ms' m. mmap_v4l2 kernelMap fd off len ms = (ms', Inr m) \<and> snd m = unat len \<and> munmap_v4l2 kernelUnmap m ms' = (ms, 0)"
    and "m' \<notin> set ms \<Longrightarrow> m' \<noteq> (addr, unat len) \<Longrightarrow> munmap_v4l2 kernelUnmap m' (fst (mmap_v4l2 kernelMap fd off len ms)) =
      (fst (mmap_v4l2 kernelMap fd off len ms), EINVAL)"
    and "mmap_v4l2 kernelMap fd off 0 ms = (ms, Inl EINVAL)"
proof -
  have "0 < uint len" using assms(2) by (simp add: word_less_alt)
  then have m: "mmap_v4l2 kernelMap fd off len ms = ((addr, unat len) # ms, Inr (addr, unat len))"
    using assms(3) by (simp add: mmap_v4l2_def syscallMmap_def)
  have "unat len \<noteq> 0" using assms(2) by (simp add: word_less_nat_alt)
  then show "\<exists>ms' m. mmap_v4l2 kernelMap fd off len ms = (ms', Inr m) \<and> snd m = unat len \<and> munmap_v4l2 kernelUnmap m ms' = (ms, 0)"
    using m assms(4) by (simp add: munmap_v4l2_def)
  show "m' \<notin> set ms \<Longrightarrow> m' \<noteq> (addr, unat len) \<Longrightarrow> munmap_v4l2 kernelUnmap m' (fst (mmap_v4l2 kernelMap fd off len ms)) =
      (fst (mmap_v4l2 kernelMap fd off len ms), EINVAL)"
    using m by (simp add: munmap_v4l2_def)
  show "mmap_v4l2 kernelMap fd off 0 ms = (ms, Inl EINVAL)" by (simp add: mmap_v4l2_def syscallMmap_def)
qed

section \<open>Requests and structures fit\<close>

text \<open>Every request with the layout of the structure the wrapper passes.\<close>

definition requests :: "(u64 \<times> gotype) list" where
  "requests =
     [(VIDIOC_QUERYCAP, capability_layout), (VIDIOC_ENUM_FMT, fmtdesc_layout), (VIDIOC_G_FMT, fmt_layout), (VIDIOC_S_FMT, fmt_layout),
      (VIDIOC_REQBUFS, requestbuffers_layout), (VIDIOC_QUERYBUF, GoStruct buffer_fields), (VIDIOC_QBUF, GoStruct buffer_fields),
      (VIDIOC_DQBUF, GoStruct buffer_fields), (VIDIOC_STREAMON, GoU32), (VIDIOC_STREAMOFF, GoU32)]"

lemma layout_sizes:
  "sizeOf capability_layout = 104" "sizeOf fmtdesc_layout = 64" "sizeOf pix_format_layout = 48" "sizeOf fmt_layout = 204"
  "sizeOf requestbuffers_layout = 32" "sizeOf timecode_layout = 16" "sizeOf (GoStruct buffer_fields) = 88" "alignOf timecode_layout = 4"
  by (simp_all add: capability_layout_def fmtdesc_layout_def pix_format_layout_def fmt_layout_def requestbuffers_layout_def
      timecode_layout_def buffer_fields_def alignUp_def)

lemma request_sizes:
  "iocSize VIDIOC_QUERYCAP = 104" "iocSize VIDIOC_ENUM_FMT = 64" "iocSize VIDIOC_G_FMT = 204" "iocSize VIDIOC_S_FMT = 204"
  "iocSize VIDIOC_REQBUFS = 20" "iocSize VIDIOC_QUERYBUF = 84" "iocSize VIDIOC_QBUF = 84" "iocSize VIDIOC_DQBUF = 84"
  "iocSize VIDIOC_STREAMON = 4" "iocSize VIDIOC_STREAMOFF = 4"
  by (simp_all add: iocSize_def VIDIOC_QUERYCAP_def VIDIOC_ENUM_FMT_def VIDIOC_G_FMT_def VIDIOC_S_FMT_def VIDIOC_REQBUFS_def
      VIDIOC_QUERYBUF_def VIDIOC_QBUF_def VIDIOC_DQBUF_def VIDIOC_STREAMON_def VIDIOC_STREAMOFF_def)

lemma buffer_offsets: "offsetsFrom 0 buffer_fields = [0, 4, 8, 12, 16, 20, 24, 32, 40, 56, 60, 64, 72, 76, 80]"
  by (simp add: buffer_fields_def layout_sizes alignUp_def)

text \<open>
  No request lets the driver touch memory behind the structure it is given: the number of bytes encoded in
  every request number is at most the size of the structure under Go's layout. The fields of the buffer
  structure lie at the documented offsets, and the other structures have the documented sizes. The sizes
  of the request agree with the structure for all but two: the buffer structure has 88 bytes where its
  comment and its requests say 84, and the structure of the buffer request has 32 where its request says 20.
\<close>

theorem v4l2_layout:
  "list_all (\<lambda>(req, t). iocSize req \<le> sizeOf t) requests \<and>
   offsetsFrom 0 buffer_fields = [0, 4, 8, 12, 16, 20, 24, 32, 40, 56, 60, 64, 72, 76, 80] \<and>
   sizeOf capability_layout = 104 \<and> sizeOf pix_format_layout = 48 \<and> sizeOf fmt_layout = 204 \<and> sizeOf timecode_layout = 16 \<and>
   map (\<lambda>(req, t). (iocSize req, sizeOf t)) (filter (\<lambda>(req, t). iocSize req \<noteq> sizeOf t) requests) =
     [(20, 32), (84, 88), (84, 88), (84, 88)]"
  by (simp add: requests_def layout_sizes request_sizes buffer_offsets del: sizeOf.simps(6))

text \<open>
  The dimensions passed to the driver. The bytes per line and the picture size of a format request are those
  of the requested picture exactly, as long as the picture takes fewer than \<open>2 ^ 32\<close> bytes.
\<close>

theorem v4l2_set_fmt_sizes:
  assumes "unat width * unat height * 2 < 2 ^ 32" and "0 < width" and "0 < height"
  shows "\<exists>f. v4l2_set_fmt drv fd pf width height = res_bind (v4l2_ioctl drv fd VIDIOC_S_FMT f) (\<lambda>_. Inr ()) \<and>
    unat (pf_Width (vf_Pix f)) = unat width \<and> unat (pf_Height (vf_Pix f)) = unat height \<and>
    unat (pf_BytesPerLine (vf_Pix f)) = unat width * 2 \<and>
    unat (pf_SizeImage (vf_Pix f)) = unat width * unat height * 2"
proof -
  have "1 \<le> unat height" "1 \<le> unat width" using assms(2,3) by (simp_all add: word_less_nat_alt)
  then have "unat width * 2 \<le> unat width * unat height * 2" "unat height \<le> unat width * unat height" by simp_all
  then have w: "unat width * 2 < 2 ^ 32" "unat height < 2 ^ 32" using assms(1) by linarith+
  have "unat (width * height * 2) = unat width * unat height * 2"
    using assms(1) by (simp add: unat_word_ariths mod_mult_left_eq)
  then have "unat (ucast (width * height * 2) :: u32) = unat width * unat height * 2" using assms(1) by (simp add: unsigned_ucast_eq take_bit_eq_mod)
  moreover have "unat (ucast width :: u32) = unat width" using w by (simp add: unsigned_ucast_eq take_bit_eq_mod)
  moreover from this have "unat (ucast width * 2 :: u32) = unat width * 2" using w by (simp add: unat_word_ariths)
  moreover have "unat (ucast height :: u32) = unat height" using w by (simp add: unsigned_ucast_eq take_bit_eq_mod)
  ultimately show ?thesis
    unfolding v4l2_set_fmt_def
    by (intro exI [of _ "\<lparr>vf_Ctype = V4L2_BUF_TYPE_VIDEO_CAPTURE,
        vf_Pix = zero_pix\<lparr>pf_Width := ucast width, pf_Height := ucast height, pf_PixelFormat := pf, pf_Field := 0,
          pf_BytesPerLine := ucast width * 2, pf_SizeImage := ucast (width * height * 2)\<rparr>, vf_Pad = replicate 152 0\<rparr>"]) simp
qed

theorem v4l2_set_fmt_sizes_witness:
  "\<exists>f :: v4l2_fmt. v4l2_set_fmt (\<lambda>_ _ f. (0, f)) 3 0x56595559 640 480 = res_bind (v4l2_ioctl (\<lambda>_ _ f. (0, f)) 3 VIDIOC_S_FMT f) (\<lambda>_. Inr ()) \<and>
    unat (pf_Width (vf_Pix f)) = unat (640 :: u64) \<and> unat (pf_Height (vf_Pix f)) = unat (480 :: u64) \<and>
    unat (pf_BytesPerLine (vf_Pix f)) = unat (640 :: u64) * 2 \<and>
    unat (pf_SizeImage (vf_Pix f)) = unat (640 :: u64) * unat (480 :: u64) * 2"
  by (rule v4l2_set_fmt_sizes) simp_all

end
