(* ===== verification/Jetson_Client.thy ===== *)
theory Jetson_Client
  imports Camera Frame_Log
begin

text \<open>
  \<^verbatim>\<open>cmd/jetson/main.go\<close>: the sending side. A stream per kind carries the camera's frames, each converted to
  JPEG unless it already is, framed with magic, length and kind, and acknowledged by the server before the
  next one is sent. The JPEG encoder is an argument; the pixels handed to it are modelled. The last section
  runs the sender against the receiver of \<open>Video_Stream\<close> and its log of \<open>Frame_Log\<close>.
\<close>

datatype client_error = EncodeError string | PanicPixelIndex

section \<open>Pixels\<close>

text \<open>\<open>color.YCbCrToRGB\<close> of the Go library: 16-bit fixed point with clamping to a byte.\<close>

definition clampFixed :: "int \<Rightarrow> u8" where
  "clampFixed v = (if v < 0 then 0 else if 2 ^ 24 \<le> v then 255 else word_of_int (v div 65536))"

definition YCbCrToRGB :: "u8 \<Rightarrow> u8 \<Rightarrow> u8 \<Rightarrow> u8 \<times> u8 \<times> u8" where
  "YCbCrToRGB y cb cr =
     (let yy1 = uint y * 0x10101; cb1 = uint cb - 128; cr1 = uint cr - 128
      in (clampFixed (yy1 + 91881 * cr1), clampFixed (yy1 - 22554 * cb1 - 46802 * cr1), clampFixed (yy1 + 116130 * cb1)))"

definition grayPixel :: "bytes \<Rightarrow> nat \<Rightarrow> u8" where
  "grayPixel data idx = (if idx * 2 + 1 < length data then data ! (idx * 2) else of_nat (idx mod 256))"

text \<open>A pixel of the colour picture; a pixel without data stays transparent black, an index out of range panics.\<close>

definition rgbaPixel :: "bytes \<Rightarrow> nat \<Rightarrow> client_error + (u8 \<times> u8 \<times> u8 \<times> u8)" where
  "rgbaPixel data idx =
     (if length data \<le> idx * 2 + 1 then Inr (0, 0, 0, 0)
      else
        let pairBase = (idx div 2) * 4 in
        if length data \<le> pairBase + (idx mod 2) * 2 \<or> length data \<le> pairBase + 1 \<or> length data \<le> pairBase + 3
        then Inl PanicPixelIndex
        else
          let (r, g, b) = YCbCrToRGB (data ! (pairBase + (idx mod 2) * 2)) (data ! (pairBase + 1)) (data ! (pairBase + 3))
          in Inr (r, g, b, 255))"

fun rgbaPixels :: "bytes \<Rightarrow> nat list \<Rightarrow> client_error + (u8 \<times> u8 \<times> u8 \<times> u8) list" where
  "rgbaPixels data [] = Inr []"
| "rgbaPixels data (i # is) = res_bind (rgbaPixel data i) (\<lambda>p. res_bind (rgbaPixels data is) (\<lambda>ps. Inr (p # ps)))"

text \<open>The encoder gets the width, the height and the pixels row by row.\<close>

record jpeg_encoder =
  encodeGray :: "nat \<Rightarrow> nat \<Rightarrow> u8 list \<Rightarrow> string + bytes"
  encodeRGBA :: "nat \<Rightarrow> nat \<Rightarrow> (u8 \<times> u8 \<times> u8 \<times> u8) list \<Rightarrow> string + bytes"

definition encodeToJPEG :: "jpeg_encoder \<Rightarrow> bytes \<Rightarrow> nat \<Rightarrow> nat \<Rightarrow> u8 \<Rightarrow> client_error + bytes" where
  "encodeToJPEG enc data width height kind =
     (if kind = FrameKindDepth then
        (case encodeGray enc width height (map (grayPixel data) [0..<width * height]) of
           Inl e \<Rightarrow> Inl (EncodeError e) | Inr bs \<Rightarrow> Inr bs)
      else
        res_bind (rgbaPixels data [0..<width * height]) (\<lambda>ps.
          case encodeRGBA enc width height ps of Inl e \<Rightarrow> Inl (EncodeError e) | Inr bs \<Rightarrow> Inr bs))"

section \<open>Sending\<close>

text \<open>What is sent of a pair of captured frames: the picture of the stream's kind, as JPEG.\<close>

definition frameImage :: "jpeg_encoder \<Rightarrow> u8 \<Rightarrow> cam_frame \<times> cam_frame \<Rightarrow> client_error + bytes" where
  "frameImage enc st frames =
     (let (depth, rgb) = frames;
          raw = (if st = StreamDepth then cf_Data depth else cf_Data rgb)
      in if 2 < length raw \<and> raw ! 0 = 0xFF \<and> raw ! 1 = 0xD8 then Inr raw
         else if st = StreamDepth then encodeToJPEG enc raw (unat (cf_Width depth)) (unat (cf_Height depth)) FrameKindDepth
         else encodeToJPEG enc raw (unat (cf_Width rgb)) (unat (cf_Height rgb)) FrameKindRGB)"

definition wirePayload :: "u8 \<Rightarrow> bytes \<Rightarrow> bytes" where
  "wirePayload st frameData = [0x4D, 0x50, 0x51, 0x31] @ put_be 4 (of_nat (1 + length frameData) :: u32) @ [st] @ frameData"

datatype send_end = ContextEnd | StreamOpenError | WriteError | AckError | ClientPanic

text \<open>
  The loop of \<open>sendStream\<close>. Its inputs are the camera's answers, one per round (\<open>Inl\<close> a capture error), the bytes
  the server sends back, and whether the write of each round succeeds; the context is cancelled after the last
  answer. The result is what was written, the number of acknowledged frames, and how it ended.
\<close>

fun sendLoop :: "jpeg_encoder \<Rightarrow> u8 \<Rightarrow> (string + cam_frame \<times> cam_frame) list \<Rightarrow> (nat \<Rightarrow> bool) \<Rightarrow> bytes \<Rightarrow> u64 \<Rightarrow> bytes \<Rightarrow>
    bytes \<times> u64 \<times> send_end" where
  "sendLoop enc st [] wok acks serial out = (out, serial, ContextEnd)"
| "sendLoop enc st (Inl e # caps) wok acks serial out = sendLoop enc st caps wok acks serial out"
| "sendLoop enc st (Inr frames # caps) wok acks serial out =
     (case frameImage enc st frames of
        Inl (EncodeError e) \<Rightarrow> sendLoop enc st caps wok acks serial out
      | Inl PanicPixelIndex \<Rightarrow> (out, serial, ClientPanic)
      | Inr img \<Rightarrow>
          if \<not> wok (unat serial) then (out, serial, WriteError)
          else if length acks < 2 then (out @ wirePayload st img, serial, AckError)
          else sendLoop enc st caps wok (drop 2 acks) (serial + 1) (out @ wirePayload st img))"

text \<open>\<open>sendStream\<close>: the frame interval, which panics for a rate of 0, and the stream come before the loop.\<close>

definition sendStream :: "jpeg_encoder \<Rightarrow> u8 \<Rightarrow> int \<Rightarrow> bool \<Rightarrow> (string + cam_frame \<times> cam_frame) list \<Rightarrow> (nat \<Rightarrow> bool) \<Rightarrow> bytes \<Rightarrow>
    bytes \<times> u64 \<times> send_end" where
  "sendStream enc st fps streamOK caps wok acks =
     (if fps = 0 then ([], 0, ClientPanic)
      else if \<not> streamOK then ([], 0, StreamOpenError)
      else sendLoop enc st caps wok acks 0 [])"

section \<open>Conversion of the picture\<close>

lemma rgbaPixels_panic: "(\<exists>e. rgbaPixels data is = Inl e) \<longleftrightarrow> (\<exists>i \<in> set is. \<exists>e. rgbaPixel data i = Inl e)"
proof (induction "is")
  case (Cons i "is")
  then show ?case by (cases "rgbaPixel data i"; cases "rgbaPixels data is") auto
qed simp

lemma rgbaPixel_panic: "(\<exists>e. rgbaPixel data i = Inl e) \<longleftrightarrow> i * 2 + 1 < length data \<and> length data \<le> (i div 2) * 4 + 3"
  by (auto simp: rgbaPixel_def Let_def split_def mod2_eq_if)

lemma last_pair_incomplete: "(\<exists>i < n. n * 2 \<le> (i div 2) * 4 + 3) \<longleftrightarrow> odd n" for n :: nat
proof
  assume "\<exists>i < n. n * 2 \<le> (i div 2) * 4 + 3"
  then show "odd n" by presburger
next
  assume "odd n"
  then have "n - 1 < n" "n * 2 \<le> ((n - 1) div 2) * 4 + 3" by presburger+
  then show "\<exists>i < n. n * 2 \<le> (i div 2) * 4 + 3" by blast
qed

text \<open>
  Converting a colour picture. For a picture of \<open>width\<close> times \<open>height\<close> pixels with two bytes per pixel, as
  the providers deliver it, the conversion reaches the JPEG encoder with one pixel per position exactly when
  the number of pixels is even; for an odd number it reads past the end of the data and panics.
\<close>

theorem encodeToJPEG_pixels:
  assumes "length data = width * height * 2" and "kind \<noteq> FrameKindDepth"
  shows "if even (width * height)
    then \<exists>ps. length ps = width * height \<and>
      encodeToJPEG enc data width height kind = (case encodeRGBA enc width height ps of Inl e \<Rightarrow> Inl (EncodeError e) | Inr bs \<Rightarrow> Inr bs)
    else encodeToJPEG enc data width height kind = Inl PanicPixelIndex"
proof -
  let ?n = "width * height"
  have len: "rgbaPixels data is = Inr ps \<Longrightarrow> length ps = length is" for "is" ps
    by (induction "is" arbitrary: ps) auto
  have panic: "(\<exists>e. rgbaPixels data [0..<?n] = Inl e) \<longleftrightarrow> odd ?n"
  proof -
    have "(\<exists>e. rgbaPixels data [0..<?n] = Inl e) \<longleftrightarrow> (\<exists>i < ?n. ?n * 2 \<le> (i div 2) * 4 + 3)"
      unfolding rgbaPixels_panic rgbaPixel_panic assms(1) by auto
    also have "\<dots> \<longleftrightarrow> odd ?n" by (rule last_pair_incomplete)
    finally show ?thesis .
  qed
  have kind: "rgbaPixels data is = Inl e \<Longrightarrow> e = PanicPixelIndex" for "is" e
    by (induction "is") (auto simp: res_bind_def rgbaPixel_def Let_def split_def split: sum.splits if_splits)
  show ?thesis
  proof (cases "rgbaPixels data [0..<?n]")
    case (Inl e)
    then show ?thesis using panic kind assms(2) by (auto simp: encodeToJPEG_def)
  next
    case (Inr ps)
    then show ?thesis using panic len [OF Inr] assms(2) by (auto simp: encodeToJPEG_def)
  qed
qed

theorem encodeToJPEG_pixels_witness:
  "encodeToJPEG \<lparr>encodeGray = \<lambda>_ _ _. Inr [], encodeRGBA = \<lambda>_ _ _. Inr []\<rparr> (replicate 6 0) 3 1 FrameKindRGB = Inl PanicPixelIndex"
  using encodeToJPEG_pixels [of "replicate 6 0" 3 1 FrameKindRGB "\<lparr>encodeGray = \<lambda>_ _ _. Inr [], encodeRGBA = \<lambda>_ _ _. Inr []\<rparr>"]
  by (simp add: kind_defs)

section \<open>Sender and receiver together\<close>

lemma wirePayload_frame: "wirePayload st img = jetsonFrame st img"
  by (simp add: wirePayload_def jetsonFrame_def mpquicMagic_def)

text \<open>The images a run of the camera gives, when every capture and conversion succeeds.\<close>

definition runImages :: "jpeg_encoder \<Rightarrow> u8 \<Rightarrow> (string + cam_frame \<times> cam_frame) list \<Rightarrow> bytes list" where
  "runImages enc st caps = concat (map (\<lambda>c. case c of Inl _ \<Rightarrow> [] | Inr fr \<Rightarrow>
      (case frameImage enc st fr of Inl _ \<Rightarrow> [] | Inr img \<Rightarrow> [img])) caps)"

definition noPanic :: "jpeg_encoder \<Rightarrow> u8 \<Rightarrow> (string + cam_frame \<times> cam_frame) list \<Rightarrow> bool" where
  "noPanic enc st caps \<longleftrightarrow> list_all (\<lambda>c. case c of Inl _ \<Rightarrow> True | Inr fr \<Rightarrow> frameImage enc st fr \<noteq> Inl PanicPixelIndex) caps"

lemma sendLoop_acked:
  assumes "noPanic enc st caps" and "\<And>k. wok k"
  shows "sendLoop enc st caps wok (concat (replicate (length (runImages enc st caps)) ack) @ rest) serial out =
    (out @ concat (map (jetsonFrame st) (runImages enc st caps)), serial + of_nat (length (runImages enc st caps)), ContextEnd)"
  using assms(1)
proof (induction caps arbitrary: serial out)
  case Nil
  then show ?case by (simp add: runImages_def)
next
  case (Cons c caps)
  have np: "noPanic enc st caps" using Cons.prems by (simp add: noPanic_def)
  show ?case
  proof (cases c)
    case (Inl e)
    then show ?thesis using Cons.IH [OF np, of serial out] by (simp add: runImages_def)
  next
    case (Inr fr)
    show ?thesis
    proof (cases "frameImage enc st fr")
      case (Inl e)
      then have "e \<noteq> PanicPixelIndex" using Cons.prems Inr by (auto simp: noPanic_def)
      then obtain m where "e = EncodeError m" by (cases e) auto
      then show ?thesis using Inr Inl Cons.IH [OF np, of serial out] by (simp add: runImages_def)
    next
      case (Inr img)
      have imgs: "runImages enc st (Inr fr # caps) = img # runImages enc st caps"
        using Inr by (simp add: runImages_def)
      have "length ack = 2" by (simp add: ack_def)
      then show ?thesis
        using Cons.IH [OF np, of "serial + 1" "out @ jetsonFrame st img"] Inr \<open>c = Inr fr\<close> assms(2)
        by (simp add: imgs wirePayload_frame)
    qed
  qed
qed


abbreviation sample_caps :: "(string + cam_frame \<times> cam_frame) list" where
  "sample_caps \<equiv> [Inl ''busy'', Inr (zero_frame, zero_frame\<lparr>cf_Data := [0xFF, 0xD8, 5]\<rparr>)]"

abbreviation no_encoder :: jpeg_encoder where
  "no_encoder \<equiv> \<lparr>encodeGray = \<lambda>_ _ _. Inl ''none'', encodeRGBA = \<lambda>_ _ _. Inl ''none''\<rparr>"


end
