(* ===== verification/Jetson_Main.thy ===== *)
theory Jetson_Main
  imports Jetson_Client Camera_Devices Scheduler
begin

text \<open>
  \<open>main\<close> of \<^verbatim>\<open>cmd/jetson/main.go\<close>: the flags, the scheduler they select, the sockets, the connection with its one or
  two paths, the camera, the two sending goroutines, and what is released at the end. Parsing the command line is
  the Go library's; the operating system, name resolution and the QUIC connection are arguments.
\<close>

section \<open>Flags\<close>

record client_flags =
  flag_addr :: string
  flag_path1 :: string
  flag_path0_iface :: string
  flag_path1_iface :: string
  flag_fps :: int
  flag_depth_width :: int
  flag_depth_height :: int
  flag_rgb_width :: int
  flag_rgb_height :: int
  flag_scheduler :: string
  flag_pqi_alpha :: real
  flag_pqi_beta :: real
  flag_pqi_gamma :: real
  flag_pqi_lambda :: real
  flag_pqi_window :: int
  flag_pqi_tdeg :: real
  flag_pqi_margin :: real
  flag_pqi_stable :: int

text \<open>The values of the flags that are not given; a duration is in nanoseconds.\<close>

definition defaultFlags :: "(real \<Rightarrow> real) \<Rightarrow> client_flags" where
  "defaultFlags fl = \<lparr>flag_addr = ''localhost:4433'', flag_path1 = '''', flag_path0_iface = '''', flag_path1_iface = '''',
     flag_fps = 10, flag_depth_width = 320, flag_depth_height = 240, flag_rgb_width = 640, flag_rgb_height = 480,
     flag_scheduler = ''rssi'', flag_pqi_alpha = fl 0.5, flag_pqi_beta = fl 0.3, flag_pqi_gamma = fl 0.2,
     flag_pqi_lambda = fl 0.3, flag_pqi_window = 10, flag_pqi_tdeg = 40, flag_pqi_margin = 10,
     flag_pqi_stable = 500 * 1000000\<rparr>"

definition flagPQIConfig :: "client_flags \<Rightarrow> pqi_config" where
  "flagPQIConfig f = \<lparr>Weights = \<lparr>Alpha = flag_pqi_alpha f, Beta = flag_pqi_beta f, Gamma = flag_pqi_gamma f\<rparr>,
     Lambda = flag_pqi_lambda f, Window = flag_pqi_window f,
     Hyst = \<lparr>DegradationThreshold = flag_pqi_tdeg f, SafetyMargin = flag_pqi_margin f, StabilityInterval = flag_pqi_stable f\<rparr>\<rparr>"

definition clientScheduler :: "(real \<Rightarrow> real) \<Rightarrow> client_flags \<Rightarrow> scheduler_error + scheduler" where
  "clientScheduler fl f =
     (if flag_scheduler f = ''pqi'' then Inr (PQIScheduler (NewPQIScheduler (flagPQIConfig f))) else New fl (flag_scheduler f))"

section \<open>Sockets and paths\<close>

text \<open>
  The answers of the operating system and of the connection: the errors of binding the \<open>k\<close>-th socket to an
  interface and of opening it, which may differ from socket to socket, the resolution of an address, the errors of
  dialling and of adding a path.
\<close>

record net_env =
  bindErr :: "nat \<Rightarrow> string \<Rightarrow> string option"
  listenErr :: "nat \<Rightarrow> string option"
  resolveUDP :: "string \<Rightarrow> string + string"
  dialErr :: "string \<Rightarrow> string option"
  addPathErr :: "string \<Rightarrow> nat \<Rightarrow> string option"

text \<open>The open sockets with their interface (empty when not bound), and the paths: ID, address and socket.\<close>

record client_net =
  socks :: "(nat, string) gomap"
  nextSock :: nat
  routes :: "(nat \<times> string \<times> nat) list"

definition no_net :: client_net where
  "no_net = \<lparr>socks = [], nextSock = 0, routes = []\<rparr>"

text \<open>\<open>listenUDP\<close>: an error of the control function makes \<open>ListenPacket\<close> fail; a small read buffer is only logged.\<close>

definition listenUDP :: "net_env \<Rightarrow> string \<Rightarrow> client_net \<Rightarrow> client_net \<times> (string + nat)" where
  "listenUDP env iface n =
     (case (if iface \<noteq> '''' then bindErr env (nextSock n) iface else None) of
        Some e \<Rightarrow> (n, Inl e)
      | None \<Rightarrow>
          (case listenErr env (nextSock n) of
             Some e \<Rightarrow> (n, Inl e)
           | None \<Rightarrow> (n\<lparr>socks := (nextSock n, iface) # socks n, nextSock := nextSock n + 1\<rparr>, Inr (nextSock n))))"

definition closeSock :: "nat \<Rightarrow> client_net \<Rightarrow> client_net" where
  "closeSock k n = n\<lparr>socks := AList.delete k (socks n)\<rparr>"

text \<open>The second path; \<open>AddPath\<close> uses the main socket \<open>s0\<close>. Every failure is only logged.\<close>

definition addSecondPath :: "net_env \<Rightarrow> client_flags \<Rightarrow> nat \<Rightarrow> client_net \<Rightarrow> client_net" where
  "addSecondPath env f s0 n =
     (if flag_path1 f = '''' then n
      else
        case resolveUDP env (flag_path1 f) of
          Inl _ \<Rightarrow> n
        | Inr addr2 \<Rightarrow>
            if flag_path1_iface f \<noteq> '''' then
              (case listenUDP env (flag_path1_iface f) n of
                 (n, Inl _) \<Rightarrow> n
               | (n, Inr pconn) \<Rightarrow>
                   (case addPathErr env addr2 1 of
                      Some _ \<Rightarrow> closeSock pconn n
                    | None \<Rightarrow> n\<lparr>routes := routes n @ [(1, addr2, pconn)]\<rparr>))
            else
              (case addPathErr env addr2 1 of
                 Some _ \<Rightarrow> n
               | None \<Rightarrow> n\<lparr>routes := routes n @ [(1, addr2, s0)]\<rparr>))"

datatype client_fatal =
    FatalScheduler scheduler_error
  | FatalListen string
  | FatalResolve string
  | FatalDial string

text \<open>\<open>main\<close> up to the camera: the scheduler, the main socket, the connection and the second path.\<close>

definition connectClient :: "(real \<Rightarrow> real) \<Rightarrow> net_env \<Rightarrow> client_flags \<Rightarrow> client_net \<Rightarrow> client_net \<times> (client_fatal + scheduler \<times> nat)" where
  "connectClient fl env f n =
     (case clientScheduler fl f of
        Inl e \<Rightarrow> (n, Inl (FatalScheduler e))
      | Inr sched \<Rightarrow>
          (case listenUDP env (flag_path0_iface f) n of
             (n, Inl e) \<Rightarrow> (n, Inl (FatalListen e))
           | (n, Inr s0) \<Rightarrow>
               (case resolveUDP env (flag_addr f) of
                  Inl e \<Rightarrow> (n, Inl (FatalResolve e))
                | Inr a \<Rightarrow>
                    (case dialErr env a of
                       Some e \<Rightarrow> (n, Inl (FatalDial e))
                     | None \<Rightarrow> (addSecondPath env f s0 (n\<lparr>routes := routes n @ [(0, a, s0)]\<rparr>), Inr (sched, s0))))))"

text \<open>
  The rest of \<open>main\<close>: the camera, the two goroutines (\<open>depthIn\<close> and \<open>rgbIn\<close> are what each of them meets: whether its
  stream opens, the camera's answers, the success of its writes and the bytes sent back), and the deferred calls, which
  a fatal error skips.
\<close>

type_synonym stream_input = "bool \<times> (string + cam_frame \<times> cam_frame) list \<times> (nat \<Rightarrow> bool) \<times> bytes"

definition closeProvider :: "provider \<Rightarrow> cams \<Rightarrow> cams" where
  "closeProvider prov w = (case prov of OpenCV p \<Rightarrow> snd (opencvClose p w) | Pattern _ \<Rightarrow> w)"

definition clientMain :: "(real \<Rightarrow> real) \<Rightarrow> net_env \<Rightarrow> cam_lib \<Rightarrow> jpeg_encoder \<Rightarrow> client_flags \<Rightarrow> stream_input \<Rightarrow> stream_input \<Rightarrow>
    client_net \<Rightarrow> cams \<Rightarrow> client_net \<times> cams \<times> (client_fatal + (bytes \<times> u64 \<times> send_end) \<times> (bytes \<times> u64 \<times> send_end))" where
  "clientMain fl env lib enc f depthIn rgbIn n w =
     (case connectClient fl env f n of
        (n, Inl e) \<Rightarrow> (n, w, Inl e)
      | (n, Inr (sched, s0)) \<Rightarrow>
          let (w, prov) = NewProvider lib w;
              run = (\<lambda>st (ok, caps, wok, acks). sendStream enc st (flag_fps f) ok caps wok acks)
          in (closeSock s0 n, closeProvider prov w, Inr (run StreamDepth depthIn, run StreamRGB rgbIn)))"

section \<open>The scheduler of the client\<close>

text \<open>
  The two sets of default parameters agree, and neither is used by default. With \<open>-scheduler pqi\<close> and no other
  flag, the client runs the PQI scheduler with exactly the parameters of \<open>DefaultPQIConfig\<close>, so the scheduler that
  \<open>New\<close> makes for the same name; without any flag it runs the RSSI scheduler, not PQI.
\<close>

theorem clientScheduler_defaults:
  "clientScheduler fl ((defaultFlags fl)\<lparr>flag_scheduler := ''pqi''\<rparr>) = New fl ''pqi'' \<and>
   flagPQIConfig (defaultFlags fl) = DefaultPQIConfig fl \<and>
   clientScheduler fl (defaultFlags fl) = Inr PrimaryPathScheduler \<and>
   clientScheduler fl (defaultFlags fl) \<noteq> New fl ''pqi''"
  by (simp add: clientScheduler_def defaultFlags_def flagPQIConfig_def New_def DefaultPQIConfig_def DefaultWeights_def
      DefaultHysteresis_def)

section \<open>Paths and sockets after the start\<close>

lemma listenUDP_Inr:
  "listenUDP env iface n = (n', Inr k) \<Longrightarrow> n' = n\<lparr>socks := (k, iface) # socks n, nextSock := nextSock n + 1\<rparr> \<and> k = nextSock n"
  by (auto simp: listenUDP_def split: option.splits if_splits)

text \<open>When the second path comes about.\<close>

definition secondPathOK :: "net_env \<Rightarrow> client_flags \<Rightarrow> string \<Rightarrow> bool" where
  "secondPathOK env f a \<longleftrightarrow> flag_path1 f \<noteq> '''' \<and> resolveUDP env (flag_path1 f) = Inr a \<and> addPathErr env a 1 = None \<and>
     (flag_path1_iface f \<noteq> '''' \<longrightarrow> bindErr env 1 (flag_path1_iface f) = None \<and> listenErr env 1 = None)"

lemma connectClient_result:
  assumes "connectClient fl env f no_net = (n, Inr (sched, s0))"
  shows "s0 = 0 \<and> (\<exists>a0. resolveUDP env (flag_addr f) = Inr a0 \<and>
    ((\<nexists>a. secondPathOK env f a) \<and> socks n = [(0, flag_path0_iface f)] \<and> routes n = [(0, a0, 0)] \<or>
     (\<exists>a. secondPathOK env f a \<and>
        (if flag_path1_iface f = '''' then socks n = [(0, flag_path0_iface f)] \<and> routes n = [(0, a0, 0), (1, a, 0)]
         else socks n = [(1, flag_path1_iface f), (0, flag_path0_iface f)] \<and> routes n = [(0, a0, 0), (1, a, 1)]))))"
proof -
  obtain n1 a0 where l: "listenUDP env (flag_path0_iface f) no_net = (n1, Inr s0)" and a: "resolveUDP env (flag_addr f) = Inr a0"
    and n: "n = addSecondPath env f s0 (n1\<lparr>routes := routes n1 @ [(0, a0, s0)]\<rparr>)"
    using assms by (auto simp: connectClient_def split: sum.splits prod.splits option.splits)
  let ?m = "\<lparr>socks = [(0, flag_path0_iface f)], nextSock = 1, routes = [(0, a0, 0)]\<rparr>"
  have s0: "s0 = 0" and n': "n = addSecondPath env f 0 ?m"
    using n listenUDP_Inr [OF l] by (auto simp: no_net_def)
  show ?thesis
  proof (cases "\<exists>a. secondPathOK env f a")
    case True
    then obtain a' where ok: "secondPathOK env f a'" by blast
    then show ?thesis
      using a s0 n' by (cases "flag_path1_iface f = ''''") (auto simp: secondPathOK_def addSecondPath_def listenUDP_def)
  next
    case False
    then have "socks n = socks ?m \<and> routes n = routes ?m"
      unfolding n'
      by (auto simp: secondPathOK_def addSecondPath_def listenUDP_def closeSock_def split: sum.splits option.splits)
    then show ?thesis using False a s0 by auto
  qed
qed

text \<open>
  C11: the paths of a client that has started. Path 0 goes to the resolved server address on a socket bound to the
  interface of the flags. Path 1 exists exactly when a second address was given and resolved, its interface, if
  one was given, could be bound to a second socket, and the connection accepted the path; with an interface of its own it has a
  socket of its own bound there, and otherwise it shares the socket of path 0. No socket is open that no path uses.
\<close>

theorem connectClient_paths:
  assumes "connectClient fl env f no_net = (n, Inr (sched, s0))"
  shows "\<exists>a0. resolveUDP env (flag_addr f) = Inr a0 \<and> map_of (socks n) s0 = Some (flag_path0_iface f) \<and>
    fst ` set (socks n) = (snd \<circ> snd) ` set (routes n) \<and>
    ((\<nexists>a. secondPathOK env f a) \<and> routes n = [(0, a0, s0)] \<or>
     (\<exists>a s1. secondPathOK env f a \<and> routes n = [(0, a0, s0), (1, a, s1)] \<and>
        (if flag_path1_iface f = '''' then s1 = s0 else s1 \<noteq> s0 \<and> map_of (socks n) s1 = Some (flag_path1_iface f))))"
  using connectClient_result [OF assms] by (auto split: if_splits)

abbreviation open_net :: net_env where
  "open_net \<equiv> \<lparr>bindErr = \<lambda>_ _. None, listenErr = \<lambda>_. None, resolveUDP = \<lambda>a. Inr a, dialErr = \<lambda>_. None, addPathErr = \<lambda>_ _. None\<rparr>"

abbreviation two_path_flags :: client_flags where
  "two_path_flags \<equiv> (defaultFlags fl64)\<lparr>flag_path1 := ''b:4434'', flag_path0_iface := ''wlan0'', flag_path1_iface := ''usb0''\<rparr>"

lemma two_path_run: "\<exists>n s0. connectClient fl64 open_net two_path_flags no_net = (n, Inr (PrimaryPathScheduler, s0))"
  by (simp add: connectClient_def clientScheduler_def defaultFlags_def New_def listenUDP_def no_net_def)

theorem connectClient_paths_witness:
  "\<exists>n s0 s1. connectClient fl64 open_net two_path_flags no_net = (n, Inr (PrimaryPathScheduler, s0)) \<and>
     routes n = [(0, ''localhost:4433'', s0), (1, ''b:4434'', s1)] \<and> s1 \<noteq> s0 \<and> map_of (socks n) s1 = Some ''usb0''"
proof -
  obtain n s0 where run: "connectClient fl64 open_net two_path_flags no_net = (n, Inr (PrimaryPathScheduler, s0))"
    using two_path_run by blast
  have "secondPathOK open_net two_path_flags ''b:4434''" by (simp add: secondPathOK_def defaultFlags_def)
  then show ?thesis using connectClient_paths [OF run] run by (auto simp: secondPathOK_def defaultFlags_def)
qed

section \<open>The end of the client\<close>

lemma closeProvider_handles:
  assumes "NewProvider lib w = (w1, prov)" and "wf_cams w"
  shows "live (closeProvider prov w1) = live w" and "wf_cams (closeProvider prov w1)"
proof (atomize (full), cases prov)
  case (OpenCV p)
  then obtain dh rh d r where h: "depthHandle p = Some dh" "rgbHandle p = Some rh"
    "live w1 = (rh, (r, False)) # (dh, (d, True)) # live w" "wf_cams w1"
    using NewProvider_handles [OF assms] by auto
  then show "live (closeProvider prov w1) = live w \<and> wf_cams (closeProvider prov w1)"
    using opencvClose_handles(1,2) [OF h] by (simp add: OpenCV closeProvider_def)
next
  case (Pattern pp)
  then show "live (closeProvider prov w1) = live w \<and> wf_cams (closeProvider prov w1)"
    using NewProvider_handles [OF assms] by (simp add: closeProvider_def)
qed

text \<open>
  What the client holds it gives back. When \<open>main\<close> returns, whatever happened on the two streams, every camera handle
  it opened is closed, none twice, and no socket is left open but the one of a second path with an interface of its
  own, which belongs to the connection.
\<close>

theorem clientMain_releases:
  assumes "clientMain fl env lib enc f depthIn rgbIn no_net w = (n, w', Inr runs)" and "wf_cams w"
  shows "live w' = live w \<and> \<not> badClose w' \<and>
    fst ` set (socks n) = (if flag_path1_iface f = '''' then {} else {k. \<exists>a. (1, a, k) \<in> set (routes n)})"
proof -
  obtain n1 sched s0 where conn: "connectClient fl env f no_net = (n1, Inr (sched, s0))" and n: "n = closeSock s0 n1"
    and w': "w' = closeProvider (snd (NewProvider lib w)) (fst (NewProvider lib w))"
    using assms(1) by (cases "connectClient fl env f no_net") (auto simp: clientMain_def Let_def split_def split: sum.splits)
  have "fst ` set (socks n) = (if flag_path1_iface f = '''' then {} else {k. \<exists>a. (1, a, k) \<in> set (routes n)})"
    using connectClient_result [OF conn] unfolding n closeSock_def by (auto split: if_splits)
  then show ?thesis
    using closeProvider_handles [OF prod.collapse [symmetric] assms(2), of lib] by (simp add: w' wf_cams_def)
qed

theorem clientMain_releases_witness:
  "\<exists>n w' runs. clientMain fl64 open_net two_cameras no_encoder two_path_flags (True, [], \<lambda>_. True, []) (True, [], \<lambda>_. True, []) no_net no_cams =
      (n, w', Inr runs) \<and> live w' = live no_cams \<and> \<not> badClose w'"
proof -
  have wf: "wf_cams no_cams" by (simp add: wf_cams_def no_cams_def)
  have "\<exists>n w' runs. clientMain fl64 open_net two_cameras no_encoder two_path_flags (True, [], \<lambda>_. True, [])
      (True, [], \<lambda>_. True, []) no_net no_cams = (n, w', Inr runs)"
    using two_path_run by (fastforce simp: clientMain_def Let_def split_def)
  then obtain n w' runs where run: "clientMain fl64 open_net two_cameras no_encoder two_path_flags (True, [], \<lambda>_. True, [])
      (True, [], \<lambda>_. True, []) no_net no_cams = (n, w', Inr runs)"
    by blast
  then show ?thesis using clientMain_releases [OF run wf] by blast
qed

end
