(* ===== verification/Vms.thy ===== *)
theory Vms
  imports File_Paths Float64 Frame_Log
begin

text \<open>
  \<^verbatim>\<open>cmd/vms/main.go\<close>: the video management server, a web front end over the directory of stored frames (or
  over the same directory on a remote host, through SSH). Modelled are the SSH commands, the latest-frame
  summary and its cache, the statistics, the remote file handler, the colour map for depth pictures, and the
  MJPEG stream. What SSH commands and the file system answer, the JPEG codec, the clock and the ticks of
  the timers are arguments; the JSON encoding and the HTTP server are not modelled.
\<close>

section \<open>Text and bytes\<close>

definition goBytes :: "string \<Rightarrow> bytes" where
  "goBytes s = map (\<lambda>c. of_nat (of_char c)) s"

definition goString :: "bytes \<Rightarrow> string" where
  "goString bs = map (\<lambda>b. char_of (unat b)) bs"

definition hasSuffix :: "string \<Rightarrow> string \<Rightarrow> bool" where
  "hasSuffix s suf \<longleftrightarrow> length suf \<le> length s \<and> drop (length s - length suf) s = suf"

definition trimSuffix :: "string \<Rightarrow> string \<Rightarrow> string" where
  "trimSuffix s suf = (if hasSuffix s suf then take (length s - length suf) s else s)"

definition trimPrefix :: "string \<Rightarrow> string \<Rightarrow> string" where
  "trimPrefix s pre = (if take (length pre) s = pre then drop (length pre) s else s)"

text \<open>
  The value of \<open>strconv.Atoi\<close> whose error is dropped: 0 for what is no number, and the nearest \<open>int\<close> for a
  number out of range.
\<close>

definition atoiValue :: "string \<Rightarrow> int" where
  "atoiValue s =
     (case ParseInt s of
        Inr v \<Rightarrow> v
      | Inl _ \<Rightarrow>
          (let neg = (s \<noteq> [] \<and> hd s = CHR ''-'');
               ds = (if s \<noteq> [] \<and> (hd s = CHR ''-'' \<or> hd s = CHR ''+'') then tl s else s)
           in if ds = [] \<or> \<not> list_all is_digit ds then 0 else if neg then - (2 ^ 63) else 2 ^ 63 - 1))"

section \<open>Configuration\<close>

record vms_config =
  jetsonFrames :: string
  sshHost :: string
  remoteRoot :: string
  sshKeyPath :: string
  sshControlPath :: string

definition trimRightSlash :: "string \<Rightarrow> string" where
  "trimRightSlash s = rev (dropWhile (\<lambda>c. c = CHR ''/'') (rev s))"

text \<open>The part of \<open>main\<close> that reads the flags \<open>-jetson-frames\<close> (\<open>user@host:/path\<close>) and \<open>-ssh-key\<close>.\<close>

definition remoteConfig :: "string option \<Rightarrow> string \<Rightarrow> string \<Rightarrow> string \<Rightarrow> vms_config" where
  "remoteConfig homeDir tempDir flagFrames flagKey =
     (if flagFrames = [] then \<lparr>jetsonFrames = [], sshHost = [], remoteRoot = [], sshKeyPath = [], sshControlPath = []\<rparr>
      else
        let (host, rt) = (case SplitN2 CHR '':'' flagFrames of
              Some (host, path) \<Rightarrow> (host, trimRightSlash path) | None \<Rightarrow> (flagFrames, ''.''));
            key = (if flagKey \<noteq> [] then flagKey
                   else case homeDir of Some hm \<Rightarrow> filepathJoin [hm, ''.ssh'', ''id_ed25519_mes''] | None \<Rightarrow> [])
        in \<lparr>jetsonFrames = flagFrames, sshHost = host, remoteRoot = rt, sshKeyPath = key,
            sshControlPath = filepathJoin [tempDir, ''vms-ssh-ctrl'']\<rparr>)"

text \<open>The arguments of the SSH master connection that \<open>main\<close> starts, and those of every later command.\<close>

definition masterArgs :: "vms_config \<Rightarrow> string list" where
  "masterArgs c =
     [''-o'', ''BatchMode=yes'', ''-o'', ''ControlMaster=yes'', ''-o'', ''ControlPath='' @ sshControlPath c, ''-o'', ''ControlPersist=30'']
       @ (if sshKeyPath c \<noteq> [] then [''-i'', sshKeyPath c] else [])
       @ [''-Nf'', sshHost c]"

definition sshArgs :: "vms_config \<Rightarrow> string \<Rightarrow> string list" where
  "sshArgs c cmd =
     [''-o'', ''BatchMode=yes'', ''-o'', ''ConnectTimeout=2'']
       @ (if sshControlPath c \<noteq> [] then [''-o'', ''ControlMaster=no'', ''-o'', ''ControlPath='' @ sshControlPath c] else [])
       @ (if sshKeyPath c \<noteq> [] then [''-i'', sshKeyPath c] else [])
       @ [sshHost c, cmd]"

text \<open>\<open>ssh args\<close> is what the command answers: an error or its combined output.\<close>

type_synonym ssh = "string list \<Rightarrow> string + bytes"

definition latestFile :: "vms_config \<Rightarrow> string \<Rightarrow> string" where
  "latestFile c kind = filepathJoin [remoteRoot c, kind, ''latest.jpg'']"

section \<open>Sizes and serial numbers\<close>

record frame_sizes =
  fs_serial :: int
  fs_rgbSize :: int
  fs_depthSize :: int

definition addSize :: "string \<Rightarrow> int \<Rightarrow> int \<Rightarrow> frame_sizes \<Rightarrow> frame_sizes" where
  "addSize kind mtime sz fs =
     (let fs = (if kind = ''rgb'' then fs\<lparr>fs_rgbSize := sz\<rparr> else fs\<lparr>fs_depthSize := sz\<rparr>)
      in if fs_serial fs < mtime then fs\<lparr>fs_serial := mtime\<rparr> else fs)"

definition statSizeCmd :: "string \<Rightarrow> string" where
  "statSizeCmd f = ''stat -c '' @ [CHR 0x27] @ ''%Y:%s'' @ [CHR 0x27] @ '' '' @ f @ '' 2>/dev/null || echo 0:0''"

definition statCmd :: "string \<Rightarrow> string" where
  "statCmd f = ''stat -c %Y '' @ f @ '' 2>/dev/null || echo 0''"

definition remoteSize :: "ssh \<Rightarrow> vms_config \<Rightarrow> frame_sizes \<Rightarrow> string \<Rightarrow> frame_sizes" where
  "remoteSize ssh c fs kind =
     (case ssh (sshArgs c (statSizeCmd (latestFile c kind))) of
        Inl _ \<Rightarrow> fs
      | Inr out \<Rightarrow>
          (case SplitN2 CHR '':'' (TrimSpace (goString out)) of
             None \<Rightarrow> fs
           | Some (m, s) \<Rightarrow> addSize kind (atoiValue m) (atoiValue s) fs))"

text \<open>\<open>stat kind\<close> is size and modification time of the local \<^verbatim>\<open>latest.jpg\<close> of that kind, if the file exists.\<close>

definition localSize :: "(string \<Rightarrow> (int \<times> int) option) \<Rightarrow> frame_sizes \<Rightarrow> string \<Rightarrow> frame_sizes" where
  "localSize stat fs kind = (case stat kind of None \<Rightarrow> fs | Some (sz, mtime) \<Rightarrow> addSize kind mtime sz fs)"

definition getFrameSizes :: "ssh \<Rightarrow> (string \<Rightarrow> (int \<times> int) option) \<Rightarrow> vms_config \<Rightarrow> frame_sizes" where
  "getFrameSizes ssh stat c =
     (let zero = \<lparr>fs_serial = 0, fs_rgbSize = 0, fs_depthSize = 0\<rparr>
      in if jetsonFrames c \<noteq> [] then foldl (remoteSize ssh c) zero [''rgb'', ''depth'']
         else foldl (localSize stat) zero [''rgb'', ''depth''])"

record frame_info =
  info_Depth :: string
  info_RGB :: string
  info_Serial :: int

definition maxInt :: "int \<Rightarrow> int \<Rightarrow> int" where
  "maxInt a b = (if b < a then a else b)"

text \<open>A directory entry, with its modification time if \<open>Info\<close> succeeds.\<close>

record dir_entry =
  de_Name :: string
  de_IsDir :: bool
  de_ModTime :: "int option"

definition isJpg :: "dir_entry \<Rightarrow> bool" where
  "isJpg e \<longleftrightarrow> \<not> (de_IsDir e \<or> \<not> hasSuffix (de_Name e) ''.jpg'')"

definition entryNumber :: "dir_entry \<Rightarrow> int option" where
  "entryNumber e =
     (if \<not> isJpg e then None
      else case ParseInt (trimSuffix (de_Name e) ''.jpg'') of Inl _ \<Rightarrow> None | Inr n \<Rightarrow> Some n)"

text \<open>The numbers of the JPEG files of a directory; \<open>None\<close> is a directory that cannot be read.\<close>

definition frameNumbers :: "dir_entry list option \<Rightarrow> int list" where
  "frameNumbers entries = (case entries of None \<Rightarrow> [] | Some es \<Rightarrow> List.map_filter entryNumber es)"

definition remoteNumbers :: "ssh \<Rightarrow> vms_config \<Rightarrow> string \<Rightarrow> int list" where
  "remoteNumbers ssh c kind =
     (case ssh (sshArgs c (statCmd (latestFile c kind))) of
        Inl _ \<Rightarrow> []
      | Inr out \<Rightarrow> (case ParseInt (TrimSpace (goString out)) of Inl _ \<Rightarrow> [] | Inr m \<Rightarrow> if m = 0 then [] else [m]))"

definition latestInfo :: "int list \<Rightarrow> int list \<Rightarrow> frame_info" where
  "latestInfo depthFiles rgbFiles =
     (if depthFiles = [] \<and> rgbFiles = [] then \<lparr>info_Depth = [], info_RGB = [], info_Serial = 0\<rparr>
      else
        let d = sort depthFiles; r = sort rgbFiles
        in \<lparr>info_Depth = (if d \<noteq> [] then ''/frames/depth/latest.jpg'' else []),
            info_RGB = (if r \<noteq> [] then ''/frames/rgb/latest.jpg'' else []),
            info_Serial = (if d \<noteq> [] \<and> r \<noteq> [] then maxInt (last d) (last r) else if d \<noteq> [] then last d else last r)\<rparr>)"

definition getLatestFrames :: "ssh \<Rightarrow> (string \<Rightarrow> dir_entry list option) \<Rightarrow> vms_config \<Rightarrow> frame_info" where
  "getLatestFrames ssh readDir c =
     (if jetsonFrames c \<noteq> [] then latestInfo (remoteNumbers ssh c ''depth'') (remoteNumbers ssh c ''rgb'')
      else latestInfo (frameNumbers (readDir ''depth'')) (frameNumbers (readDir ''rgb'')))"

section \<open>Statistics\<close>

record stream_counts =
  frameServe :: int
  rgbFrames :: int
  depthFrames :: int
  rgbBytes :: int
  depthBytes :: int

record vms_stats =
  FPS :: real
  RgbFPS :: real
  DepthFPS :: real
  RgbBps :: real
  DepthBps :: real
  TotalFrames :: int
  FrameSerial :: int
  FrameRgbSize :: int
  FrameDepthSize :: int

text \<open>The statistics, the cached summary, and what \<open>updateStatsLoop\<close> keeps from the previous round.\<close>

record vms_state =
  vs_stats :: vms_stats
  vs_latest :: frame_info
  vs_prev :: stream_counts

definition rate :: "real \<Rightarrow> int \<Rightarrow> int \<Rightarrow> real" where
  "rate elapsed cur prev = (if 0 < elapsed \<and> prev < cur then fl64 (fl64 (of_int (cur - prev)) / elapsed) else 0)"

definition updateStats :: "real \<Rightarrow> stream_counts \<Rightarrow> frame_sizes \<Rightarrow> frame_info \<Rightarrow> vms_state \<Rightarrow> vms_state" where
  "updateStats elapsed cur sizes info st =
     (let prev = vs_prev st in
      \<lparr>vs_stats =
         \<lparr>FPS = rate elapsed (frameServe cur) (frameServe prev),
          RgbFPS = rate elapsed (rgbFrames cur) (rgbFrames prev),
          DepthFPS = rate elapsed (depthFrames cur) (depthFrames prev),
          RgbBps = rate elapsed (rgbBytes cur) (rgbBytes prev),
          DepthBps = rate elapsed (depthBytes cur) (depthBytes prev),
          TotalFrames = frameServe cur, FrameSerial = fs_serial sizes,
          FrameRgbSize = fs_rgbSize sizes, FrameDepthSize = fs_depthSize sizes\<rparr>,
       vs_latest = info, vs_prev = cur\<rparr>)"

text \<open>\<open>/api/latest\<close> answers from the cache, or with a fresh summary while the cache is empty.\<close>

definition latestHandler :: "frame_info \<Rightarrow> vms_state \<Rightarrow> frame_info" where
  "latestHandler fresh st = (if info_Serial (vs_latest st) = 0 then fresh else vs_latest st)"

section \<open>The remote file handler\<close>

definition readJetsonFrame :: "ssh \<Rightarrow> vms_config \<Rightarrow> string \<Rightarrow> string + bytes" where
  "readJetsonFrame ssh c remotePath = ssh (sshArgs c (''cat '' @ remotePath))"

datatype http_response = NotFound | Content string bytes

definition remoteFramesHandler :: "ssh \<Rightarrow> vms_config \<Rightarrow> string \<Rightarrow> stream_counts \<Rightarrow> stream_counts \<times> http_response" where
  "remoteFramesHandler ssh c urlPath n =
     (let path = trimPrefix urlPath ''/frames/'' in
      if path = [] \<or> hasSuffix path ''/'' then (n, NotFound)
      else case readJetsonFrame ssh c (filepathJoin [remoteRoot c, path]) of
          Inl _ \<Rightarrow> (n, NotFound)
        | Inr data \<Rightarrow>
            (n\<lparr>frameServe := frameServe n + 1\<rparr>,
             Content (if hasSuffix path ''.jpg'' \<or> hasSuffix path ''.jpeg'' then ''image/jpeg'' else ''application/octet-stream'') data))"

section \<open>The colour map\<close>

definition jetColor :: "u8 \<Rightarrow> u8 \<times> u8 \<times> u8" where
  "jetColor v =
     (if v < 64 then (v * 4, 0, 0)
      else if v < 128 then (255, (v - 64) * 4, 0)
      else if v < 192 then (255 - (v - 128) * 4, 255, (v - 128) * 4)
      else (0, 255 - (v - 192) * 4, 255))"

text \<open>
  \<open>applyJetColormap\<close>: \<open>decode\<close> is the JPEG decoder, which gives the picture by its kind, with the grey or luma
  values row by row, the width and the height; \<open>encode\<close> takes the coloured pixels.
\<close>

datatype decoded = GrayImage nat nat "u8 list" | YCbCrImage nat nat "u8 list" | OtherImage

definition applyJetColormap :: "(bytes \<Rightarrow> string + decoded) \<Rightarrow>
    (nat \<Rightarrow> nat \<Rightarrow> (u8 \<times> u8 \<times> u8 \<times> u8) list \<Rightarrow> string + bytes) \<Rightarrow> bytes \<Rightarrow> string + bytes" where
  "applyJetColormap decode encode data =
     (let colour = (\<lambda>w h px. encode w h (map (\<lambda>v. let (r, g, b) = jetColor v in (r, g, b, 255)) px)) in
      res_bind (decode data) (\<lambda>img.
        case img of
          GrayImage w h px \<Rightarrow> colour w h px
        | YCbCrImage w h px \<Rightarrow> colour w h px
        | OtherImage \<Rightarrow> Inl ''expected Gray or YCbCr JPEG''))"

section \<open>The MJPEG stream\<close>

definition crlf :: string where
  "crlf = [CHR 0x0D, CHR 0x0A]"

definition mjpegPart :: "bytes \<Rightarrow> bytes" where
  "mjpegPart data =
     goBytes (''--frame'' @ crlf @ ''Content-Type: image/jpeg'' @ crlf @ ''Content-Length: '' @ dec_string (length data) @ crlf @ crlf)
       @ data @ goBytes crlf"

text \<open>The entry the loop over a directory ends with: the newest JPEG file.\<close>

definition newer :: "dir_entry \<Rightarrow> dir_entry \<Rightarrow> bool" where
  "newer e l = (case (de_ModTime e, de_ModTime l) of (Some t1, Some t2) \<Rightarrow> t2 < t1 | _ \<Rightarrow> False)"

definition pickLatest :: "dir_entry list \<Rightarrow> dir_entry option" where
  "pickLatest entries =
     foldl (\<lambda>l e. if \<not> isJpg e then l
                  else case l of None \<Rightarrow> Some e | Some b \<Rightarrow> if newer e b then Some e else l) None entries"

text \<open>
  What the environment shows the stream in one round: the answers of SSH, the entries of the local directory or the
  error of reading it, and the content of its files. The files are read after the listing and may have changed
  since; the record does not tie one to the other.
\<close>

record stream_env =
  se_ssh :: ssh
  se_entries :: "dir_entry list option"
  se_file :: "string \<Rightarrow> string + bytes"

text \<open>The start of the stream: the serial number it finds, and the first picture, which is sent as it is.\<close>

definition maxSerial :: "dir_entry list \<Rightarrow> int" where
  "maxSerial es =
     foldl (\<lambda>m e. case entryNumber e of None \<Rightarrow> m | Some n \<Rightarrow> if m < n then n else m) 0 es"

definition initialSerial :: "vms_config \<Rightarrow> string \<Rightarrow> stream_env \<Rightarrow> int option" where
  "initialSerial c name env =
     (if jetsonFrames c \<noteq> [] then
        Some (case se_ssh env (sshArgs c (statCmd (latestFile c name))) of
                Inl _ \<Rightarrow> 0 | Inr out \<Rightarrow> atoiValue (TrimSpace (goString out)))
      else map_option maxSerial (se_entries env))"

definition readFrame :: "vms_config \<Rightarrow> string \<Rightarrow> stream_env \<Rightarrow> string \<Rightarrow> string + bytes" where
  "readFrame c name env filename =
     (if jetsonFrames c \<noteq> [] then readJetsonFrame (se_ssh env) c (latestFile c name) else se_file env filename)"

definition initialPart :: "vms_config \<Rightarrow> string \<Rightarrow> stream_env \<Rightarrow> int \<Rightarrow> bytes" where
  "initialPart c name env lastSerial =
     (if 0 < lastSerial then
        (case readFrame c name env (dec_string (nat lastSerial) @ ''.jpg'') of Inl _ \<Rightarrow> [] | Inr data \<Rightarrow> mjpegPart data)
      else [])"

text \<open>The data one tick reads: from the newest local file, or from the remote one if its signature has changed.\<close>

definition tickLocal :: "stream_env \<Rightarrow> bytes option" where
  "tickLocal env =
     (case se_entries env of
        None \<Rightarrow> None
      | Some es \<Rightarrow>
          (case pickLatest es of
             None \<Rightarrow> None
           | Some e \<Rightarrow> (case se_file env (de_Name e) of Inl _ \<Rightarrow> None | Inr data \<Rightarrow> if data = [] then None else Some data)))"

definition tickRemote :: "vms_config \<Rightarrow> string \<Rightarrow> stream_env \<Rightarrow> string \<Rightarrow> string \<times> bytes option" where
  "tickRemote c name env lastSig =
     (case se_ssh env (sshArgs c (statSizeCmd (latestFile c name))) of
        Inl _ \<Rightarrow> (lastSig, None)
      | Inr out \<Rightarrow>
          let sig = TrimSpace (goString out) in
          if sig = lastSig \<or> sig = ''0:0'' then (lastSig, None)
          else case readJetsonFrame (se_ssh env) c (latestFile c name) of
              Inl _ \<Rightarrow> (sig, None)
            | Inr data \<Rightarrow> (sig, if data = [] then None else Some data))"

text \<open>What a tick does with its data: colouring of depth pictures, the counters, and the part that is sent.\<close>

definition emitPart :: "(bytes \<Rightarrow> string + bytes) \<Rightarrow> string \<Rightarrow> bytes \<Rightarrow> stream_counts \<Rightarrow> stream_counts \<times> bytes" where
  "emitPart colormap name data n =
     (let data = (if name = ''depth'' \<and> data \<noteq> [] then (case colormap data of Inl _ \<Rightarrow> data | Inr coloured \<Rightarrow> coloured) else data);
          n = n\<lparr>frameServe := frameServe n + 1\<rparr>;
          n = (if name = ''rgb'' then n\<lparr>rgbFrames := rgbFrames n + 1, rgbBytes := rgbBytes n + int (length data)\<rparr>
               else n\<lparr>depthFrames := depthFrames n + 1, depthBytes := depthBytes n + int (length data)\<rparr>)
      in (n, mjpegPart data))"

text \<open>The ticks until the client is gone, each in its own environment.\<close>

fun mjpegLoop :: "(bytes \<Rightarrow> string + bytes) \<Rightarrow> vms_config \<Rightarrow> string \<Rightarrow> string \<Rightarrow> stream_counts \<Rightarrow> stream_env list \<Rightarrow> stream_counts \<times> bytes" where
  "mjpegLoop colormap c name lastSig n [] = (n, [])"
| "mjpegLoop colormap c name lastSig n (env # envs) =
     (let (sig, data) = (if jetsonFrames c \<noteq> [] then tickRemote c name env lastSig else (lastSig, tickLocal env));
          (n1, out) = (case data of None \<Rightarrow> (n, []) | Some d \<Rightarrow> emitPart colormap name d n);
          (n2, rest) = mjpegLoop colormap c name sig n1 envs
      in (n2, out @ rest))"

text \<open>The handler. Without a \<open>Flusher\<close> the answer is an error text with status 500.\<close>

definition serveMJPEG :: "bool \<Rightarrow> (bytes \<Rightarrow> string + bytes) \<Rightarrow> vms_config \<Rightarrow> string \<Rightarrow> stream_env \<Rightarrow> stream_env list \<Rightarrow> stream_counts \<Rightarrow>
    stream_counts \<times> bytes" where
  "serveMJPEG flusher colormap c name env envs n =
     (if \<not> flusher then (n, goBytes (''streaming not supported'' @ [CHR 0x0A]))
      else case initialSerial c name env of
          None \<Rightarrow> (n, [])
        | Some s \<Rightarrow> let (n', out) = mjpegLoop colormap c name [] n envs in (n', initialPart c name env s @ out))"

section \<open>The colour map is continuous\<close>

definition jetInt :: "int \<Rightarrow> int \<times> int \<times> int" where
  "jetInt n =
     (if n < 64 then (4 * n, 0, 0)
      else if n < 128 then (255, 4 * (n - 64), 0)
      else if n < 192 then (255 - 4 * (n - 128), 255, 4 * (n - 128))
      else (0, 255 - 4 * (n - 192), 255))"

lemma uint_times4: "uint v < 64 \<Longrightarrow> uint (v * 4) = 4 * uint v" for v :: u8
  by (simp add: uint_word_ariths)

lemma uint_diff: "uint w \<le> uint v \<Longrightarrow> uint (v - w) = uint v - uint w" for v w :: u8
proof -
  assume "uint w \<le> uint v"
  moreover have "uint v < 256" "0 \<le> uint w" using unsigned_less [of v, where 'a = int] by simp_all
  ultimately have "uint v - uint w < 256" by linarith
  then show ?thesis using \<open>uint w \<le> uint v\<close> by (simp add: uint_word_ariths)
qed

lemma jetColor_int: "jetColor v = (r, g, b) \<Longrightarrow> (uint r, uint g, uint b) = jetInt (uint v)"
proof -
  assume eq: "jetColor v = (r, g, b)"
  have bound: "uint v < 256" using unsigned_less [of v, where 'a = int] by simp
  have off: "uint ((v - w) * 4) = 4 * (uint v - uint w)" if "uint w \<le> uint v" "uint v - uint w < 64" for w :: u8
    using that uint_times4 [of "v - w"] by (simp only: uint_diff)
  have sub: "uint (255 - (v - w) * 4) = 255 - 4 * (uint v - uint w)" if "uint w \<le> uint v" "uint v - uint w < 64" for w :: u8
    using that uint_diff [of "(v - w) * 4" 255] by (simp only: off) simp
  consider "uint v < 64" | "64 \<le> uint v" "uint v < 128" | "128 \<le> uint v" "uint v < 192" | "192 \<le> uint v" by linarith
  then show ?thesis
    using eq bound off [of 64] off [of 128] sub [of 128] sub [of 192]
    by cases (auto simp: jetColor_def jetInt_def word_less_def uint_times4)
qed

text \<open>
  No channel of the colour map wraps around, although it is computed in bytes: all values are those of the
  integer formula. Neighbouring intensities differ by at most 4 in every channel, so the map has no jumps at
  the borders of its four pieces, and different intensities get different colours.
\<close>

theorem jetColor_continuous:
  assumes "jetColor v = (r, g, b)" and "jetColor w = (r', g', b')"
  shows "(uint r, uint g, uint b) = jetInt (uint v) \<and>
    (uint w = uint v + 1 \<longrightarrow> \<bar>uint r' - uint r\<bar> \<le> 4 \<and> \<bar>uint g' - uint g\<bar> \<le> 4 \<and> \<bar>uint b' - uint b\<bar> \<le> 4) \<and>
    ((r, g, b) = (r', g', b') \<longrightarrow> v = w)"
proof -
  have v: "(uint r, uint g, uint b) = jetInt (uint v)" and w: "(uint r', uint g', uint b') = jetInt (uint w)"
    using assms by (simp_all add: jetColor_int)
  have "uint v = uint w" if "jetInt (uint v) = jetInt (uint w)"
    using that by (auto simp: jetInt_def split: if_splits)
  then have "v = w" if "(r, g, b) = (r', g', b')" using that v w by (simp add: word_uint_eq_iff)
  moreover have "\<bar>uint r' - uint r\<bar> \<le> 4 \<and> \<bar>uint g' - uint g\<bar> \<le> 4 \<and> \<bar>uint b' - uint b\<bar> \<le> 4" if "uint w = uint v + 1"
    using v w that by (auto simp: jetInt_def split: if_splits)
  ultimately show ?thesis using v by blast
qed

theorem jetColor_continuous_witness:
  "(uint (255 :: u8), uint (252 :: u8), uint (0 :: u8)) = jetInt (uint (127 :: u8))"
  using jetColor_continuous [of 127 255 252 0 128 255 255 0] by (simp add: jetColor_def)

section \<open>The accounting of the stream\<close>

text \<open>The counters of a stream that has sent the pictures \<open>ps\<close>.\<close>

definition count_parts :: "string \<Rightarrow> bytes list \<Rightarrow> stream_counts \<Rightarrow> stream_counts" where
  "count_parts name ps n =
     (let total = int (sum_list (map length ps)); k = int (length ps) in
      if name = ''rgb'' then n\<lparr>frameServe := frameServe n + k, rgbFrames := rgbFrames n + k, rgbBytes := rgbBytes n + total\<rparr>
      else n\<lparr>frameServe := frameServe n + k, depthFrames := depthFrames n + k, depthBytes := depthBytes n + total\<rparr>)"

lemma emitPart_count: "\<exists>d. emitPart colormap name data n = (count_parts name [d] n, mjpegPart d)"
  by (auto simp: emitPart_def count_parts_def Let_def)

lemma count_parts_Cons: "count_parts name ps (count_parts name [d] n) = count_parts name (d # ps) n"
  by (simp add: count_parts_def Let_def algebra_simps)

lemma mjpegLoop_count:
  "\<exists>ps. mjpegLoop colormap c name sig n envs = (count_parts name ps n, concat (map mjpegPart ps)) \<and> length ps \<le> length envs"
proof (induction envs arbitrary: sig n)
  case Nil
  then show ?case by (simp add: count_parts_def)
next
  case (Cons env envs)
  obtain sig' data where tick:
    "(if jetsonFrames c \<noteq> [] then tickRemote c name env sig else (sig, tickLocal env)) = (sig', data)" by fastforce
  show ?case
  proof (cases data)
    case None
    obtain ps where "mjpegLoop colormap c name sig' n envs = (count_parts name ps n, concat (map mjpegPart ps))" "length ps \<le> length envs"
      using Cons.IH by blast
    then show ?thesis using tick None by (intro exI [of _ ps]) (simp only: mjpegLoop.simps, simp)
  next
    case (Some d0)
    obtain d where d: "emitPart colormap name d0 n = (count_parts name [d] n, mjpegPart d)" using emitPart_count by blast
    obtain ps where "mjpegLoop colormap c name sig' (count_parts name [d] n) envs =
        (count_parts name ps (count_parts name [d] n), concat (map mjpegPart ps))" "length ps \<le> length envs"
      using Cons.IH by blast
    then show ?thesis
      using tick Some d by (intro exI [of _ "d # ps"]) (simp only: mjpegLoop.simps, simp add: count_parts_Cons)
  qed
qed

text \<open>
  Whatever SSH and the file system answer, the body of an MJPEG response is the optional first picture
  followed by whole multipart parts, at most one per tick, and the shared counters account exactly for the
  pictures sent by ticks: the frame counters by their number, the byte counters by their total size; the
  counters of the other stream are untouched.
\<close>

theorem serveMJPEG_accounting:
  "\<exists>first ps. serveMJPEG True colormap c name env envs n =
     (count_parts name ps n, concat (map mjpegPart (first @ ps))) \<and> length first \<le> 1 \<and> length ps \<le> length envs"
proof (cases "initialSerial c name env")
  case None
  then show ?thesis by (intro exI [of _ "[]"]) (simp add: serveMJPEG_def count_parts_def)
next
  case (Some s)
  obtain ps where ps: "mjpegLoop colormap c name [] n envs = (count_parts name ps n, concat (map mjpegPart ps))" "length ps \<le> length envs"
    using mjpegLoop_count by blast
  have "\<exists>first. initialPart c name env s = concat (map mjpegPart first) \<and> length first \<le> 1"
  proof (cases "0 < s")
    case True
    then show ?thesis
      by (cases "readFrame c name env (dec_string (nat s) @ ''.jpg'')")
         (force simp: initialPart_def intro: exI [of _ "[]"] exI [of _ "[d]" for d])+
  qed (auto simp: initialPart_def intro: exI [of _ "[]"])
  then show ?thesis using ps Some by (auto simp: serveMJPEG_def)
qed

section \<open>The viewer over the files of the Jetson handler\<close>

text \<open>The directory of the Jetson handler as the viewer sees it, with modification times \<open>mt\<close>.\<close>

definition listing :: "(string \<Rightarrow> int option) \<Rightarrow> dir \<Rightarrow> files \<Rightarrow> dir_entry list" where
  "listing mt d fs = map (\<lambda>n. \<lparr>de_Name = n, de_IsDir = False, de_ModTime = mt n\<rparr>) (map snd (filter (\<lambda>k. fst k = d) (map fst fs)))"

definition fileContent :: "dir \<Rightarrow> files \<Rightarrow> string \<Rightarrow> string + bytes" where
  "fileContent d fs name = (case map_of fs (d, name) of None \<Rightarrow> Inl ''no such file'' | Some data \<Rightarrow> Inr data)"

lemma hasSuffix_append: "hasSuffix (s @ suf) suf" and trimSuffix_append: "trimSuffix (s @ suf) suf = s"
  by (simp_all add: hasSuffix_def trimSuffix_def)

lemma entryNumber_jpg:
  "n < 2 ^ 63 \<Longrightarrow> de_Name e = dec_string n @ ''.jpg'' \<Longrightarrow> \<not> de_IsDir e \<Longrightarrow> entryNumber e = Some (int n)"
  using hasSuffix_append [of "dec_string n" "''.jpg''"] trimSuffix_append [of "dec_string n" "''.jpg''"]
  by (simp add: entryNumber_def isJpg_def ParseInt_dec)

lemma listing_numbers:
  assumes "{n. map_of fs (d, n) \<noteq> None} = frameName ` K" and "\<And>i. i \<in> K \<Longrightarrow> i < 2 ^ 63"
  shows "set (map entryNumber (listing mt d fs)) = (\<lambda>i. Some (int i)) ` K"
proof -
  have "set (map entryNumber (listing mt d fs)) =
      (\<lambda>n. entryNumber \<lparr>de_Name = n, de_IsDir = False, de_ModTime = mt n\<rparr>) ` {n. map_of fs (d, n) \<noteq> None}"
    by (force simp: listing_def map_of_eq_None_iff)
  also have "\<dots> = (\<lambda>i. Some (int i)) ` K"
    unfolding assms(1) image_image using assms(2)
    by (intro image_cong refl entryNumber_jpg) (fastforce simp: frameName_def jpgName_def unat_of_nat)+
  finally show ?thesis .
qed

lemma maxSerial_bounds: "0 \<le> maxSerial es" "Some n \<in> set (map entryNumber es) \<Longrightarrow> n \<le> maxSerial es"
    "maxSerial es = 0 \<or> Some (maxSerial es) \<in> set (map entryNumber es)"
  unfolding maxSerial_def
  by (induction es rule: rev_induct) (auto split: option.splits)

lemma maxSerial_listing:
  assumes "{n. map_of fs (d, n) \<noteq> None} = frameName ` K" and "\<And>i. i \<in> K \<Longrightarrow> i < 2 ^ 63" and "finite K"
  shows "maxSerial (listing mt d fs) = (if K = {} then 0 else int (Max K))"
proof -
  let ?m = "maxSerial (listing mt d fs)"
  have num: "set (map entryNumber (listing mt d fs)) = (\<lambda>i. Some (int i)) ` K" by (rule listing_numbers) (fact assms)+
  have "?m = 0 \<or> (\<exists>i \<in> K. ?m = int i)" using maxSerial_bounds(3) [of "listing mt d fs"] unfolding num by blast
  moreover have le: "int i \<le> ?m" if "i \<in> K" for i using that maxSerial_bounds(2) [of "int i" "listing mt d fs"] unfolding num by auto
  moreover have "int (Max K) \<le> ?m" "i \<in> K \<Longrightarrow> int i \<le> int (Max K)" if "K \<noteq> {}" for i
    using le [OF Max_in [OF assms(3) that]] Max_ge [OF assms(3)] by simp_all
  ultimately show ?thesis using maxSerial_bounds(1) [of "listing mt d fs"] by (cases "K = {}") (auto intro: antisym)
qed

text \<open>Over numbered files a local stream opens with the one of the greatest number.\<close>

lemma first_picture:
  assumes "{n. map_of fs (d, n) \<noteq> None} = frameName ` K" and "\<And>i. i \<in> K \<Longrightarrow> 1 \<le> i \<and> i < 2 ^ 63" and "finite K"
    and "jetsonFrames c = []" and "se_entries env = Some (listing mt d fs)" and "se_file env = fileContent d fs"
  shows "serveMJPEG True colormap c name env [] n =
    (n, if K = {} then [] else mjpegPart (the (map_of fs (d, frameName (Max K)))))"
proof -
  have max: "maxSerial (listing mt d fs) = (if K = {} then 0 else int (Max K))"
    by (rule maxSerial_listing [OF assms(1) _ assms(3)]) (use assms(2) in blast)
  show ?thesis
  proof (cases "K = {}")
    case False
    note K = Max_in [OF assms(3) False]
    then have "frameName (Max K) = dec_string (Max K) @ ''.jpg''" "0 < Max K"
      using assms(2) [of "Max K"] by (simp_all add: frameName_def jpgName_def unat_of_nat)
    moreover have "map_of fs (d, frameName (Max K)) \<noteq> None" using K assms(1) by blast
    ultimately show ?thesis
      using False assms(4-6) max
      by (auto simp: serveMJPEG_def initialSerial_def initialPart_def readFrame_def fileContent_def)
  next
    case True
    then show ?thesis using assms(4-6) max by (simp add: serveMJPEG_def initialSerial_def initialPart_def)
  qed
qed

lemma keptSerials_Nil: "keptSerials n = [] \<longleftrightarrow> n = 0" if "n < 2 ^ 64"
proof -
  have "finite (frameName ` {1..n})" by simp
  then have "n \<noteq> 0 \<Longrightarrow> greatest maxFrames (frameName ` {1..n}) \<noteq> {}"
    using card_greatest [of "frameName ` {1..n}" maxFrames] by (auto simp: maxFrames_def min_def card_eq_0_iff split: if_splits)
  moreover have "keptSerials 0 = []" by (simp add: keptSerials_def)
  ultimately show ?thesis using keptSerials_greatest [OF that] by (metis image_empty list.set(1))
qed

lemma log_rel_names: "log_rel l h \<Longrightarrow> {n. map_of (jet_files h) (d, n) \<noteq> None} = frameName ` set (keptSerials (length (l d)))"
  by (simp add: log_relD(3) keptFrames_None del: not_None_eq)


abbreviation local_config :: vms_config where
  "local_config \<equiv> \<lparr>jetsonFrames = [], sshHost = [], remoteRoot = [], sshKeyPath = [], sshControlPath = []\<rparr>"

abbreviation dir_env :: "dir \<Rightarrow> files \<Rightarrow> stream_env" where
  "dir_env d fs \<equiv> \<lparr>se_ssh = \<lambda>_. Inl ''no'', se_entries = Some (listing (\<lambda>_. None) d fs), se_file = fileContent d fs\<rparr>"

abbreviation no_counts :: stream_counts where
  "no_counts \<equiv> \<lparr>frameServe = 0, rgbFrames = 0, depthFrames = 0, rgbBytes = 0, depthBytes = 0\<rparr>"

lemma log_rel_one: "log_rel ((\<lambda>_. [])(RGBDir := [[7]])) \<lparr>rgbSerial = 2, depthSerial = 1, jet_files = [((RGBDir, ''1.jpg''), [7])]\<rparr>"
proof -
  have "HandleJetsonRawStream healthy_os [7] FrameKindRGB (NewJetsonHandler []) =
      (\<lparr>rgbSerial = 2, depthSerial = 1, jet_files = [((RGBDir, ''1.jpg''), [7])]\<rparr>, None)" by code_simp
  then show ?thesis
    using HandleJetsonRawStream_log [OF log_rel_New, of FrameKindRGB "[7]"]
    by (auto simp: log_append_def frameDir_def kind_defs)
qed




lemma splitOn_Nil [simp]: "splitOn sep s \<noteq> []"
  by (cases s) (auto split: list.splits)

lemma splitOn_snoc: "splitOn sep (p @ [sep]) = splitOn sep p @ [[]]"
proof (induction p)
  case (Cons a p)
  obtain w ws where "splitOn sep p = w # ws" using splitOn_Nil [of sep p] by (cases "splitOn sep p") auto
  then show ?case using Cons.IH by simp
qed simp

section \<open>The remote file handler reads what the URL names\<close>

text \<open>
  For a remote root below the file system's root and a URL path of plain components, the remote file
  handler runs exactly \<open>cat\<close> on the root followed by the components, and serves the output. The
  components reach the remote shell as they are: a component may hold blanks, semicolons or any other
  character but the slash, and nothing is quoted.
\<close>

theorem remoteFramesHandler_command:
  assumes "remoteRoot c = CHR ''/'' # joinWith CHR ''/'' rs" and "list_all plain (rs @ cs)" and "rs \<noteq> []" and "cs \<noteq> []"
    and "ssh (sshArgs c (''cat /'' @ joinWith CHR ''/'' (rs @ cs))) = Inr data"
  shows "\<exists>ty. remoteFramesHandler ssh c (''/frames/'' @ joinWith CHR ''/'' cs) n =
    (n\<lparr>frameServe := frameServe n + 1\<rparr>, Content ty data)"
proof -
  have cs: "list_all plain cs" using assms(2) by simp
  have "\<not> hasSuffix (joinWith CHR ''/'' cs) ''/''" 
  proof
    assume "hasSuffix (joinWith CHR ''/'' cs) ''/''"
    then obtain p where p: "joinWith CHR ''/'' cs = p @ ''/''"
      by (metis append_take_drop_id hasSuffix_def)
    have "cs = splitOn CHR ''/'' p @ [[]]" using splitOn_plain [OF cs] assms(4) p splitOn_snoc [of "CHR ''/''" p] by simp
    then show False using cs by (simp add: plain_def)
  qed
  moreover have "joinWith CHR ''/'' cs \<noteq> []" using joinWith_Nil_iff [OF cs] assms(4) by simp
  moreover have "filepathJoin [remoteRoot c, joinWith CHR ''/'' cs] = CHR ''/'' # joinWith CHR ''/'' (rs @ cs)"
    unfolding assms(1) by (rule filepathJoin_rooted [OF assms(2-4)])
  ultimately show ?thesis
    using assms(5) by (simp add: remoteFramesHandler_def trimPrefix_def readJetsonFrame_def Let_def)
qed

theorem remoteFramesHandler_command_witness:
  "\<exists>ty. remoteFramesHandler (\<lambda>args. if last args = ''cat /srv/frames/a;b/1.jpg'' then Inr [1] else Inl ''no'')
      \<lparr>jetsonFrames = ''h:/srv/frames'', sshHost = ''h'', remoteRoot = ''/srv/frames'', sshKeyPath = [], sshControlPath = []\<rparr>
      (''/frames/'' @ joinWith CHR ''/'' [''a;b'', ''1.jpg'']) \<lparr>frameServe = 0, rgbFrames = 0, depthFrames = 0, rgbBytes = 0, depthBytes = 0\<rparr> =
    (\<lparr>frameServe = 0, rgbFrames = 0, depthFrames = 0, rgbBytes = 0, depthBytes = 0\<rparr>\<lparr>frameServe := frameServe
      \<lparr>frameServe = 0, rgbFrames = 0, depthFrames = 0, rgbBytes = 0, depthBytes = 0\<rparr> + 1\<rparr>, Content ty [1])"
  by (rule remoteFramesHandler_command [where rs = "[''srv'', ''frames'']"]) (simp_all add: plain_def sshArgs_def)

section \<open>The link to the latest picture\<close>

lemma jpgName_latest: "jpgName s \<noteq> ''latest.jpg''"
proof
  assume "jpgName s = ''latest.jpg''"
  then have "dec_string (unat s) = ''latest''" using append_same_eq [of "dec_string (unat s)" "''.jpg''" "''latest''"] by (simp add: jpgName_def)
  then show False using dec_string_digits_only(1) [of "unat s"] by (simp add: is_digit_def)
qed

lemma removeFile_None: "map_of fs k = None \<Longrightarrow> map_of (removeFile env d fs n) k = None"
  by (simp add: removeFile_def delete_conv')

lemma cleanup_None:
  assumes "map_of fs k = None"
  shows "map_of (fst (cleanupOldFrames env d fs)) k = None"
proof -
  have "map_of (foldl (removeFile env d) fs ns) k = None" for ns
    using assms by (induction ns arbitrary: fs) (simp_all add: removeFile_None)
  then show ?thesis using assms by (simp add: cleanupOldFrames_def Let_def split: option.splits)
qed

lemma HandleJetsonRawStream_latest:
  assumes "map_of (jet_files h) (d, ''latest.jpg'') = None" and "HandleJetsonRawStream env img kind h = (h', e)"
  shows "map_of (jet_files h') (d, ''latest.jpg'') = None"
  using assms(2,1) by (cases rule: HandleJetsonRawStream_cases) (auto simp: update_conv' cleanup_None jpgName_latest [symmetric])

lemma sort_Nil_iff: "sort xs = [] \<longleftrightarrow> xs = []" for xs :: "int list"
  by (metis length_0_conv length_sort)

text \<open>
  The viewer announces pictures that the server never writes. Whatever a stream contains and whatever
  the file system answers, serving it creates no file \<^verbatim>\<open>latest.jpg\<close>; yet as soon as a numbered picture is in
  the directory, \<open>/api/latest\<close> points to \<^verbatim>\<open>latest.jpg\<close>.
\<close>

theorem latest_link_dangling:
  assumes "map_of (jet_files h) (RGBDir, ''latest.jpg'') = None"
    and "Handle os fin ackOK chunk writeOK hnd (Some h) p r = (Some h', p', out, e)"
    and "jetsonFrames c = []" and "readDir ''rgb'' = Some (listing mt RGBDir (jet_files h'))"
    and "(RGBDir, jpgName s) \<in> fst ` set (jet_files h')" and "unat s < 2 ^ 63"
  shows "info_RGB (getLatestFrames ssh readDir c) = ''/frames/rgb/latest.jpg'' \<and>
    fileContent RGBDir (jet_files h') ''latest.jpg'' = Inl ''no such file''"
proof -
  have "map_of (jet_files h') (RGBDir, ''latest.jpg'') = None"
    using Handle_preserves [where P = "\<lambda>h. map_of (jet_files h) (RGBDir, ''latest.jpg'') = None" and h = h, OF _ assms(1,2)]
      HandleJetsonRawStream_latest by blast
  then have "fileContent RGBDir (jet_files h') ''latest.jpg'' = Inl ''no such file''" by (simp add: fileContent_def)
  let ?e = "\<lparr>de_Name = jpgName s, de_IsDir = False, de_ModTime = mt (jpgName s)\<rparr>"
  have "?e \<in> set (listing mt RGBDir (jet_files h'))" using assms(5) by (force simp: listing_def)
  moreover have "entryNumber ?e = Some (int (unat s))" using assms(6) by (intro entryNumber_jpg) (simp_all add: jpgName_def)
  ultimately have "int (unat s) \<in> set (frameNumbers (readDir ''rgb''))"
    unfolding assms(4) by (force simp: frameNumbers_def List.map_filter_def)
  then have "frameNumbers (readDir ''rgb'') \<noteq> []" by force
  then have "info_RGB (getLatestFrames ssh readDir c) = ''/frames/rgb/latest.jpg''"
    using assms(3) sort_Nil_iff [of "frameNumbers (readDir ''rgb'')"]
    by (auto simp: getLatestFrames_def latestInfo_def Let_def)
  then show ?thesis using \<open>fileContent RGBDir (jet_files h') ''latest.jpg'' = _\<close> by simp
qed

theorem latest_link_dangling_witness:
  "info_RGB (getLatestFrames (\<lambda>_. Inl ''no'') (\<lambda>k. if k = ''rgb'' then Some (listing (\<lambda>_. None) RGBDir [((RGBDir, ''1.jpg''), [7 :: u8])]) else None)
      \<lparr>jetsonFrames = [], sshHost = [], remoteRoot = [], sshKeyPath = [], sshControlPath = []\<rparr>) = ''/frames/rgb/latest.jpg'' \<and>
   fileContent RGBDir [((RGBDir, ''1.jpg''), [7])] ''latest.jpg'' = Inl ''no such file''"
proof -
  have run: "Handle healthy_os None (\<lambda>_. True) 1 True (\<lambda>p b. (p, EchoHandle b)) (Some (NewJetsonHandler [])) () (jetsonFrame 1 [7]) =
      (Some \<lparr>rgbSerial = 2, depthSerial = 1, jet_files = [((RGBDir, ''1.jpg''), [7])]\<rparr>, (), ack, None)" by code_simp
  have "jpgName 1 = ''1.jpg''" by code_simp
  then show ?thesis
    using latest_link_dangling [OF _ run, where mt = "\<lambda>_. None" and ssh = "\<lambda>_. Inl ''no''" and s = 1
      and c = "\<lparr>jetsonFrames = [], sshHost = [], remoteRoot = [], sshKeyPath = [], sshControlPath = []\<rparr>"
      and readDir = "\<lambda>k. if k = ''rgb'' then Some (listing (\<lambda>_. None) RGBDir [((RGBDir, ''1.jpg''), [7 :: u8])]) else None"]
    by (simp add: NewJetsonHandler_def)
qed

section \<open>The newest file of a directory\<close>

text \<open>
  Among the JPEG files whose modification times can be read, the loop of the stream picks one that no other
  is newer than, and it finds one whenever there is one.
\<close>

theorem pickLatest_newest:
  assumes "\<And>e. e \<in> set es \<Longrightarrow> isJpg e \<Longrightarrow> de_ModTime e \<noteq> None"
  shows "case pickLatest es of
      None \<Rightarrow> list_all (\<lambda>e. \<not> isJpg e) es
    | Some l \<Rightarrow> l \<in> set es \<and> isJpg l \<and> list_all (\<lambda>e. isJpg e \<longrightarrow> the (de_ModTime e) \<le> the (de_ModTime l)) es"
  using assms
proof (induction es rule: rev_induct)
  case (snoc e es)
  then have IH: "case pickLatest es of
      None \<Rightarrow> list_all (\<lambda>e. \<not> isJpg e) es
    | Some l \<Rightarrow> l \<in> set es \<and> isJpg l \<and> list_all (\<lambda>e. isJpg e \<longrightarrow> the (de_ModTime e) \<le> the (de_ModTime l)) es" by simp
  have step: "pickLatest (es @ [e]) = (if \<not> isJpg e then pickLatest es
      else case pickLatest es of None \<Rightarrow> Some e | Some b \<Rightarrow> if newer e b then Some e else pickLatest es)"
    unfolding pickLatest_def by (simp add: pickLatest_def cong: option.case_cong if_cong)
  show ?case
  proof (cases "isJpg e")
    case True
    then obtain t where t: "de_ModTime e = Some t" using snoc.prems [of e] by auto
    show ?thesis
    proof (cases "pickLatest es")
      case (Some b)
      then obtain t' where "de_ModTime b = Some t'" using IH snoc.prems [of b] by auto
      then show ?thesis using IH Some True t by (fastforce simp: step newer_def list_all_iff)
    qed (use IH True step in \<open>auto simp: list_all_iff\<close>)
  qed (use IH step in \<open>auto split: option.splits simp: list_all_iff\<close>)
qed (simp add: pickLatest_def)

theorem pickLatest_newest_witness:
  "case pickLatest [\<lparr>de_Name = ''1.jpg'', de_IsDir = False, de_ModTime = Some 5\<rparr>, \<lparr>de_Name = ''2.jpg'', de_IsDir = False, de_ModTime = Some 9\<rparr>] of
      None \<Rightarrow> False | Some l \<Rightarrow> de_ModTime l = Some 9"
proof -
  define es :: "dir_entry list" where
    "es = [\<lparr>de_Name = ''1.jpg'', de_IsDir = False, de_ModTime = Some 5\<rparr>, \<lparr>de_Name = ''2.jpg'', de_IsDir = False, de_ModTime = Some 9\<rparr>]"
  have jpg: "list_all isJpg es" by (simp add: es_def isJpg_def hasSuffix_def)
  then have "case pickLatest es of
      None \<Rightarrow> list_all (\<lambda>e. \<not> isJpg e) es
    | Some l \<Rightarrow> l \<in> set es \<and> isJpg l \<and> list_all (\<lambda>e. isJpg e \<longrightarrow> the (de_ModTime e) \<le> the (de_ModTime l)) es"
    by (intro pickLatest_newest) (auto simp: es_def)
  then have "case pickLatest es of None \<Rightarrow> False | Some l \<Rightarrow> de_ModTime l = Some 9"
    using jpg by (auto simp: es_def split: option.splits)
  then show ?thesis by (simp add: es_def)
qed

end
