(* ===== verification/Qlog_Viewer.thy ===== *)
theory Qlog_Viewer
  imports Float64 "HOL-Library.Sublist"
begin

text \<open>
  \<^verbatim>\<open>internal/qlogviewer\<close> and the event endpoint of \<^verbatim>\<open>cmd/qlogviewer\<close>: connection events are turned into
  messages and broadcast to the web socket clients. Every client has a channel of 256 messages; a message
  that does not fit is dropped. The handlers of the clients and the producers of events run concurrently and
  share the collector: a broadcast sends to one channel after the other under a read lock that other broadcasts
  may hold at the same time, so the steps of a transition system are the single sends. The JSON
  encoder, the web socket library and the clock are arguments.
\<close>

section \<open>Events\<close>

definition EventConnStarted :: string where "EventConnStarted = ''conn_started''"
definition EventConnClosed :: string where "EventConnClosed = ''conn_closed''"
definition EventPacketSent :: string where "EventPacketSent = ''packet_sent''"
definition EventPacketRecv :: string where "EventPacketRecv = ''packet_recv''"
definition EventUpdatedMetrics :: string where "EventUpdatedMetrics = ''metrics''"
definition EventPacketAcked :: string where "EventPacketAcked = ''packet_acked''"
definition EventPacketLost :: string where "EventPacketLost = ''packet_lost''"

record packet_info =
  pi_PacketNumber :: int
  pi_Size :: int
  pi_EncLevel :: string
  pi_FrameCount :: int
  pi_DestConnID :: string

record metrics_info =
  mi_SmoothedRTT :: real
  mi_CongestionWind :: int
  mi_BytesInFlight :: int
  mi_PacketsInFlight :: int

record conn_info =
  ci_LocalAddr :: string
  ci_RemoteAddr :: string
  ci_SrcConnID :: string
  ci_DestConnID :: string

text \<open>The payloads: the structures above, the maps the callbacks build, and what an external producer posts.\<close>

datatype map_value = NumValue int | StrValue string

datatype payload =
    ConnPayload conn_info
  | PacketPayload packet_info
  | MetricsPayload metrics_info
  | MapPayload "(string \<times> map_value) list"
  | ExternalPayload string

record event =
  ev_Time :: real
  ev_Type :: string
  ev_PathID :: "32 word"
  ev_Payload :: payload

text \<open>\<open>msSinceRef\<close>, from the microseconds since the reference time.\<close>

definition msSinceRef :: "int \<Rightarrow> real" where
  "msSinceRef micros = fl64 (fl64 (of_int micros) / 1000)"

text \<open>The callbacks that \<open>TraceAll\<close> registers, with the arguments they use.\<close>

datatype callback =
    StartedConnection string string string string
  | ClosedConnection "string option"
  | SentLongHeaderPacket int string int int
  | SentShortHeaderPacket int int int
  | ReceivedLongHeaderPacket int string int int
  | ReceivedShortHeaderPacket int int int
  | UpdatedMetrics int int int int
  | AcknowledgedPacket string int
  | LostPacket string int string
  | DebugMessage string string

definition packetEvent :: "real \<Rightarrow> string \<Rightarrow> int \<Rightarrow> int \<Rightarrow> string \<Rightarrow> int \<Rightarrow> event" where
  "packetEvent t ty pn sz level frames =
     \<lparr>ev_Time = t, ev_Type = ty, ev_PathID = 0,
      ev_Payload = PacketPayload \<lparr>pi_PacketNumber = pn, pi_Size = sz, pi_EncLevel = level, pi_FrameCount = frames, pi_DestConnID = []\<rparr>\<rparr>"

fun TraceAll :: "real \<Rightarrow> callback \<Rightarrow> event" where
  "TraceAll t (StartedConnection lcl rmt src dst) =
     \<lparr>ev_Time = t, ev_Type = EventConnStarted, ev_PathID = 0,
      ev_Payload = ConnPayload \<lparr>ci_LocalAddr = lcl, ci_RemoteAddr = rmt, ci_SrcConnID = src, ci_DestConnID = dst\<rparr>\<rparr>"
| "TraceAll t (ClosedConnection err) =
     \<lparr>ev_Time = t, ev_Type = EventConnClosed, ev_PathID = 0,
      ev_Payload = MapPayload [(''error'', StrValue (case err of None \<Rightarrow> [] | Some e \<Rightarrow> e))]\<rparr>"
| "TraceAll t (SentLongHeaderPacket pn ty sz frames) = packetEvent t EventPacketSent pn sz ty frames"
| "TraceAll t (SentShortHeaderPacket pn sz frames) = packetEvent t EventPacketSent pn sz ''1-RTT'' frames"
| "TraceAll t (ReceivedLongHeaderPacket pn ty sz frames) = packetEvent t EventPacketRecv pn sz ty frames"
| "TraceAll t (ReceivedShortHeaderPacket pn sz frames) = packetEvent t EventPacketRecv pn sz ''1-RTT'' frames"
| "TraceAll t (UpdatedMetrics srttMicros cwnd inFlight packets) =
     \<lparr>ev_Time = t, ev_Type = EventUpdatedMetrics, ev_PathID = 0,
      ev_Payload = MetricsPayload \<lparr>mi_SmoothedRTT = fl64 (of_int srttMicros), mi_CongestionWind = cwnd,
        mi_BytesInFlight = inFlight, mi_PacketsInFlight = packets\<rparr>\<rparr>"
| "TraceAll t (AcknowledgedPacket level pn) =
     \<lparr>ev_Time = t, ev_Type = EventPacketAcked, ev_PathID = 0,
      ev_Payload = MapPayload [(''pn'', NumValue pn), (''enc_level'', StrValue level)]\<rparr>"
| "TraceAll t (LostPacket level pn reason) =
     \<lparr>ev_Time = t, ev_Type = EventPacketLost, ev_PathID = 0,
      ev_Payload = MapPayload [(''pn'', NumValue pn), (''enc_level'', StrValue level), (''reason'', StrValue reason)]\<rparr>"
| "TraceAll t (DebugMessage name msg) =
     \<lparr>ev_Time = t, ev_Type = ''debug'', ev_PathID = 0,
      ev_Payload = MapPayload [(''name'', StrValue name), (''msg'', StrValue msg)]\<rparr>"

section \<open>The collector\<close>

text \<open>
  A channel is known by a number; \<open>chans\<close> holds the messages waiting in each. The channel's capacity is fixed
  where the web socket handler makes it.
\<close>

type_synonym chan = nat
type_synonym message = string

record collector =
  clients :: "chan list"
  chans :: "chan \<Rightarrow> message list"

definition chanCap :: nat where "chanCap = 256"

definition NewCollector :: collector where
  "NewCollector = \<lparr>clients = [], chans = \<lambda>_. []\<rparr>"

definition Subscribe :: "chan \<Rightarrow> collector \<Rightarrow> collector" where
  "Subscribe ch c = c\<lparr>clients := clients c @ [ch]\<rparr>"

definition Unsubscribe :: "chan \<Rightarrow> collector \<Rightarrow> collector" where
  "Unsubscribe ch c = c\<lparr>clients := remove1 ch (clients c)\<rparr>"

text \<open>The send with \<open>default\<close>: a full channel drops the message.\<close>

definition trySend :: "message \<Rightarrow> (chan \<Rightarrow> message list) \<Rightarrow> chan \<Rightarrow> (chan \<Rightarrow> message list)" where
  "trySend data cs ch = (if length (cs ch) < chanCap then cs(ch := cs ch @ [data]) else cs)"

definition BroadcastEvent :: "(event \<Rightarrow> message option) \<Rightarrow> event \<Rightarrow> collector \<Rightarrow> collector" where
  "BroadcastEvent marshal ev c =
     (case marshal ev of None \<Rightarrow> c | Some data \<Rightarrow> c\<lparr>chans := foldl (trySend data) (chans c) (clients c)\<rparr>)"

text \<open>The loop of a broadcast from its first channel to its last; what others do in between comes below.\<close>

definition broadcast :: "(event \<Rightarrow> message option) \<Rightarrow> event \<Rightarrow> collector \<Rightarrow> collector" where
  "broadcast marshal ev c =
     (case marshal ev of None \<Rightarrow> c | Some data \<Rightarrow> c\<lparr>chans := foldl (trySend data) (chans c) (clients c)\<rparr>)"

text \<open>The endpoint \<open>/api/event\<close>: the method, the decoded body or the decoder's error, and the clock in milliseconds.\<close>

definition apiEvent :: "(event \<Rightarrow> message option) \<Rightarrow> int \<Rightarrow> string \<Rightarrow> string + event \<Rightarrow> collector \<Rightarrow> collector \<times> int" where
  "apiEvent marshal unixMilli method body c =
     (if method \<noteq> ''POST'' then (c, 405)
      else case body of
          Inl _ \<Rightarrow> (c, 400)
        | Inr ev \<Rightarrow>
            let ev = (if ev_Time ev = 0 then ev\<lparr>ev_Time := fl64 (of_int unixMilli)\<rparr> else ev)
            in (BroadcastEvent marshal ev c, 204))"

section \<open>Handlers and producers together\<close>

text \<open>
  Where the handler of a client, known by its channel, is in \<open>ServeHTTP\<close>: not started, subscribed and about to send the
  greeting, in the loop, out of the loop and about to unsubscribe, finished.
\<close>

datatype ws_state = NotMade | Greeting | Serving | Leaving | Gone

type_synonym producer = nat

text \<open>
  The state of the viewer: the collector, the handlers, what was written to each client, the number of channels made,
  and the producers that hold the read lock, each with its message and the channels its loop has not reached.
  The last three fields only observe: the messages of all broadcasts so far with their producers, in the order of the
  locks; how many there were when a client subscribed; and the messages that entered each channel.
\<close>

record viewer =
  col :: collector
  wsState :: "chan \<Rightarrow> ws_state"
  written :: "chan \<Rightarrow> message list"
  made :: nat
  sending :: "producer \<Rightarrow> (message \<times> chan list) option"
  hist :: "(producer \<times> message) list"
  since :: "chan \<Rightarrow> nat"
  accepted :: "chan \<Rightarrow> (producer \<times> message) list"

definition hello :: message where
  "hello = [CHR 0x7B, CHR 0x22] @ ''type'' @ [CHR 0x22, CHR '':'', CHR 0x22] @ ''hello'' @ [CHR 0x22, CHR 0x7D]"

definition viewer_start :: viewer where
  "viewer_start = \<lparr>col = NewCollector, wsState = \<lambda>_. NotMade, written = \<lambda>_. [], made = 0, sending = \<lambda>_. None,
     hist = [], since = \<lambda>_. 0, accepted = \<lambda>_. []\<rparr>"

definition ws_subscribe :: "viewer \<Rightarrow> viewer" where
  "ws_subscribe v = (let ch = made v in
     v\<lparr>made := Suc ch, col := Subscribe ch (col v), wsState := (wsState v)(ch := Greeting), since := (since v)(ch := length (hist v))\<rparr>)"

text \<open>The error of writing the greeting is ignored.\<close>

definition ws_greet :: "bool \<Rightarrow> chan \<Rightarrow> viewer \<Rightarrow> viewer" where
  "ws_greet ok ch v = v\<lparr>wsState := (wsState v)(ch := Serving), written := (if ok then (written v)(ch := written v ch @ [hello]) else written v)\<rparr>"

definition ws_receive :: "chan \<Rightarrow> viewer \<Rightarrow> viewer" where
  "ws_receive ch v = v\<lparr>col := (col v)\<lparr>chans := (chans (col v))(ch := tl (chans (col v) ch))\<rparr>\<rparr>"

definition ws_write :: "chan \<Rightarrow> viewer \<Rightarrow> viewer" where
  "ws_write ch v = (ws_receive ch v)\<lparr>written := (written v)(ch := written v ch @ [hd (chans (col v) ch)])\<rparr>"

definition ws_stop :: "chan \<Rightarrow> viewer \<Rightarrow> viewer" where
  "ws_stop ch v = v\<lparr>wsState := (wsState v)(ch := Leaving)\<rparr>"

definition ws_unsubscribe :: "chan \<Rightarrow> viewer \<Rightarrow> viewer" where
  "ws_unsubscribe ch v = v\<lparr>col := Unsubscribe ch (col v), wsState := (wsState v)(ch := Gone)\<rparr>"

text \<open>The start of a broadcast with the read lock, one round of its loop, and its end.\<close>

definition bc_start :: "producer \<Rightarrow> message \<Rightarrow> viewer \<Rightarrow> viewer" where
  "bc_start p data v = v\<lparr>sending := (sending v)(p := Some (data, clients (col v))), hist := hist v @ [(p, data)]\<rparr>"

definition bc_send :: "producer \<Rightarrow> message \<Rightarrow> chan \<Rightarrow> chan list \<Rightarrow> viewer \<Rightarrow> viewer" where
  "bc_send p data ch rest v = v\<lparr>sending := (sending v)(p := Some (data, rest)), col := (col v)\<lparr>chans := trySend data (chans (col v)) ch\<rparr>,
     accepted := (if length (chans (col v) ch) < chanCap then (accepted v)(ch := accepted v ch @ [(p, data)]) else accepted v)\<rparr>"

definition bc_done :: "producer \<Rightarrow> viewer \<Rightarrow> viewer" where
  "bc_done p v = v\<lparr>sending := (sending v)(p := None)\<rparr>"

definition unlocked :: "viewer \<Rightarrow> bool" where
  "unlocked v \<longleftrightarrow> (\<forall>p. sending v p = None)"

text \<open>
  The read lock of the broadcasts is shared, so their rounds interleave; \<open>Subscribe\<close> and \<open>Unsubscribe\<close> take the lock alone.
\<close>

inductive viewer_step :: "(event \<Rightarrow> message option) \<Rightarrow> viewer \<Rightarrow> viewer \<Rightarrow> bool" for marshal where
  step_subscribe: "unlocked v \<Longrightarrow> viewer_step marshal v (ws_subscribe v)"
| step_greet: "wsState v ch = Greeting \<Longrightarrow> viewer_step marshal v (ws_greet ok ch v)"
| step_deliver: "wsState v ch = Serving \<Longrightarrow> chans (col v) ch \<noteq> [] \<Longrightarrow> viewer_step marshal v (ws_write ch v)"
| step_write_error: "wsState v ch = Serving \<Longrightarrow> chans (col v) ch \<noteq> [] \<Longrightarrow> viewer_step marshal v (ws_stop ch (ws_receive ch v))"
| step_done: "wsState v ch = Serving \<Longrightarrow> viewer_step marshal v (ws_stop ch v)"
| step_unsubscribe: "wsState v ch = Leaving \<Longrightarrow> unlocked v \<Longrightarrow> viewer_step marshal v (ws_unsubscribe ch v)"
| step_bc_start: "sending v p = None \<Longrightarrow> marshal ev = Some data \<Longrightarrow> viewer_step marshal v (bc_start p data v)"
| step_bc_send: "sending v p = Some (data, ch # rest) \<Longrightarrow> viewer_step marshal v (bc_send p data ch rest v)"
| step_bc_done: "sending v p = Some (data, []) \<Longrightarrow> viewer_step marshal v (bc_done p v)"

inductive_simps viewer_step_iff: "viewer_step marshal v v'"

section \<open>A broadcast on its own\<close>

lemma bc_sends:
  "sending v p = Some (data, rest) \<Longrightarrow>
   \<exists>v'. (viewer_step marshal)\<^sup>*\<^sup>* v v' \<and> sending v' p = Some (data, []) \<and> col v' = (col v)\<lparr>chans := foldl (trySend data) (chans (col v)) rest\<rparr>"
proof (induction rest arbitrary: v)
  case (Cons ch rest)
  have "sending (bc_send p data ch rest v) p = Some (data, rest)" by (simp add: bc_send_def)
  from Cons.IH [OF this] show ?case
    using step_bc_send [OF Cons.prems, of marshal] by (auto simp: bc_send_def intro: converse_rtranclp_into_rtranclp)
qed (auto intro!: exI)

text \<open>The steps of a broadcast that nothing interrupts do what the function does, and the two broadcast functions of the source are one.\<close>

lemma solo_broadcast:
  assumes "sending v p = None" and "marshal ev = Some data"
  shows "\<exists>v'. (viewer_step marshal)\<^sup>*\<^sup>* v v' \<and> sending v' p = None \<and> col v' = broadcast marshal ev (col v)"
proof -
  have "sending (bc_start p data v) p = Some (data, clients (col v))" by (simp add: bc_start_def)
  from bc_sends [OF this, of marshal] obtain v' where v': "(viewer_step marshal)\<^sup>*\<^sup>* (bc_start p data v) v'" "sending v' p = Some (data, [])"
    "col v' = broadcast marshal ev (col v)"
    using assms(2) by (auto simp: bc_start_def broadcast_def)
  have "viewer_step marshal v (bc_start p data v)" "viewer_step marshal v' (bc_done p v')"
    using assms v'(2) by (auto intro: step_bc_start step_bc_done)
  then have "(viewer_step marshal)\<^sup>*\<^sup>* v (bc_done p v')" using v'(1) by (meson converse_rtranclp_into_rtranclp rtranclp.rtrancl_into_rtrancl)
  then show ?thesis using v'(3) by (intro exI [of _ "bc_done p v'"]) (simp add: bc_done_def)
qed

lemma BroadcastEvent_broadcast: "BroadcastEvent marshal ev c = broadcast marshal ev c"
  by (simp add: BroadcastEvent_def broadcast_def)

section \<open>The invariant\<close>

text \<open>What producer \<open>p\<close> is about to offer to the channel.\<close>

definition offer :: "viewer \<Rightarrow> producer \<Rightarrow> chan \<Rightarrow> (producer \<times> message) list" where
  "offer v p ch = (case sending v p of None \<Rightarrow> [] | Some (data, rest) \<Rightarrow> if ch \<in> set rest then [(p, data)] else [])"

abbreviation of_producer :: "producer \<Rightarrow> (producer \<times> message) list \<Rightarrow> (producer \<times> message) list" where
  "of_producer p \<equiv> filter (\<lambda>m. fst m = p)"

text \<open>The messages of each producer in the channel are in order, with room for the one it is about to offer.\<close>

definition order_ok :: "viewer \<Rightarrow> chan \<Rightarrow> bool" where
  "order_ok v ch \<longleftrightarrow> since v ch \<le> length (hist v) \<and>
     (\<forall>p. subseq (of_producer p (accepted v ch) @ offer v p ch) (of_producer p (drop (since v ch) (hist v))))"

text \<open>What was written is the greeting, unless that failed, and what came out of the channel.\<close>

fun progress :: "ws_state \<Rightarrow> message list \<Rightarrow> message list \<Rightarrow> message list \<Rightarrow> bool" where
  "progress NotMade w a c \<longleftrightarrow> w = [] \<and> a = [] \<and> c = []"
| "progress Greeting w a c \<longleftrightarrow> w = [] \<and> a = c"
| "progress Serving w a c \<longleftrightarrow> (\<exists>ms. (w = ms \<or> w = hello # ms) \<and> a = ms @ c)"
| "progress _ w a c \<longleftrightarrow> (\<exists>ms. (w = ms \<or> w = hello # ms) \<and> prefix ms a)"

definition output_ok :: "viewer \<Rightarrow> chan \<Rightarrow> bool" where
  "output_ok v ch \<longleftrightarrow> progress (wsState v ch) (written v ch) (map snd (accepted v ch)) (chans (col v) ch)"

definition subscribed :: "viewer \<Rightarrow> chan set" where
  "subscribed v = {ch. wsState v ch \<in> {Greeting, Serving, Leaving}}"

definition table_ok :: "viewer \<Rightarrow> bool" where
  "table_ok v \<longleftrightarrow> distinct (clients (col v)) \<and> set (clients (col v)) = subscribed v \<and> (\<forall>ch. made v \<le> ch \<longrightarrow> wsState v ch = NotMade) \<and>
     (\<forall>ch. length (chans (col v) ch) \<le> chanCap) \<and>
     (\<forall>p data rest. sending v p = Some (data, rest) \<longrightarrow> distinct rest \<and> set rest \<subseteq> subscribed v)"

definition viewer_inv :: "viewer \<Rightarrow> bool" where
  "viewer_inv v \<longleftrightarrow> table_ok v \<and> (\<forall>ch. order_ok v ch \<and> output_ok v ch)"

lemmas step_defs = ws_subscribe_def ws_greet_def ws_receive_def ws_write_def ws_stop_def ws_unsubscribe_def bc_start_def bc_send_def bc_done_def
  Subscribe_def Unsubscribe_def trySend_def unlocked_def Let_def

lemma viewer_inv_start: "viewer_inv viewer_start"
  by (auto simp: viewer_inv_def table_ok_def order_ok_def output_ok_def offer_def subscribed_def viewer_start_def NewCollector_def)

section \<open>Every step keeps the invariant\<close>

lemma table_ok_subscribe: "table_ok v \<Longrightarrow> unlocked v \<Longrightarrow> table_ok (ws_subscribe v)"
  unfolding table_ok_def subscribed_def by (auto simp: step_defs)

lemma table_ok_same:
  assumes "table_ok v" and "clients (col v') = clients (col v)" and "subscribed v' = subscribed v" and "made v' = made v" and "sending v' = sending v"
    and "\<And>ch. wsState v ch = NotMade \<Longrightarrow> wsState v' ch = NotMade" and "\<And>ch. length (chans (col v') ch) \<le> max chanCap (length (chans (col v) ch))"
  shows "table_ok v'"
proof -
  have "length (chans (col v') ch) \<le> chanCap" for ch
    using assms(1) assms(7) [of ch] unfolding table_ok_def by (metis max.absorb1)
  then show ?thesis using assms(1-6) unfolding table_ok_def by simp
qed

lemma table_ok_handler:
  assumes "table_ok v"
  shows "wsState v ch = Greeting \<Longrightarrow> table_ok (ws_greet ok ch v)" and "table_ok (ws_receive ch v)" and "wsState v ch = Serving \<Longrightarrow> table_ok (ws_stop ch v)"
    and "table_ok (ws_write ch v)" and "wsState v ch = Serving \<Longrightarrow> table_ok (ws_stop ch (ws_receive ch v))"
  by (rule table_ok_same [OF assms]; force simp: step_defs subscribed_def)+

lemma table_ok_unsubscribe:
  assumes "table_ok v" and "wsState v ch = Leaving" and "unlocked v"
  shows "table_ok (ws_unsubscribe ch v)"
  using assms unfolding table_ok_def subscribed_def by (auto simp: step_defs set_remove1_eq)

lemma table_ok_bc:
  assumes "table_ok v"
  shows "table_ok (bc_start p data v)" and "table_ok (bc_done p v)"
  using assms unfolding table_ok_def subscribed_def by (auto simp: step_defs)

lemma table_ok_send:
  assumes "table_ok v" and "sending v p = Some (data, ch # rest)"
  shows "table_ok (bc_send p data ch rest v)"
proof -
  let ?v = "bc_send p data ch rest v"
  have same: "clients (col ?v) = clients (col v)" "subscribed ?v = subscribed v" "made ?v = made v" "wsState ?v = wsState v"
    by (simp_all add: step_defs subscribed_def)
  have "distinct (ch # rest)" "set (ch # rest) \<subseteq> subscribed v" using assms unfolding table_ok_def by blast+
  then have "distinct rest' \<and> set rest' \<subseteq> subscribed v" if "sending ?v q = Some (data', rest')" for q data' rest'
    using that assms(1) unfolding table_ok_def by (cases "q = p") (auto simp: bc_send_def)
  moreover have "length (chans (col ?v) k) \<le> chanCap" for k
    using assms(1) unfolding table_ok_def by (simp add: bc_send_def trySend_def)
  ultimately show ?thesis using assms(1) unfolding table_ok_def same by blast
qed

lemma order_ok_same: "order_ok v ch \<Longrightarrow> since v' ch = since v ch \<Longrightarrow> hist v' = hist v \<Longrightarrow> accepted v' ch = accepted v ch \<Longrightarrow> sending v' = sending v \<Longrightarrow> order_ok v' ch"
  by (simp add: order_ok_def offer_def)

lemma order_ok_handler:
  assumes "order_ok v k"
  shows "order_ok (ws_greet ok ch v) k" and "order_ok (ws_receive ch v) k" and "order_ok (ws_stop ch v) k" and "order_ok (ws_write ch v) k"
    and "order_ok (ws_unsubscribe ch v) k"
  by (rule order_ok_same [OF assms]; simp add: step_defs)+

lemma order_ok_subscribe:
  assumes "order_ok v k" and "accepted v (made v) = []" and "unlocked v"
  shows "order_ok (ws_subscribe v) k"
  using assms by (cases "k = made v") (auto simp: order_ok_def offer_def step_defs)

lemma order_ok_start:
  assumes "order_ok v k" and "sending v p = None"
  shows "order_ok (bc_start p data v) k"
proof -
  have old: "subseq (of_producer q (accepted v k) @ offer v q k) (of_producer q (drop (since v k) (hist v)))" for q
    using assms(1) by (simp add: order_ok_def)
  have "subseq (of_producer p (accepted v k) @ offer (bc_start p data v) p k) (of_producer p (drop (since v k) (hist v)) @ [(p, data)])"
    using list_emb_append_mono [OF old [of p], of "offer (bc_start p data v) p k" "[(p, data)]"] assms(2)
    by (simp add: offer_def bc_start_def)
  moreover have "offer (bc_start p data v) q k = offer v q k" if "q \<noteq> p" for q using that by (simp add: offer_def bc_start_def)
  ultimately have "subseq (of_producer q (accepted v k) @ offer (bc_start p data v) q k)
      (of_producer q (drop (since v k) (hist v)) @ (if q = p then [(p, data)] else []))" for q
    using old by (cases "q = p") simp_all
  moreover have "of_producer q (drop (since v k) (hist (bc_start p data v))) =
      of_producer q (drop (since v k) (hist v)) @ (if q = p then [(p, data)] else [])" for q
    using assms(1) by (simp add: order_ok_def bc_start_def)
  moreover have "since (bc_start p data v) = since v" "accepted (bc_start p data v) = accepted v" "length (hist v) \<le> length (hist (bc_start p data v))"
    by (simp_all add: bc_start_def)
  ultimately show ?thesis using assms(1) by (simp only: order_ok_def) (meson order.trans)
qed

lemma order_ok_send:
  assumes "order_ok v k" and "sending v p = Some (data, ch # rest)" and "distinct (ch # rest)"
  shows "order_ok (bc_send p data ch rest v) k"
proof -
  let ?v = "bc_send p data ch rest v"
  have "subseq (of_producer q (accepted ?v k) @ offer ?v q k) (of_producer q (accepted v k) @ offer v q k)" for q
  proof (cases "q = p \<and> k = ch")
    case True
    then show ?thesis using assms(2,3) by (auto simp: offer_def step_defs)
  next
    case False
    then have "of_producer q (accepted ?v k) = of_producer q (accepted v k)" "offer ?v q k = offer v q k"
      using assms(2) by (auto simp: offer_def step_defs)
    then show ?thesis by simp
  qed
  moreover have "since ?v = since v" "hist ?v = hist v" by (simp_all add: step_defs)
  ultimately show ?thesis using assms(1) by (auto simp: order_ok_def intro: subseq_order.trans)
qed

lemma order_ok_done: "order_ok v k \<Longrightarrow> sending v p = Some (data, []) \<Longrightarrow> order_ok (bc_done p v) k"
proof -
  assume "order_ok v k" "sending v p = Some (data, [])"
  moreover from this have "offer (bc_done p v) q k = offer v q k" for q by (simp add: offer_def bc_done_def)
  ultimately show ?thesis by (simp add: order_ok_def bc_done_def)
qed

lemma output_ok_same:
  "output_ok v k \<Longrightarrow> wsState v' k = wsState v k \<Longrightarrow> written v' k = written v k \<Longrightarrow> accepted v' k = accepted v k \<Longrightarrow> chans (col v') k = chans (col v) k \<Longrightarrow> output_ok v' k"
  by (simp add: output_ok_def)

lemma output_ok_other:
  assumes "output_ok v k" and "k \<noteq> ch"
  shows "output_ok (ws_greet ok ch v) k" and "output_ok (ws_receive ch v) k" and "output_ok (ws_stop ch v) k" and "output_ok (ws_write ch v) k"
    and "output_ok (ws_unsubscribe ch v) k" and "output_ok (ws_stop ch (ws_receive ch v)) k"
  by (rule output_ok_same [OF assms(1)]; use assms(2) in \<open>simp add: step_defs\<close>)+

lemma output_ok_subscribe: "output_ok v k \<Longrightarrow> wsState v (made v) = NotMade \<Longrightarrow> output_ok (ws_subscribe v) k"
  by (cases "k = made v") (auto simp: output_ok_def step_defs)

lemma output_ok_greet: "output_ok v k \<Longrightarrow> wsState v ch = Greeting \<Longrightarrow> output_ok (ws_greet ok ch v) k"
  by (cases "k = ch") (simp_all add: output_ok_other, simp add: output_ok_def step_defs)

lemma output_ok_deliver:
  assumes "output_ok v k" and "wsState v ch = Serving" and "chans (col v) ch \<noteq> []"
  shows "output_ok (ws_write ch v) k" and "output_ok (ws_stop ch (ws_receive ch v)) k"
proof -
  obtain m ms where m: "chans (col v) ch = m # ms" using assms(3) by (cases "chans (col v) ch") auto
  have "output_ok (ws_write ch v) ch \<and> output_ok (ws_stop ch (ws_receive ch v)) ch" if "output_ok v ch"
    using that assms(2) by (auto simp: output_ok_def step_defs m prefix_def)
  then show "output_ok (ws_write ch v) k" and "output_ok (ws_stop ch (ws_receive ch v)) k"
    using assms(1) by (cases "k = ch"; simp add: output_ok_other)+
qed

lemma output_ok_end:
  assumes "output_ok v k"
  shows "wsState v ch = Serving \<Longrightarrow> output_ok (ws_stop ch v) k" and "wsState v ch = Leaving \<Longrightarrow> output_ok (ws_unsubscribe ch v) k"
  by (cases "k = ch"; use assms in \<open>simp add: output_ok_other\<close>; auto simp: output_ok_def step_defs prefix_def)+

lemma output_ok_bc:
  assumes "output_ok v k"
  shows "output_ok (bc_start p data v) k" and "output_ok (bc_done p v) k"
  by (rule output_ok_same [OF assms]; simp add: step_defs)+

lemma progress_grow: "progress s w a c \<Longrightarrow> s \<in> {Greeting, Serving, Leaving} \<Longrightarrow> progress s w (a @ [m]) (c @ [m])"
  by (cases s) (auto intro: prefix_prefix)

lemma progress_prefix: "progress s w a c \<Longrightarrow> \<exists>ms. (w = ms \<or> w = hello # ms) \<and> prefix ms a"
  by (cases s) (auto simp: prefix_def)

lemma output_ok_send:
  assumes "output_ok v k" and "wsState v ch \<in> {Greeting, Serving, Leaving}"
  shows "output_ok (bc_send p data ch rest v) k"
proof (cases "k = ch \<and> length (chans (col v) ch) < chanCap")
  case True
  then show ?thesis using assms progress_grow by (simp add: output_ok_def bc_send_def trySend_def)
next
  case False
  then show ?thesis by (intro output_ok_same [OF assms(1)]) (auto simp: step_defs)
qed

lemma viewer_inv_step:
  assumes "viewer_inv v" and "viewer_step marshal v v'"
  shows "viewer_inv v'"
proof -
  have t: "table_ok v" and o: "\<And>k. order_ok v k" and w: "\<And>k. output_ok v k" using assms(1) by (simp_all add: viewer_inv_def)
  have fresh: "wsState v (made v) = NotMade" using t by (simp add: table_ok_def)
  then have empty: "accepted v (made v) = []" using w [of "made v"] by (auto simp: output_ok_def)
  from assms(2) show ?thesis
  proof cases
    case (step_bc_send p data ch rest)
    then have "distinct (ch # rest)" "wsState v ch \<in> {Greeting, Serving, Leaving}"
      using t unfolding table_ok_def subscribed_def by (metis, fastforce)
    then show ?thesis using step_bc_send t o w by (simp add: viewer_inv_def table_ok_send order_ok_send output_ok_send)
  qed (use t o w fresh empty in \<open>auto simp: viewer_inv_def table_ok_subscribe table_ok_handler table_ok_unsubscribe table_ok_bc
      order_ok_subscribe order_ok_handler order_ok_start order_ok_done
      output_ok_subscribe output_ok_greet output_ok_deliver output_ok_end output_ok_bc\<close>)
qed

interpretation viewer: invariant_system "\<lambda>v. v = viewer_start" "viewer_step marshal" viewer_inv for marshal
  by unfold_locales (auto simp: viewer_inv_start intro: viewer_inv_step)

lemma distinct_count_list: "distinct xs \<Longrightarrow> x \<in> set xs \<Longrightarrow> count_list xs x = 1"
  by (induction xs) (auto simp: count_list_0_iff)

text \<open>
  C13: in every reachable state of the viewer, under any interleaving of clients that come and go, of broadcasts that
  hold the read lock together, and of deliveries: no channel holds more than 256 messages, so a slow client cannot
  exhaust the memory; a client that is being served is subscribed exactly once; and what was ever written to a client
  is the greeting, unless writing it failed, followed by a log of messages from its channel such that the messages of
  each producer are messages that producer broadcast after the client subscribed, in their order, none twice and none
  made up (some may be missing when the channel was full). Between producers no order is promised.
\<close>

theorem viewer_delivers_in_order:
  assumes "reach (\<lambda>v. v = viewer_start) (viewer_step marshal) v"
  shows "length (chans (col v) ch) \<le> 256 \<and> (wsState v ch = Serving \<longrightarrow> count_list (clients (col v)) ch = 1) \<and>
    (\<exists>log. (written v ch = map snd log \<or> written v ch = hello # map snd log) \<and> prefix log (accepted v ch) \<and>
      (\<forall>p. subseq (of_producer p log) (of_producer p (drop (since v ch) (hist v)))))"
proof -
  have "viewer_inv v" using assms by (rule viewer.reach_inv)
  then have t: "table_ok v" and o: "order_ok v ch" and w: "output_ok v ch" by (simp_all add: viewer_inv_def)
  obtain ms where ms: "written v ch = ms \<or> written v ch = hello # ms" "prefix ms (map snd (accepted v ch))"
    using progress_prefix [OF w [unfolded output_ok_def]] by blast
  then obtain log where log: "prefix log (accepted v ch)" "ms = map snd log"
    by (metis prefix_def append_eq_map_conv)
  have "subseq (of_producer p log) (of_producer p (accepted v ch) @ offer v p ch)" for p
    using log(1) by (auto simp: prefix_def)
  then have "\<forall>p. subseq (of_producer p log) (of_producer p (drop (since v ch) (hist v)))"
    using o unfolding order_ok_def by (meson subseq_order.trans)
  moreover have "wsState v ch = Serving \<longrightarrow> count_list (clients (col v)) ch = 1"
    using t by (auto simp: table_ok_def subscribed_def distinct_count_list)
  moreover have "length (chans (col v) ch) \<le> 256" using t by (simp add: table_ok_def chanCap_def)
  ultimately show ?thesis using ms(1) log by blast
qed

section \<open>Two producers\<close>

text \<open>A run as a list of operations, and that each is a step.\<close>

fun run_from :: "(viewer \<Rightarrow> viewer) list \<Rightarrow> viewer \<Rightarrow> viewer" where
  "run_from [] v = v"
| "run_from (f # fs) v = run_from fs (f v)"

fun valid_run :: "(viewer \<Rightarrow> viewer \<Rightarrow> bool) \<Rightarrow> (viewer \<Rightarrow> viewer) list \<Rightarrow> viewer \<Rightarrow> bool" where
  "valid_run step [] v \<longleftrightarrow> True"
| "valid_run step (f # fs) v \<longleftrightarrow> step v (f v) \<and> valid_run step fs (f v)"

lemma valid_run_reach: "reach I step v \<Longrightarrow> valid_run step fs v \<Longrightarrow> reach I step (run_from fs v)"
  by (induction fs arbitrary: v) (auto intro: reach_step)

text \<open>Two clients come; two producers send to them at the same time, and the channels are emptied.\<close>

definition crossing :: "message \<Rightarrow> message \<Rightarrow> (viewer \<Rightarrow> viewer) list" where
  "crossing a b = [ws_subscribe, ws_greet True 0, ws_subscribe, ws_greet True 1,
     bc_start 0 a, bc_start 1 b, bc_send 0 a 0 [1], bc_send 1 b 0 [1], bc_send 1 b 1 [], bc_send 0 a 1 [], bc_done 0, bc_done 1,
     ws_write 0, ws_write 0, ws_write 1, ws_write 1]"

lemma crossing_valid:
  assumes "marshal e1 = Some a" and "marshal e2 = Some b"
  shows "valid_run (viewer_step marshal) (crossing a b) viewer_start"
  unfolding crossing_def valid_run.simps
  by (intro conjI TrueI step_subscribe step_greet step_bc_start [where marshal = marshal, of _ _ e1 a, OF _ assms(1)] step_bc_start [where marshal = marshal, of _ _ e2 b, OF _ assms(2)] step_bc_send step_bc_done step_deliver;
      simp add: step_defs viewer_start_def NewCollector_def chanCap_def)

lemma crossing_result:
  "written (run_from (crossing a b) viewer_start) = (\<lambda>_. [])(0 := [hello, a, b], 1 := [hello, b, a])"
  "wsState (run_from (crossing a b) viewer_start) = (\<lambda>_. NotMade)(0 := Serving, 1 := Serving)"
  "hist (run_from (crossing a b) viewer_start) = [(0, a), (1, b)]" "since (run_from (crossing a b) viewer_start) = (\<lambda>_. 0)"
  by (simp_all add: crossing_def step_defs viewer_start_def NewCollector_def chanCap_def fun_eq_iff)

theorem viewer_delivers_in_order_witness:
  "let v = run_from (crossing ''debug'' ''metrics'') viewer_start in
   length (chans (col v) 1) \<le> 256 \<and> count_list (clients (col v)) 1 = 1 \<and>
   (\<exists>log. (written v 1 = map snd log \<or> written v 1 = hello # map snd log) \<and> prefix log (accepted v 1) \<and>
      (\<forall>p. subseq (of_producer p log) (of_producer p (drop (since v 1) (hist v)))))"
proof -
  let ?marshal = "\<lambda>ev. Some (ev_Type ev)"
  have "?marshal (TraceAll 1 (DebugMessage ''a'' ''b'')) = Some ''debug''" "?marshal (TraceAll 1 (UpdatedMetrics 1 2 3 4)) = Some ''metrics''"
    by (simp_all add: EventUpdatedMetrics_def)
  from crossing_valid [of ?marshal, OF this]
  have "reach (\<lambda>v. v = viewer_start) (viewer_step ?marshal) (run_from (crossing ''debug'' ''metrics'') viewer_start)"
    by (rule valid_run_reach [OF reach_init, OF refl])
  from viewer_delivers_in_order [OF this, of 1] show ?thesis by (simp only: Let_def crossing_result) simp
qed

text \<open>
  C25: the order between producers is not kept. Any two events that two connections broadcast at the same time can
  reach two clients, both connected all along, in opposite orders, because the broadcasts share the read lock: the
  dashboards of the two show different sequences.
\<close>

theorem concurrent_broadcasts_reorder:
  assumes "marshal e1 = Some a" and "marshal e2 = Some b"
  shows "\<exists>v. reach (\<lambda>v. v = viewer_start) (viewer_step marshal) v \<and> wsState v 0 = Serving \<and> wsState v 1 = Serving \<and>
    since v 0 = 0 \<and> since v 1 = 0 \<and> hist v = [(0, a), (1, b)] \<and> written v 0 = [hello, a, b] \<and> written v 1 = [hello, b, a]"
proof -
  have "reach (\<lambda>v. v = viewer_start) (viewer_step marshal) (run_from (crossing a b) viewer_start)"
    by (rule valid_run_reach [OF reach_init, OF refl]) (rule crossing_valid [OF assms])
  then show ?thesis by (intro exI [of _ "run_from (crossing a b) viewer_start"]) (simp add: crossing_result)
qed

theorem concurrent_broadcasts_reorder_witness:
  "\<exists>v. reach (\<lambda>v. v = viewer_start) (viewer_step (\<lambda>ev. Some (ev_Type ev))) v \<and>
     written v 0 = [hello, ''debug'', ''metrics''] \<and> written v 1 = [hello, ''metrics'', ''debug'']"
  using concurrent_broadcasts_reorder [of "\<lambda>ev. Some (ev_Type ev)" "TraceAll 1 (DebugMessage ''a'' ''b'')" "''debug''"
      "TraceAll 1 (UpdatedMetrics 1 2 3 4)" "''metrics''"]
  by (auto simp: EventUpdatedMetrics_def)

end
