(* ===== verification/Commands.thy ===== *)
theory Commands
  imports Server Vms Qlog_Viewer
begin

text \<open>
  The programs of \<^verbatim>\<open>cmd/server\<close>, \<^verbatim>\<open>cmd/vms\<close> and \<^verbatim>\<open>cmd/qlogviewer\<close>: what their \<open>main\<close> puts together, and how the two web
  servers route a request. The router is \<open>http.ServeMux\<close> of the Go version the module declares (1.22): it works on
  the path as it was sent, percent escapes included, while the handlers see it decoded.
\<close>

section \<open>The router of the Go library\<close>

text \<open>Percent decoding of a path; \<open>None\<close> is a malformed escape, for which the request is refused.\<close>

definition hexVal :: "char \<Rightarrow> nat option" where
  "hexVal c =
     (let n = of_char c in
      if 48 \<le> n \<and> n \<le> 57 then Some (n - 48)
      else if 97 \<le> n \<and> n \<le> 102 then Some (n - 87)
      else if 65 \<le> n \<and> n \<le> 70 then Some (n - 55)
      else None)"

fun pathUnescape :: "string \<Rightarrow> string option" where
  "pathUnescape [] = Some []"
| "pathUnescape (c # s) =
     (if c \<noteq> CHR ''%'' then map_option ((#) c) (pathUnescape s)
      else
        case s of
          a # b # r \<Rightarrow>
            (case (hexVal a, hexVal b, pathUnescape r) of
               (Some x, Some y, Some t) \<Rightarrow> Some (char_of (16 * x + y) # t)
             | _ \<Rightarrow> None)
        | _ \<Rightarrow> None)"

text \<open>\<open>cleanPath\<close> of \<open>net/http\<close>: a rooted, clean path that keeps a final slash.\<close>

definition cleanPath :: "string \<Rightarrow> string" where
  "cleanPath p =
     (if p = [] then ''/''
      else
        let p = (if hd p \<noteq> CHR ''/'' then CHR ''/'' # p else p);
            np = filepathClean p
        in if last p = CHR ''/'' \<and> np \<noteq> ''/'' then np @ ''/'' else np)"

text \<open>A pattern names its segments; one that ends in a slash matches every path below it.\<close>

datatype pattern = Exact "string list" | Subtree "string list"

definition segments :: "string \<Rightarrow> string list" where
  "segments p = splitOn CHR ''/'' (tl p)"

fun matches :: "pattern \<Rightarrow> string list \<Rightarrow> bool" where
  "matches (Exact ss) segs \<longleftrightarrow> segs = ss"
| "matches (Subtree ss) segs \<longleftrightarrow> length ss < length segs \<and> take (length ss) segs = ss"

fun specificity :: "pattern \<Rightarrow> nat" where
  "specificity (Exact ss) = 2 * length ss + 1"
| "specificity (Subtree ss) = 2 * length ss"

text \<open>The handler of the most specific pattern that matches, where the segments are compared decoded.\<close>

definition muxMatch :: "(pattern \<times> 'h) list \<Rightarrow> string \<Rightarrow> 'h option" where
  "muxMatch pats p =
     (let segs = map (\<lambda>s. case pathUnescape s of Some t \<Rightarrow> t | None \<Rightarrow> s) (segments p);
          ms = filter (\<lambda>(q, h). matches q segs) pats
      in case sort_key (\<lambda>(q, h). specificity q) ms of [] \<Rightarrow> None | x # xs \<Rightarrow> Some (snd (last (x # xs))))"

datatype 'h routed = RedirectTo string | Handled 'h | NoHandler

text \<open>
  The routing of a request with the escaped path \<open>p\<close>: a subtree asked for without its slash, and a path that is
  not clean, are redirected.
\<close>

definition muxRoute :: "(pattern \<times> 'h) list \<Rightarrow> string \<Rightarrow> 'h routed" where
  "muxRoute pats p =
     (let c = cleanPath p in
      if (\<nexists>h. (Exact (segments c), h) \<in> set pats) \<and> last c \<noteq> CHR ''/'' \<and> (\<exists>h. (Subtree (segments c), h) \<in> set pats)
      then RedirectTo (c @ ''/'')
      else if c \<noteq> p then RedirectTo c
      else case muxMatch pats p of Some h \<Rightarrow> Handled h | None \<Rightarrow> NoHandler)"

section \<open>The video management server\<close>

record vms_flags =
  vf_addr :: string
  vf_frames :: string
  vf_jetson_frames :: string
  vf_ssh_key :: string

definition vmsDefaultFlags :: vms_flags where
  "vmsDefaultFlags = \<lparr>vf_addr = '':8080'', vf_frames = ''frames'', vf_jetson_frames = '''', vf_ssh_key = ''''\<rparr>"

datatype vms_handler = RemoteFrames | LocalFrames string | LatestHandler | StatsHandler | StreamHandler string string | IndexPage

definition vmsRoutes :: "bool \<Rightarrow> string \<Rightarrow> (pattern \<times> vms_handler) list" where
  "vmsRoutes isRemote absDir =
     [(Subtree [''frames''], if isRemote then RemoteFrames else LocalFrames absDir),
      (Exact [''api'', ''latest''], LatestHandler),
      (Exact [''api'', ''stats''], StatsHandler),
      (Exact [''stream'', ''rgb''], StreamHandler (filepathJoin [absDir, ''rgb'']) ''rgb''),
      (Exact [''stream'', ''depth''], StreamHandler (filepathJoin [absDir, ''depth'']) ''depth''),
      (Subtree [], IndexPage)]"

definition statsHandler :: "(vms_stats \<Rightarrow> bytes) \<Rightarrow> vms_state \<Rightarrow> http_response" where
  "statsHandler encodeJSON st = Content ''application/json'' (encodeJSON (vs_stats st))"

datatype vms_fatal = FramesDirError string | FramesDirMissing string

text \<open>
  \<open>main\<close> up to the listener: the configuration, the master connection (its failure is only logged), the checks of the
  frames directory, and the routes. \<open>absPath\<close> is \<open>filepath.Abs\<close>, \<open>missing\<close> whether \<open>os.Stat\<close> says the file does not exist.
\<close>

definition vmsMain :: "string option \<Rightarrow> string \<Rightarrow> (string \<Rightarrow> string + string) \<Rightarrow> (string \<Rightarrow> bool) \<Rightarrow> vms_flags \<Rightarrow>
    vms_config \<times> string list option \<times> (vms_fatal + (pattern \<times> vms_handler) list)" where
  "vmsMain homeDir tempDir absPath missing f =
     (let c = remoteConfig homeDir tempDir (vf_jetson_frames f) (vf_ssh_key f);
          master = (if vf_jetson_frames f \<noteq> [] then Some (masterArgs c) else None)
      in (c, master,
          case absPath (vf_frames f) of
            Inl e \<Rightarrow> Inl (FramesDirError e)
          | Inr absDir \<Rightarrow>
              if missing absDir then Inl (FramesDirMissing absDir)
              else Inr (vmsRoutes (vf_jetson_frames f \<noteq> []) absDir)))"

text \<open>
  A request to the server in remote mode: the handler gets the decoded path. The argument is what \<open>URL.EscapedPath\<close>
  gives, which is the path as it was sent if that is a valid encoding; the library encodes anew a path with characters
  that no URL may hold, so names with such characters have to be sent escaped.
\<close>

definition vmsRemoteRequest :: "ssh \<Rightarrow> vms_config \<Rightarrow> string \<Rightarrow> string \<Rightarrow> stream_counts \<Rightarrow> (stream_counts \<times> http_response) option" where
  "vmsRemoteRequest ssh c absDir escapedPath n =
     (case (muxRoute (vmsRoutes True absDir) escapedPath, pathUnescape escapedPath) of
        (Handled RemoteFrames, Some path) \<Rightarrow> Some (remoteFramesHandler ssh c path n)
      | _ \<Rightarrow> None)"

section \<open>The qlog viewer and the server\<close>

datatype viewer_handler = ApiEvent | WebSocket | StaticFiles

definition viewerRoutes :: "(pattern \<times> viewer_handler) list" where
  "viewerRoutes = [(Exact [''api'', ''event''], ApiEvent), (Exact [''ws''], WebSocket), (Subtree [], StaticFiles)]"

definition NewServerRoutes :: "(pattern \<times> viewer_handler) list" where
  "NewServerRoutes = [(Exact [''ws''], WebSocket), (Subtree [], StaticFiles)]"

datatype server_exit = ExitStatus int | Serving server

text \<open>\<open>main\<close> of the server: an error of \<open>New\<close> ends with status 1, one of \<open>Start\<close> is logged and \<open>main\<close> returns, with status 0.\<close>

definition serverMain :: "(string \<Rightarrow> string option) \<Rightarrow> (string \<Rightarrow> string + string) \<Rightarrow> ((string, path_id) gomap \<Rightarrow> (string \<times> path_id) list) \<Rightarrow>
    files \<Rightarrow> start_env \<Rightarrow> bool \<Rightarrow> server_exit" where
  "serverMain mkdir readFile order fs env cancelled =
     (case server_New mkdir readFile order fs (DefaultConfig\<lparr>ListenAddr := '':4433''\<rparr>) of
        Inl e \<Rightarrow> ExitStatus 1
      | Inr s \<Rightarrow>
          (case Start env cancelled s of
             (s, Some e) \<Rightarrow> ExitStatus 0
           | (s, None) \<Rightarrow> Serving s))"

section \<open>Routing\<close>

lemma pathUnescape_plain: "CHR ''%'' \<notin> set s \<Longrightarrow> pathUnescape (s @ t) = map_option ((@) s) (pathUnescape t)"
  by (induction s; cases "pathUnescape t") auto

lemma pathUnescape_id: "CHR ''%'' \<notin> set s \<Longrightarrow> pathUnescape s = Some s"
  using pathUnescape_plain [of s "[]"] by simp

lemma pathUnescape_slash: "pathUnescape (''%2f'' @ t) = map_option ((#) CHR ''/'') (pathUnescape t)"
proof -
  have "(char_of (47 :: nat) :: char) = CHR ''/''" by code_simp
  then show ?thesis by (auto simp: hexVal_def split: option.split)
qed

lemma cleanPath_plain:
  assumes "list_all plain cs" and "cs \<noteq> []"
  shows "cleanPath (CHR ''/'' # joinWith CHR ''/'' cs) = CHR ''/'' # joinWith CHR ''/'' cs"
proof -
  let ?p = "CHR ''/'' # joinWith CHR ''/'' cs"
  have ne: "joinWith CHR ''/'' cs \<noteq> []" using joinWith_Nil_iff [OF assms(1)] assms(2) by simp
  have "last ?p \<noteq> CHR ''/''"
  proof
    assume "last ?p = CHR ''/''"
    then have "joinWith CHR ''/'' cs = butlast (joinWith CHR ''/'' cs) @ [CHR ''/'']"
      using ne by (metis append_butlast_last_id last_ConsR)
    then have "cs = splitOn CHR ''/'' (butlast (joinWith CHR ''/'' cs)) @ [[]]"
      using splitOn_plain [OF assms(1)] assms(2) splitOn_snoc by metis
    then have "[] \<in> set cs" by (metis in_set_conv_decomp)
    then show False using assms(1) by (auto simp: list_all_iff plain_def)
  qed
  then show ?thesis by (simp add: cleanPath_def filepathClean_rooted [OF assms(1)] Let_def)
qed

section \<open>Requests that leave the frames directory\<close>

lemma cleanStep_up: "list_all plain out \<Longrightarrow> k \<le> length out \<Longrightarrow> foldl (cleanStep True) out (replicate k ''..'') = drop k out"
proof (induction k arbitrary: out)
  case (Suc k)
  then obtain c out' where "out = c # out'" by (cases out) auto
  then show ?case using Suc by (simp add: cleanStep_def plain_def)
qed simp

lemma no_slash:
  assumes "list_all plain cs"
  shows "\<forall>w \<in> set (replicate k ''..'' @ cs). CHR ''/'' \<notin> set w"
proof
  fix w assume "w \<in> set (replicate k ''..'' @ cs)"
  then consider "w = ''..''" | "w \<in> set cs" by (cases "k = 0") auto
  then show "CHR ''/'' \<notin> set w"
  proof cases
    case 2
    then show ?thesis using assms unfolding list_all_iff plain_def by blast
  qed simp
qed

lemma filepathJoin_up:
  assumes "list_all plain (rs @ cs)" and "rs \<noteq> []" and "cs \<noteq> []" and "k \<le> length rs"
  shows "filepathJoin [CHR ''/'' # joinWith CHR ''/'' rs, joinWith CHR ''/'' (replicate k ''..'' @ cs)] =
    CHR ''/'' # joinWith CHR ''/'' (take (length rs - k) rs @ cs)"
proof -
  let ?all = "rs @ replicate k ''..'' @ cs"
  have "\<forall>w \<in> set ?all. CHR ''/'' \<notin> set w"
    using no_slash [of rs 0] no_slash [of cs k] assms(1) unfolding set_append by auto
  then have parts: "splitOn CHR ''/'' (joinWith CHR ''/'' ?all) = ?all" using assms(2) by (intro splitOn_joinWith) simp_all
  have "foldl (cleanStep True) [] (''''  # ?all) = rev cs @ rev (take (length rs - k) rs)"
  proof -
    have "cleanStep True [] '''' = []" by (simp add: cleanStep_def)
    moreover have "foldl (cleanStep True) [] rs = rev rs" using cleanStep_plain [of rs True "[]"] assms(1) by simp
    moreover have "foldl (cleanStep True) (rev rs) (replicate k ''..'') = rev (take (length rs - k) rs)"
      using cleanStep_up [of "rev rs" k] assms(1,4) by (simp add: rev_take)
    moreover have "foldl (cleanStep True) (rev (take (length rs - k) rs)) cs = rev cs @ rev (take (length rs - k) rs)"
      using assms(1) by (intro cleanStep_plain) simp
    ultimately show ?thesis by (simp only: foldl_append foldl_Cons)
  qed
  then have "filepathClean (CHR ''/'' # joinWith CHR ''/'' ?all) = CHR ''/'' # joinWith CHR ''/'' (take (length rs - k) rs @ cs)"
    by (simp add: filepathClean_def isRooted_def parts del: foldl_Cons)
  then show ?thesis using assms(2,3) by (simp add: filepathJoin_def joinWith_append)
qed

text \<open>The path as it is sent: \<open>k\<close> times two dots and an escaped slash, then the components of the wanted file.\<close>

definition escapingPath :: "nat \<Rightarrow> string list \<Rightarrow> string" where
  "escapingPath k cs = ''/frames/'' @ concat (replicate k ''..%2f'') @ joinWith CHR ''/'' cs"

lemma unescape_up:
  "CHR ''%'' \<notin> set t \<Longrightarrow> pathUnescape (concat (replicate k ''..%2f'') @ t) = Some (concat (replicate k ''../'') @ t)"
proof (induction k)
  case (Suc k)
  have "pathUnescape (''%2f'' @ concat (replicate k ''..%2f'') @ t) = Some (CHR ''/'' # concat (replicate k ''../'') @ t)"
    unfolding pathUnescape_slash Suc.IH [OF Suc.prems] by simp
  then have "pathUnescape (''..'' @ ''%2f'' @ concat (replicate k ''..%2f'') @ t) = Some (''../'' @ concat (replicate k ''../'') @ t)"
    using pathUnescape_plain [of "''..''" "''%2f'' @ concat (replicate k ''..%2f'') @ t"] by (simp del: pathUnescape.simps)
  then show ?case by simp
qed (simp add: pathUnescape_id)

lemma joinWith_up: "cs \<noteq> [] \<Longrightarrow> concat (replicate k ''../'') @ joinWith CHR ''/'' cs = joinWith CHR ''/'' (replicate k ''..'' @ cs)"
proof (induction k)
  case (Suc k)
  then obtain w ws where "replicate k ''..'' @ cs = w # ws" by (cases "replicate k ''..'' @ cs") auto
  then show ?case using Suc by simp
qed simp

lemma joinWith_last_plain:
  assumes "list_all plain cs" and "cs \<noteq> []"
  shows "\<not> hasSuffix (joinWith CHR ''/'' (replicate k ''..'' @ cs)) ''/''"
proof
  let ?ws = "replicate k ''..'' @ cs"
  assume "hasSuffix (joinWith CHR ''/'' ?ws) ''/''"
  then obtain p where p: "joinWith CHR ''/'' ?ws = p @ ''/''" by (metis append_take_drop_id hasSuffix_def)
  have "splitOn CHR ''/'' (joinWith CHR ''/'' ?ws) = ?ws"
    using assms(2) no_slash [OF assms(1)] by (intro splitOn_joinWith) simp_all
  then have "?ws = splitOn CHR ''/'' p @ [[]]" using p splitOn_snoc [of "CHR ''/''" p] by simp
  then have "last cs = []" using assms(2) by (metis last_appendR last_snoc)
  moreover have "last cs \<in> set cs" using assms(2) by simp
  ultimately show False using assms(1) unfolding list_all_iff plain_def by metis
qed

lemma escapingPath_routed:
  assumes "list_all plain cs" and "cs \<noteq> []"
  shows "muxRoute (vmsRoutes True absDir) (escapingPath k cs) = Handled RemoteFrames"
proof -
  let ?up = "concat (replicate k ''..%2f'')"
  let ?ws = "''frames'' # (?up @ hd cs) # tl cs"
  have up: "CHR ''/'' \<notin> set ?up" "?up \<noteq> [] \<Longrightarrow> CHR ''%'' \<in> set ?up" by (induction k) auto
  have "plain (?up @ hd cs)"
  proof (cases "?up = []")
    case True
    then show ?thesis using assms by (cases cs) auto
  next
    case False
    then have "CHR ''%'' \<in> set (?up @ hd cs)" using up(2) unfolding set_append by blast
    moreover have "CHR ''%'' \<notin> set ''.''" "CHR ''%'' \<notin> set ''..''" by simp_all
    ultimately have "?up @ hd cs \<noteq> ''.''" "?up @ hd cs \<noteq> ''..''" by metis+
    then show ?thesis using False up(1) assms by (cases cs) (auto simp: plain_def)
  qed
  then have ws: "list_all plain ?ws" using assms by (cases cs) (auto simp: plain_def)
  have path: "escapingPath k cs = CHR ''/'' # joinWith CHR ''/'' ?ws"
    using assms(2) by (cases "(CHR ''/'', cs)" rule: joinWith.cases) (simp_all add: escapingPath_def)
  have clean: "cleanPath (escapingPath k cs) = escapingPath k cs" unfolding path using cleanPath_plain [OF ws] by simp
  have seg: "segments (escapingPath k cs) = ?ws" unfolding path segments_def using splitOn_plain [OF ws] by simp
  have "muxMatch (vmsRoutes True absDir) (escapingPath k cs) = Some RemoteFrames"
    by (simp add: muxMatch_def seg vmsRoutes_def pathUnescape_id Let_def)
  then show ?thesis by (auto simp: muxRoute_def clean seg vmsRoutes_def Let_def)
qed

text \<open>
  C39: a request can leave the frames directory. For every number \<open>k\<close> of levels up to the depth of the remote root, the
  path with \<open>k\<close> times \<^verbatim>\<open>..%2f\<close> in it is routed to the remote file handler as it is, because the router does
  not decode the escaped slashes before it cleans the path; the handler sees them decoded, and its \<open>filepath.Join\<close> goes
  up \<open>k\<close> levels: the remote host runs \<open>cat\<close> on any file the client names, and the answer is its content.
\<close>

theorem remote_frames_traversal:
  assumes "remoteRoot c = CHR ''/'' # joinWith CHR ''/'' rs" and "list_all plain (rs @ cs)" and "rs \<noteq> []" and "cs \<noteq> []"
    and "k \<le> length rs" and "CHR ''%'' \<notin> set (joinWith CHR ''/'' cs)"
    and "ssh (sshArgs c (''cat /'' @ joinWith CHR ''/'' (take (length rs - k) rs @ cs))) = Inr data"
  shows "\<exists>ty. vmsRemoteRequest ssh c absDir (escapingPath k cs) n = Some (n\<lparr>frameServe := frameServe n + 1\<rparr>, Content ty data)"
proof -
  have cs: "list_all plain cs" using assms(2) by simp
  let ?path = "joinWith CHR ''/'' (replicate k ''..'' @ cs)"
  have "pathUnescape (escapingPath k cs) = Some (''/frames/'' @ ?path)"
    using pathUnescape_plain [of "''/frames/''"] unescape_up [OF assms(6), of k] joinWith_up [OF assms(4), of k]
    by (simp add: escapingPath_def del: pathUnescape.simps)
  moreover have "?path \<noteq> []"
    using joinWith_up [OF assms(4), of k] joinWith_Nil_iff [OF cs] assms(4) by (metis append_is_Nil_conv)
  ultimately show ?thesis
    using joinWith_last_plain [OF cs assms(4), of k] filepathJoin_up [OF assms(2-5)] escapingPath_routed [OF cs assms(4), of absDir k] assms(1,7)
    by (simp add: vmsRemoteRequest_def remoteFramesHandler_def trimPrefix_def readJetsonFrame_def Let_def)
qed

abbreviation zero_counts :: stream_counts where
  "zero_counts \<equiv> \<lparr>frameServe = 0, rgbFrames = 0, depthFrames = 0, rgbBytes = 0, depthBytes = 0\<rparr>"

theorem remote_frames_traversal_witness:
  "\<exists>ty. vmsRemoteRequest (\<lambda>args. if last args = ''cat /etc/passwd'' then Inr [1] else Inl ''no'')
      \<lparr>jetsonFrames = ''h:/srv/frames'', sshHost = ''h'', remoteRoot = ''/srv/frames'', sshKeyPath = [], sshControlPath = []\<rparr>
      ''/app/frames'' ''/frames/..%2f..%2fetc/passwd'' zero_counts = Some (zero_counts\<lparr>frameServe := frameServe zero_counts + 1\<rparr>, Content ty [1])"
  using remote_frames_traversal [where rs = "[''srv'', ''frames'']" and cs = "[''etc'', ''passwd'']" and k = 2 and data = "[1]" and n = zero_counts
      and ssh = "\<lambda>args. if last args = ''cat /etc/passwd'' then Inr [1] else Inl ''no''" and absDir = "''/app/frames''"
      and c = "\<lparr>jetsonFrames = ''h:/srv/frames'', sshHost = ''h'', remoteRoot = ''/srv/frames'', sshKeyPath = [], sshControlPath = []\<rparr>"]
  by (simp add: plain_def sshArgs_def escapingPath_def numeral_2_eq_2)

section \<open>The server comes up\<close>

text \<open>
  With directories that can be made and a working network, \<open>cmd/server\<close> serves: it listens on port 4433 with the default
  limits of paths and streams and the primary path scheduler.
\<close>

theorem serverMain_serves:
  assumes "\<And>d. mkdir d = None" and "\<And>a b. loadTLS env a b = None" and "\<And>a. resolveUDP env a = None" and "\<And>a. listenUDP env a = None"
    and "\<And>a b. listenQUIC env a b = None"
  shows "\<exists>s. serverMain mkdir readFile order fs env False = Serving s \<and> sv_listening s \<and> \<not> sv_cancelled s \<and>
    ListenAddr (sv_config s) = '':4433'' \<and> qc_InitialMaxPathID (quicConfigOf s) = 1 \<and>
    qc_PathSelector (quicConfigOf s) = Some PrimaryPathScheduler"
  using assms
  by (simp add: serverMain_def server_New_def makeFrameDirs_def DefaultConfig_def NewSessionManager_def Validate_def Start_def
      quicConfigOf_def Let_def)

theorem serverMain_serves_witness:
  "\<exists>s. serverMain (\<lambda>_. None) (\<lambda>_. Inl '''') (\<lambda>m. m) [] \<lparr>loadTLS = \<lambda>_ _. None, resolveUDP = \<lambda>_. None, listenUDP = \<lambda>_. None,
     listenQUIC = \<lambda>_ _. None\<rparr> False = Serving s \<and> sv_listening s"
  using serverMain_serves [of "\<lambda>_. None" "\<lparr>loadTLS = \<lambda>_ _. None, resolveUDP = \<lambda>_. None, listenUDP = \<lambda>_. None,
     listenQUIC = \<lambda>_ _. None\<rparr>" "\<lambda>_. Inl ''''" "\<lambda>m. m" "[]"] by auto

end
