(* ===== verification/Spec2Isabelle.thy ===== *)
theory Spec2Isabelle
  imports Varint Frames Path_Manager Cid_Registry Float64 Pqi Scheduler Session Session_Pair
    Decimal Video_Codec Video_Handlers Video_Stream Video_Store Frame_Log Concurrent_Store Config File_Paths Server
    Camera Camera_Devices V4l2 Jetson_Client Jetson_Main Vms Qlog_Viewer Commands
begin

text \<open>
  Verification of mp-quic-go: multipath QUIC (path management, connection IDs, frames, path selection) with a
  video transport on top (camera, sender, server, viewers). All of the repository's own Go code under
  \<^verbatim>\<open>src/internal\<close>, \<^verbatim>\<open>src/pkg\<close> and \<^verbatim>\<open>src/cmd\<close> that computes something is modelled; this theory collects the
  library.

  \<^bold>\<open>The program and the theories.\<close> A client (\<^verbatim>\<open>cmd/jetson\<close>) captures pictures, converts them to JPEG and sends them
  over one QUIC stream per kind. The server (\<^verbatim>\<open>internal/server\<close>) accepts connections, gives each a multipath session,
  and hands every stream to the stream handler, which stores the pictures as files. A web front end
  (\<^verbatim>\<open>cmd/vms\<close>) shows the stored files, a second one (\<^verbatim>\<open>cmd/qlogviewer\<close>) shows connection events.

  \<^item> \<open>Prelude\<close>: words, results (\<open>error + value\<close>), Go maps as association lists with distinct keys, sorting of
    slices (locale \<open>slice_sort\<close>), reachable states (\<open>reach\<close>) and invariants of transition systems (locale
    \<open>invariant_system\<close>, interpreted by \<open>Session\<close>, \<open>Session_Pair\<close>, \<open>Concurrent_Store\<close> and \<open>Qlog_Viewer\<close>). \<open>Decimal\<close>: decimal numbers as text.
    \<open>Float64\<close>: rounding to 53 bits (\<open>fl64\<close>) and its contract as locale \<open>float_rounding\<close>.
  \<^item> \<open>Varint\<close>, \<open>Frames\<close> (\<^verbatim>\<open>internal/mpquic/frame\<close>): variable-length integers and the multipath frames; \<open>Marshal\<close>
    and \<open>Unmarshal\<close> with every error branch. Shown: the round trip in both directions, when encoding
    fails, and what is wrongly accepted.
  \<^item> \<open>Path_Manager\<close> (\<^verbatim>\<open>internal/mpquic/path\<close>): the table of paths as record \<open>manager\<close>, one definition per method.
    Shown: preservation of well-formedness, the search for an unused path ID returns and finds the least one,
    the peer's status updates may arrive in any order and more than once.
  \<^item> \<open>Cid_Registry\<close> (\<^verbatim>\<open>internal/mpquic/cid\<close>): connection IDs per path, issue, retirement, lookup. Shown: numbering,
    the choice of the ID to send with, and that lookup inverts issuing.
  \<^item> \<open>Pqi\<close> (\<^verbatim>\<open>internal/mpquic/pqi\<close>): the path quality index, its smoothing and the handover hysteresis in rounded
    arithmetic. Shown: bounds, dominance, stability of handovers and that due handovers happen.
  \<^item> \<open>Scheduler\<close> (\<^verbatim>\<open>internal/mpquic/scheduler\<close>): the four schedulers behind one interface (a locale with the laws a
    session relies on). Shown: only usable paths are selected, one is found whenever there is one, and what
    each scheduler prefers.
  \<^item> \<open>Session\<close> (\<^verbatim>\<open>internal/mpquic/session\<close>, \<^verbatim>\<open>internal/mpquic/transport\<close>): the session, its operations and incoming
    frames as a step relation. Shown: the invariant of all reachable states, \<open>OpenPath\<close> and \<open>HandleFrame\<close> on
    every branch, an abandoned path is never selected again, a starting session selects the initial path.
    \<open>Session_Pair\<close>: two sessions and the bytes between them, which may be lost, repeated and reordered. Shown: both
    ends agree on the path a connection ID stands for, and that the answers to PATH_ABANDON never end.
  \<^item> \<open>Video_Codec\<close>, \<open>Video_Stream\<close> (\<^verbatim>\<open>internal/conn\<close>), \<open>Video_Handlers\<close> (\<^verbatim>\<open>internal/handler\<close>): the two picture
    formats on the wire, the loop over a stream, and the stores. Shown: round trips, the handling of every
    input, and that the loop ends. \<open>Video_Store\<close>: the
    interface \<open>handler.Handler\<close> as locale \<open>payload_handler\<close> with its three implementations, and how far a stream,
    whatever it contains, can make the stores grow, writes that fail midway included. \<open>Frame_Log\<close>: the log of all
    pictures saved and what the cleanup keeps of it, refined by the stream handler for streams of any length.
    \<open>Concurrent_Store\<close>: the Jetson handler as interleaved steps of many streams, with
    one step per locked section and system call. Shown: the steps of one stream lead where the handler does, no two
    streams write the same file, and the number of files at every moment.
  \<^item> \<open>Config\<close>, \<open>File_Paths\<close>, \<open>Server\<close> (\<^verbatim>\<open>internal/server\<close>, \<^verbatim>\<open>internal/rssi\<close>, \<^verbatim>\<open>pkg/protocols\<close>): the text formats of the
    configuration, the construction and start of the server, its accept loops. Shown: the round trip of the
    interface mapping, that it arrives in every session with both directions inverse, and that accepted
    configurations give connections that are served.
  \<^item> \<open>Camera\<close>, \<open>Camera_Devices\<close>, \<open>V4l2\<close> (\<^verbatim>\<open>internal/camera\<close>): picture sources, the search for cameras with the open handles as
    state, the structures and requests of the camera driver with their memory layout. Shown: agreement of the two
    configuration checks, layout against request sizes, that every handle is closed once, and when no camera is used.
  \<^item> \<open>Jetson_Client\<close>, \<open>Jetson_Main\<close> (\<^verbatim>\<open>cmd/jetson\<close>): the sending loop and \<open>main\<close> around it: flags, scheduler, sockets and paths, camera.
    Shown: the conversion of pictures, the sender run against the receiver of \<open>Video_Stream\<close>, the paths and sockets of a
    started client, the defaults of the scheduler, and the release of everything at the end.
  \<^item> \<open>Vms\<close> (\<^verbatim>\<open>cmd/vms\<close>): the viewer over the files of \<open>Video_Handlers\<close>. Shown: which picture a stream opens with, also
    after a failed write, the accounting of what was sent, the commands sent to the remote host, the colour map.
  \<^item> \<open>Qlog_Viewer\<close> (\<^verbatim>\<open>internal/qlogviewer\<close>, \<^verbatim>\<open>cmd/qlogviewer\<close>): the collector, the web socket handlers and the
    broadcasts, which share a read lock and send to one channel after the other, as a transition system. Shown:
    bounded channels and delivery in the order of each producer under every interleaving, and that the order between
    producers may differ from client to client.
  \<^item> \<open>Commands\<close> (\<^verbatim>\<open>cmd/server\<close>, \<^verbatim>\<open>cmd/vms\<close>, \<^verbatim>\<open>cmd/qlogviewer\<close>): the \<open>main\<close> functions and the routes of the web servers, with the
    router of the Go library on escaped paths. Shown: which requests reach the remote file handler and what it then
    reads, and that the server comes up.

  \<^bold>\<open>Conventions.\<close> Structures are records, interfaces with several implementations are datatypes, errors and panics are
  values of an error datatype per package. Integers keep their width as words where the code depends on
  it; counters and clock readings that cannot overflow are unbounded. Methods under a lock of their own are atomic
  functions on the state; sections under a shared lock, and those without one, are split into steps. A write of a file
  fails before it has created the file or after some bytes. The results of system calls, network operations and library codecs, and
  the clock, are arguments. Where Go iterates over a map, the order is that of the association
  list or an argument, and the theorems hold for every order.

  \<^bold>\<open>Bounds.\<close> Loops are total functions, with one exception: the search for an unused path ID is a
  \<open>partial_function (option)\<close>, and is proved to return when fewer than \<open>2 ^ 32 - 1\<close> paths are registered. The loop over a stream terminates because every round consumes input.
  Floating-point results are rounded after every operation, as on platforms without fused multiply-add;
  the exponent is unbounded, so infinities, subnormal numbers and NaN are outside the model.

  \<^bold>\<open>Not modelled.\<close> The vendored fork of the QUIC library (packet protection, loss recovery, streams): it is used
  through the results of its calls. Sockets, TLS, SSH, JSON and JPEG: arguments, or left out where only their
  text is at stake. The C++ camera library, and the memory behind a mapped camera buffer. Writing a file and listing a
  directory are single steps of the interleaved model. Tickers appear as sequences of rounds. Logging, the parsing of command lines, signals,
  embedded web pages, the helpers of the scheduler's tests.
\<close>

end
